(* ===== verification/Prelude.thy ===== *)
theory Prelude
  imports Main "HOL-Library.Word" "HOL-Library.Sublist"
begin

text \<open>
  Prelude of the development: the collections its proofs draw on, and the generic facts on
  lists, options and words that several components share.

  \<^item> \<open>frame\<close> collects the facts "this operation leaves that field alone";
  \<^item> \<open>keeps\<close> collects the facts "this operation keeps that invariant".
\<close>

named_theorems frame \<open>operations that leave a field alone\<close>
named_theorems keeps \<open>operations that keep an invariant\<close>

unbundle bit_operations_syntax

type_synonym bytes = "8 word list"

section \<open>Outcomes of fallible code\<close>

text \<open>
  A Rust function that returns \<open>Result<T, String>\<close> and may also panic: \<open>Ok\<close>, \<open>Err\<close> with the
  error text, or \<open>Panic\<close>. Sequencing is the \<open>?\<close> operator: the first value that is not \<open>Ok\<close>
  is returned at once.
\<close>

datatype 'a outcome = Ok 'a | Err string | Panic

fun and_then :: "'a outcome \<Rightarrow> ('a \<Rightarrow> 'b outcome) \<Rightarrow> 'b outcome" where
  "and_then (Ok a) f = f a"
| "and_then (Err e) f = Err e"
| "and_then Panic f = Panic"

fun is_ok :: "'a outcome \<Rightarrow> bool" where
  "is_ok (Ok a) = True"
| "is_ok _ = False"

text \<open>A third-party call that returns a \<open>Result\<close> (a sum in the model), with its error mapped.\<close>

fun of_result :: "string + 'a \<Rightarrow> 'a outcome" where
  "of_result (Inl e) = Err e"
| "of_result (Inr a) = Ok a"

lemma and_then_Ok_iff: "and_then r f = Ok b \<longleftrightarrow> (\<exists>a. r = Ok a \<and> f a = Ok b)"
  by (cases r) auto

lemma and_then_Panic_iff:
  "and_then r f = Panic \<longleftrightarrow> r = Panic \<or> (\<exists>a. r = Ok a \<and> f a = Panic)"
  by (cases r) auto

lemma of_result_Ok_iff [simp]: "of_result r = Ok a \<longleftrightarrow> r = Inr a"
  by (cases r) auto

lemma of_result_not_Panic [simp]: "of_result r \<noteq> Panic"
  by (cases r) auto

section \<open>Lists\<close>

text \<open>Update of the first element that satisfies a predicate (an object found and mutated).\<close>

fun update_first :: "('a \<Rightarrow> bool) \<Rightarrow> ('a \<Rightarrow> 'a) \<Rightarrow> 'a list \<Rightarrow> 'a list" where
  "update_first P f [] = []"
| "update_first P f (x # xs) = (if P x then f x # xs else x # update_first P f xs)"

lemma length_update_first [simp]: "length (update_first P f xs) = length xs"
  by (induction xs) auto

lemma update_first_none: "\<forall>x\<in>set xs. \<not> P x \<Longrightarrow> update_first P f xs = xs"
  by (induction xs) auto

lemma map_update_first:
  "(\<And>x. g (f x) = g x) \<Longrightarrow> map g (update_first P f xs) = map g xs"
  by (induction xs) auto

lemma find_Some_D: "List.find P xs = Some x \<Longrightarrow> x \<in> set xs \<and> P x"
  by (induction xs) (auto split: if_splits)

lemma find_None_iff: "List.find P xs = None \<longleftrightarrow> (\<forall>x\<in>set xs. \<not> P x)"
  by (induction xs) auto

lemma find_append:
  "List.find P (xs @ ys) = (case List.find P xs of None \<Rightarrow> List.find P ys | Some x \<Rightarrow> Some x)"
  by (induction xs) auto

lemma find_update_first_key:
  assumes "\<And>x. P (f x) = P x"
  shows "List.find P (update_first P f xs) = map_option f (List.find P xs)"
  using assms by (induction xs) auto

lemma zip3_map: "zip (map f xs) (zip (map g xs) (map h xs)) = map (\<lambda>x. (f x, g x, h x)) xs"
  by (induction xs) auto

lemma prefix_refl_snoc [simp]: "prefix xs (xs @ ys)"
  by (simp add: prefix_def)

section \<open>Words\<close>

lemma unat_word8_lt [simp]: "unat (b :: 8 word) < 256"
proof -
  have "unat b < 2 ^ LENGTH(8)" by (rule unsigned_less)
  then show ?thesis by simp
qed

end
