(* ===== verification/Js_Values.thy ===== *)
theory Js_Values
  imports Prelude
begin

text \<open>
  The part of the JavaScript language and standard library that \<open>webclient/public/main.js\<close> uses:
  strings and their methods, \<open>parseInt\<close> in radix 16, number formatting in radix 10 and 16, the
  32-bit integer operators, and time values. A JavaScript string is a \<open>string\<close> here, one
  character per UTF-16 code unit, for the code units below 256. Nothing in this theory is code of
  the repository: it is the language the model is written over.
\<close>

section \<open>Strings\<close>

text \<open>White space and line terminators (those below 256), as \<open>trim\<close> and \<open>parseInt\<close> strip them.\<close>

definition js_space :: "char \<Rightarrow> bool" where
  "js_space c \<longleftrightarrow> (of_char c :: nat) \<in> {9, 10, 11, 12, 13, 32, 160}"

definition js_trim :: "string \<Rightarrow> string" where
  "js_trim s = rev (dropWhile js_space (rev (dropWhile js_space s)))"

text \<open>\<open>toLowerCase\<close> on the code units below 256: ASCII letters and the accented capitals.\<close>

definition js_lower_char :: "char \<Rightarrow> char" where
  "js_lower_char c =
     (let n = (of_char c :: nat)
      in if (65 \<le> n \<and> n \<le> 90) \<or> (192 \<le> n \<and> n \<le> 222 \<and> n \<noteq> 215) then char_of (n + 32) else c)"

definition js_toLowerCase :: "string \<Rightarrow> string" where
  "js_toLowerCase = map js_lower_char"

text \<open>\<open>s.includes(t)\<close>: \<open>t\<close> occurs in \<open>s\<close> as a contiguous block.\<close>

fun js_startsWith :: "string \<Rightarrow> string \<Rightarrow> bool" where
  "js_startsWith s [] = True"
| "js_startsWith [] (c # t) = False"
| "js_startsWith (d # s) (c # t) = (d = c \<and> js_startsWith s t)"

fun js_includes :: "string \<Rightarrow> string \<Rightarrow> bool" where
  "js_includes [] t = (t = [])"
| "js_includes (c # s) t = (js_startsWith (c # s) t \<or> js_includes s t)"

lemma js_startsWith_prefix: "js_startsWith s t \<longleftrightarrow> prefix t s"
  by (induction s t rule: js_startsWith.induct) auto

lemma js_includes_sublist: "js_includes s t \<longleftrightarrow> sublist t s"
  by (induction s t rule: js_includes.induct)
     (auto simp: js_startsWith_prefix sublist_Cons_right)

lemma js_trim_Nil_iff: "js_trim s = [] \<longleftrightarrow> (\<forall>c\<in>set s. js_space c)"
proof -
  have "dropWhile js_space (rev (dropWhile js_space s)) = [] \<longleftrightarrow>
        (\<forall>c\<in>set (dropWhile js_space s). js_space c)"
    by (simp add: dropWhile_eq_Nil_conv)
  also have "\<dots> \<longleftrightarrow> (\<forall>c\<in>set s. js_space c)"
    by (induction s) auto
  finally show ?thesis by (simp add: js_trim_def)
qed

section \<open>Hexadecimal digits and \<open>parseInt\<close>\<close>

text \<open>The value of a hexadecimal digit, upper or lower case.\<close>

definition hex_val :: "char \<Rightarrow> nat option" where
  "hex_val c =
     (let n = (of_char c :: nat)
      in if 48 \<le> n \<and> n \<le> 57 then Some (n - 48)
         else if 97 \<le> n \<and> n \<le> 102 then Some (n - 87)
         else if 65 \<le> n \<and> n \<le> 70 then Some (n - 55)
         else None)"

definition is_hex :: "char \<Rightarrow> bool" where
  "is_hex c \<longleftrightarrow> hex_val c \<noteq> None"

fun hex_prefix_value :: "nat \<Rightarrow> string \<Rightarrow> nat" where
  "hex_prefix_value acc [] = acc"
| "hex_prefix_value acc (c # s) =
     (case hex_val c of None \<Rightarrow> acc | Some v \<Rightarrow> hex_prefix_value (16 * acc + v) s)"

text \<open>
  \<open>parseInt(s, 16)\<close>: leading white space, an optional sign, an optional \<open>0x\<close>, then the longest
  run of hexadecimal digits; \<open>NaN\<close> (here \<open>None\<close>) when that run is empty.
\<close>

definition strip_0x :: "string \<Rightarrow> string" where
  "strip_0x s = (if js_startsWith s ''0x'' \<or> js_startsWith s ''0X'' then drop 2 s else s)"

definition js_parseInt16 :: "string \<Rightarrow> int option" where
  "js_parseInt16 s0 =
     (let s1 = dropWhile js_space s0;
          neg = js_startsWith s1 ''-'';
          s2 = (if neg \<or> js_startsWith s1 ''+'' then drop 1 s1 else s1);
          s3 = strip_0x s2
      in case s3 of
           [] \<Rightarrow> None
         | c # _ \<Rightarrow>
             if is_hex c
             then Some ((if neg then -1 else 1) * int (hex_prefix_value 0 s3))
             else None)"

section \<open>Numbers\<close>

text \<open>Digits of a number, as \<open>toString(16)\<close> writes them, and their upper case form.\<close>

definition hex_digit :: "nat \<Rightarrow> char" where
  "hex_digit n = char_of (if n < 10 then 48 + n else 87 + n)"

definition js_toUpperCase_hex :: "string \<Rightarrow> string" where
  "js_toUpperCase_hex =
     map (\<lambda>c. let n = (of_char c :: nat) in if 97 \<le> n \<and> n \<le> 122 then char_of (n - 32) else c)"

fun js_toString16 :: "nat \<Rightarrow> string" where
  "js_toString16 n =
     (if n < 16 then [hex_digit n] else js_toString16 (n div 16) @ [hex_digit (n mod 16)])"

declare js_toString16.simps [simp del]

fun js_show_nat :: "nat \<Rightarrow> string" where
  "js_show_nat n =
     (if n < 10 then [char_of (48 + n)] else js_show_nat (n div 10) @ [char_of (48 + n mod 10)])"

declare js_show_nat.simps [simp del]

definition js_show_int :: "int \<Rightarrow> string" where
  "js_show_int i = (if i < 0 then ''-'' @ js_show_nat (nat (- i)) else js_show_nat (nat i))"

text \<open>The operators \<open><<\<close> and \<open>&\<close>: operands are taken modulo \<open>2^32\<close>, the result is signed.\<close>

definition js_shl :: "int \<Rightarrow> nat \<Rightarrow> int" where
  "js_shl x n = sint (push_bit n (word_of_int x :: 32 word))"

definition js_and :: "int \<Rightarrow> int \<Rightarrow> int" where
  "js_and x y = sint ((word_of_int x :: 32 word) AND word_of_int y)"

text \<open>\<open>s.substring(0, e)\<close>: the end is clamped to \<open>0..length\<close>.\<close>

definition js_substring0 :: "string \<Rightarrow> int \<Rightarrow> string" where
  "js_substring0 s e = take (nat e) s"

section \<open>Time values\<close>

text \<open>
  A date is its time value in milliseconds. \<open>toISOString\<close> throws outside the range of time
  values; inside it, different time values have different texts and parsing the text gives the
  time value back, so the text is represented by the time value it denotes.
\<close>

datatype iso_string = ISO (iso_time: int)

definition max_time :: int where
  "max_time = 8640000000000000"

definition js_toISOString :: "int \<Rightarrow> iso_string option" where
  "js_toISOString t = (if \<bar>t\<bar> \<le> max_time then Some (ISO t) else None)"

lemma js_toISOString_Some_iff:
  "js_toISOString t = Some i \<longleftrightarrow> \<bar>t\<bar> \<le> max_time \<and> i = ISO t"
  by (auto simp: js_toISOString_def)

end
