(* ===== verification/Key_Color.thy ===== *)
theory Key_Color
  imports Js_Values
begin

text \<open>
  \<open>getPublicKeyColor\<close> of \<open>webclient/public/main.js\<close>: the avatar colour of a public key. The code
  mixes 32-bit shifts with double arithmetic; the lemmas bound the accumulator (so the doubles are
  exact), show that the colour is the well-known 31-polynomial hash modulo \<open>2^24\<close>, and that the
  text is always a valid six-digit CSS colour.
\<close>

section \<open>The code\<close>

text \<open>
  The loop over the key's code units. \<open>hash\<close> is a JavaScript number: \<open><<\<close> truncates it to 32 bits,
  the subtraction and the addition do not.
\<close>

fun hash_loop :: "int \<Rightarrow> int list \<Rightarrow> int" where
  "hash_loop hash [] = hash"
| "hash_loop hash (u # us) = hash_loop (u + (js_shl hash 5 - hash)) us"

definition char_codes :: "string \<Rightarrow> int list" where
  "char_codes s = map of_char s"

definition getPublicKeyColor :: "string \<Rightarrow> string" where
  "getPublicKeyColor publicKey =
     (if publicKey = [] then ''#ccc''
      else let hash = hash_loop 0 (char_codes publicKey);
               c = js_toUpperCase_hex (js_toString16 (nat (js_and hash 0x00FFFFFF)))
           in ''#'' @ js_substring0 ''00000'' (6 - int (length c)) @ c)"

section \<open>The reference: a polynomial hash, six digits\<close>

fun poly31 :: "int \<Rightarrow> int list \<Rightarrow> int" where
  "poly31 h [] = h"
| "poly31 h (u # us) = poly31 ((31 * h + u) mod 2 ^ 24) us"

definition upper_digit :: "nat \<Rightarrow> char" where
  "upper_digit n = char_of (if n < 10 then 48 + n else 55 + n)"

definition six_digits :: "nat \<Rightarrow> string" where
  "six_digits n =
     map upper_digit [n div 16^5 mod 16, n div 16^4 mod 16, n div 16^3 mod 16,
                      n div 16^2 mod 16, n div 16 mod 16, n mod 16]"

section \<open>The accumulator\<close>

lemma sint_mod_32: "sint (w :: 32 word) mod 2 ^ 32 = uint w"
  by (simp add: uint_sint take_bit_eq_mod)

lemma js_shl_cong: "js_shl x n mod 2 ^ 32 = (x * 2 ^ n) mod 2 ^ 32"
proof -
  have "push_bit n (word_of_int x :: 32 word) = word_of_int (x * 2 ^ n)"
    by (simp add: push_bit_eq_mult)
  then show ?thesis
    unfolding js_shl_def sint_mod_32 by (simp add: uint_word_of_int del: of_int_mult of_int_power)
qed

lemma js_shl_bounds: "- (2 ^ 31) \<le> js_shl x n" "js_shl x n < 2 ^ 31"
  using sint_range_size [of "push_bit n (word_of_int x :: 32 word)"]
  by (simp_all add: js_shl_def word_size)

lemma hash_step_cong: "(u + (js_shl h 5 - h)) mod 2 ^ 24 = (31 * h + u) mod (2 ^ 24 :: int)"
proof -
  have "(js_shl h 5 mod 2 ^ 32) mod 2 ^ 24 = ((h * 2 ^ 5) mod 2 ^ 32) mod (2 ^ 24 :: int)"
    by (simp only: js_shl_cong)
  moreover have "(a mod 2 ^ 32) mod 2 ^ 24 = a mod (2 ^ 24 :: int)" for a
    by (rule mod_mod_cancel) simp
  ultimately have "js_shl h 5 mod 2 ^ 24 = (h * 2 ^ 5) mod (2 ^ 24 :: int)"
    by (simp only:)
  then have "(u + (js_shl h 5 - h)) mod 2 ^ 24 = (u + (h * 2 ^ 5 - h)) mod (2 ^ 24 :: int)"
    by (intro mod_add_cong mod_diff_cong refl)
  also have "u + (h * 2 ^ 5 - h) = 31 * h + u" by simp
  finally show ?thesis .
qed

lemma hash_loop_poly31: "hash_loop h us mod 2 ^ 24 = poly31 (h mod 2 ^ 24) us mod 2 ^ 24"
proof (induction us arbitrary: h)
  case (Cons u us)
  have "(31 * (h mod 2 ^ 24) + u) mod 2 ^ 24 = (31 * h + u) mod (2 ^ 24 :: int)"
    by (metis mod_add_left_eq mod_mult_right_eq)
  then show ?case by (simp only: hash_loop.simps poly31.simps Cons.IH hash_step_cong)
qed simp

lemma poly31_bounds: "0 \<le> h \<Longrightarrow> h < 2 ^ 24 \<Longrightarrow> 0 \<le> poly31 h us \<and> poly31 h us < 2 ^ 24"
  by (induction us arbitrary: h) auto

lemma js_and_low24: "js_and x 0x00FFFFFF = x mod 2 ^ 24"
proof -
  have u: "uint ((word_of_int x :: 32 word) AND 0xFFFFFF) = x mod 2 ^ 24"
  proof -
    have "(0xFFFFFF :: 32 word) = mask 24" by (simp add: mask_eq_exp_minus_1)
    then have "(word_of_int x :: 32 word) AND 0xFFFFFF = take_bit 24 (word_of_int x)"
      by (simp only: take_bit_eq_mask)
    then have "uint ((word_of_int x :: 32 word) AND 0xFFFFFF) = take_bit 24 (uint (word_of_int x :: 32 word))"
      by (simp only: unsigned_take_bit_eq)
    also have "\<dots> = (x mod 2 ^ 32) mod 2 ^ 24"
      by (simp add: uint_word_of_int take_bit_eq_mod)
    also have "\<dots> = x mod 2 ^ 24" by (rule mod_mod_cancel) simp
    finally show ?thesis .
  qed
  have "signed_take_bit 31 (x mod 2 ^ 24) = x mod (2 ^ 24 :: int)"
    by (rule signed_take_bit_int_eq_self) (auto intro: order_trans [of _ 0] less_trans [of _ "2 ^ 24"])
  then show ?thesis by (simp add: js_and_def sint_uint u)
qed

section \<open>The text\<close>

lemma hex_digit_0: "hex_digit 0 = CHR ''0''"
  by code_simp

fun hex_fixed :: "nat \<Rightarrow> nat \<Rightarrow> string" where
  "hex_fixed 0 n = []"
| "hex_fixed (Suc k) n = hex_fixed k (n div 16) @ [hex_digit (n mod 16)]"

lemma js_toString16_nonempty: "js_toString16 n \<noteq> []"
  by (subst js_toString16.simps) simp

lemma hex_fixed_0: "hex_fixed k 0 = replicate k (CHR ''0'')"
  by (induction k) (simp_all add: hex_digit_0 replicate_append_same)

lemma hex_fixed_small: "n < 16 \<Longrightarrow> hex_fixed (Suc k) n = replicate k (CHR ''0'') @ [hex_digit n]"
  by (simp add: hex_fixed_0)

lemma js_toString16_pad:
  "n < 16 ^ k \<Longrightarrow> 0 < k \<Longrightarrow>
   length (js_toString16 n) \<le> k \<and>
   replicate (k - length (js_toString16 n)) (CHR ''0'') @ js_toString16 n = hex_fixed k n"
proof (induction k arbitrary: n)
  case (Suc k)
  show ?case
  proof (cases "n < 16")
    case True
    then show ?thesis by (subst (1 2 3) js_toString16.simps) (simp add: hex_fixed_small del: hex_fixed.simps)
  next
    case False
    then have "k \<noteq> 0" using Suc.prems by (cases k) auto
    moreover have "n div 16 < 16 ^ k" using Suc.prems by (simp add: less_mult_imp_div_less mult.commute)
    ultimately have "length (js_toString16 (n div 16)) \<le> k"
        "replicate (k - length (js_toString16 (n div 16))) (CHR ''0'') @ js_toString16 (n div 16) = hex_fixed k (n div 16)"
      using Suc.IH by auto
    with False show ?thesis
      by (subst (1 2 3) js_toString16.simps) (simp flip: append_assoc)
  qed
qed simp

lemma pad_zeros: "0 < l \<Longrightarrow> l \<le> 6 \<Longrightarrow> js_substring0 ''00000'' (6 - int l) = replicate (6 - l) (CHR ''0'')"
proof -
  assume l: "0 < l" "l \<le> 6"
  have "''00000'' = replicate 5 (CHR ''0'')" by (simp add: eval_nat_numeral)
  moreover have "nat (6 - int l) = 6 - l" using l by simp
  ultimately show ?thesis using l by (simp only: js_substring0_def take_replicate) simp
qed

lemma js_toUpperCase_hex_digit: "n < 16 \<Longrightarrow> js_toUpperCase_hex [hex_digit n] = [upper_digit n]"
  by (auto simp: js_toUpperCase_hex_def hex_digit_def upper_digit_def Let_def)

lemma js_toUpperCase_hex_append:
  "js_toUpperCase_hex (s @ t) = js_toUpperCase_hex s @ js_toUpperCase_hex t"
  by (simp add: js_toUpperCase_hex_def)

lemma js_toUpperCase_hex_zeros:
  "js_toUpperCase_hex (replicate n (CHR ''0'')) = replicate n (CHR ''0'')"
  by (simp add: js_toUpperCase_hex_def Let_def)

lemma js_toUpperCase_hex_length [simp]: "length (js_toUpperCase_hex s) = length s"
  by (simp add: js_toUpperCase_hex_def)

lemma hex_fixed_6_digits: "hex_fixed 6 n = map hex_digit [n div 16^5 mod 16, n div 16^4 mod 16, n div 16^3 mod 16,
      n div 16^2 mod 16, n div 16 mod 16, n mod 16]"
proof -
  have "n div 16^2 = n div 16 div 16" "n div 16^3 = n div 16 div 16 div 16"
    "n div 16^4 = n div 16 div 16 div 16 div 16" 
    "n div 16^5 = n div 16 div 16 div 16 div 16 div 16"
     by (simp_all only: div_mult2_eq [symmetric]) simp_all
  moreover have "hex_fixed 6 n = hex_fixed (Suc (Suc (Suc (Suc (Suc (Suc 0)))))) n" by (simp add: numeral_eq_Suc del: hex_fixed.simps)
  ultimately show ?thesis by (simp only: hex_fixed.simps list.map append.simps)
qed

lemma hex_fixed_6: "js_toUpperCase_hex (hex_fixed 6 n) = six_digits n"
proof -
  have up: "js_toUpperCase_hex (map hex_digit ds) = map upper_digit ds" if "\<forall>d\<in>set ds. d < 16" for ds
    using that js_toUpperCase_hex_digit by (induction ds) (auto simp: js_toUpperCase_hex_def)
  show ?thesis unfolding hex_fixed_6_digits six_digits_def by (rule up) simp
qed

lemma padded_colour:
  assumes "n < 2 ^ 24"
  shows "(let c = js_toUpperCase_hex (js_toString16 n)
          in js_substring0 ''00000'' (6 - int (length c)) @ c) = six_digits n"
proof -
  have "length (js_toString16 n) \<le> 6"
    "replicate (6 - length (js_toString16 n)) (CHR ''0'') @ js_toString16 n = hex_fixed 6 n"
    using js_toString16_pad [of n 6] assms by auto
  note len = this(1) and pad = this(2)
  have "js_substring0 ''00000'' (6 - int (length (js_toString16 n)))
      = js_toUpperCase_hex (replicate (6 - length (js_toString16 n)) (CHR ''0''))"
    using pad_zeros [OF _ len] js_toString16_nonempty [of n]
    by (simp add: js_toUpperCase_hex_zeros)
  then show ?thesis
    by (simp only: Let_def js_toUpperCase_hex_length pad hex_fixed_6
        flip: js_toUpperCase_hex_append)
qed

text \<open>
  For every non-empty key the colour is \<open>#\<close> and exactly six upper case digits, the
  31-polynomial hash of the key's code units modulo \<open>2^24\<close>, whatever the mix of truncated and
  untruncated arithmetic in the loop; for the empty key it is the placeholder colour.
\<close>

theorem getPublicKeyColor_poly31:
  "getPublicKeyColor pk =
     (if pk = [] then ''#ccc'' else ''#'' @ six_digits (nat (poly31 0 (char_codes pk))))"
proof (cases "pk = []")
  case False
  define p where "p = poly31 0 (char_codes pk)"
  have p: "0 \<le> p" "p < 2 ^ 24" using poly31_bounds [of 0 "char_codes pk"] by (simp_all add: p_def)
  then have "js_and (hash_loop 0 (char_codes pk)) 0x00FFFFFF = p"
    using hash_loop_poly31 [of 0 "char_codes pk"] by (simp add: js_and_low24 p_def)
  moreover have "nat p < 2 ^ 24" using p by (simp add: nat_less_iff)
  ultimately show ?thesis
    using False padded_colour [of "nat p"] by (simp add: getPublicKeyColor_def Let_def p_def)
qed (simp add: getPublicKeyColor_def)

section \<open>Exactness\<close>

lemma hash_step_bound:
  assumes "0 \<le> u" "u < 2 ^ 16"
  shows "\<bar>u + (js_shl h 5 - h)\<bar> \<le> \<bar>h\<bar> + (2 ^ 31 + 2 ^ 16)"
  using assms js_shl_bounds [of h 5] by (auto simp: abs_le_iff)

text \<open>
  The accumulator, which the code never truncates, grows by less than \<open>2^31 + 2^16\<close> for each
  code unit; on a key of at most \<open>2^21\<close> code units it stays below \<open>2^53\<close> in magnitude, so every
  intermediate double is an exact integer.
\<close>

theorem hash_loop_exact:
  assumes "\<forall>u\<in>set us. 0 \<le> u \<and> u < 2 ^ 16" "length us \<le> 2 ^ 21"
  shows "\<bar>hash_loop 0 us\<bar> \<le> int (length us) * (2 ^ 31 + 2 ^ 16) \<and> \<bar>hash_loop 0 us\<bar> < 2 ^ 53"
proof -
  have gen: "\<bar>hash_loop h us\<bar> \<le> \<bar>h\<bar> + int (length us) * (2 ^ 31 + 2 ^ 16)"
    if "\<forall>u\<in>set us. 0 \<le> u \<and> u < 2 ^ 16" for h us
    using that
  proof (induction us arbitrary: h)
    case (Cons u us)
    have "\<bar>hash_loop h (u # us)\<bar> \<le> \<bar>u + (js_shl h 5 - h)\<bar> + int (length us) * (2 ^ 31 + 2 ^ 16)"
      using Cons.IH [of "u + (js_shl h 5 - h)"] Cons.prems by simp
    then show ?case
      using hash_step_bound [of u h] Cons.prems by (simp add: algebra_simps)
  qed simp
  have "int (length us) * (2 ^ 31 + 2 ^ 16) \<le> 2 ^ 21 * (2 ^ 31 + 2 ^ 16)"
    using assms(2) by (intro mult_right_mono) simp_all
  with gen [OF assms(1), of 0] show ?thesis by auto
qed

theorem hash_loop_exact_witness:
  "\<bar>hash_loop 0 [48, 52, 65535]\<bar> \<le> int 3 * (2 ^ 31 + 2 ^ 16) \<and> \<bar>hash_loop 0 [48, 52, 65535]\<bar> < 2 ^ 53"
  using hash_loop_exact [of "[48, 52, 65535]"] by simp

end
