(* ===== verification/Hex_Codec.thy ===== *)
theory Hex_Codec
  imports Js_Values
begin

text \<open>
  \<open>hexToUint8Array\<close> of \<open>webclient/public/main.js\<close>: the decoder the client applies to the
  challenge nonce a node sends as a hexadecimal string, with its error branches, its inverse
  (\<open>hex::encode\<close>, which the nodes use, is a parameter described by \<open>hex_encode_spec\<close>), and what it
  accepts beyond hexadecimal.
\<close>

section \<open>The decoder\<close>

text \<open>
  The loop reads the string two characters at a time. \<open>parseInt\<close> may return a negative number
  (a pair \<open>-1\<close>), which the store into the byte array reduces modulo 256.
\<close>

fun hex_pairs :: "string \<Rightarrow> string + bytes" where
  "hex_pairs (c # d # s) =
     (case js_parseInt16 [c, d] of
        None \<Rightarrow> Inl ''Invalid hexString''
      | Some byteValue \<Rightarrow>
          (case hex_pairs s of
             Inl e \<Rightarrow> Inl e
           | Inr bs \<Rightarrow> Inr (word_of_int byteValue # bs)))"
| "hex_pairs _ = Inr []"

definition hexToUint8Array :: "string \<Rightarrow> string + bytes" where
  "hexToUint8Array hexString =
     (if length hexString mod 2 \<noteq> 0 then Inl ''Invalid hexString'' else hex_pairs hexString)"

section \<open>The encoder it inverts\<close>

definition lower_hex :: "bytes \<Rightarrow> string" where
  "lower_hex bs = concat (map (\<lambda>b. [hex_digit (unat b div 16), hex_digit (unat b mod 16)]) bs)"

text \<open>\<open>hex::encode\<close> of the crate \<open>hex\<close>: two lower case digits for each byte.\<close>

definition hex_encode_spec :: "(bytes \<Rightarrow> string) \<Rightarrow> bool" where
  "hex_encode_spec enc \<longleftrightarrow> (\<forall>bs. enc bs = lower_hex bs)"

section \<open>Digits\<close>

lemma of_char_char_of_small: "n < 256 \<Longrightarrow> (of_char (char_of n :: char) :: nat) = n"
  by (simp add: of_char_of)

lemma hex_val_hex_digit [simp]: "n < 16 \<Longrightarrow> hex_val (hex_digit n) = Some n"
  by (auto simp: hex_val_def hex_digit_def Let_def)

lemma hex_val_bound: "hex_val c = Some v \<Longrightarrow> v < 16"
  by (auto simp: hex_val_def Let_def split: if_splits)

lemma hex_digit_hex_val: "hex_val c = Some v \<Longrightarrow> hex_digit v = js_lower_char c"
proof -
  assume "hex_val c = Some v"
  then have "v = of_char c - 48 \<and> 48 \<le> (of_char c :: nat) \<and> (of_char c :: nat) \<le> 57
      \<or> v = of_char c - 87 \<and> 97 \<le> (of_char c :: nat) \<and> (of_char c :: nat) \<le> 102
      \<or> v = of_char c - 55 \<and> 65 \<le> (of_char c :: nat) \<and> (of_char c :: nat) \<le> 70"
    by (auto simp: hex_val_def Let_def split: if_splits)
  then show ?thesis
    by (elim disjE) (auto simp: hex_digit_def js_lower_char_def Let_def)
qed

lemma hex_val_not_special:
  assumes "hex_val c = Some v"
  shows "\<not> js_space c" "c \<noteq> CHR ''-''" "c \<noteq> CHR ''+''" "c \<noteq> CHR ''x''" "c \<noteq> CHR ''X''"
  using assms by (auto simp: hex_val_def js_space_def Let_def split: if_splits)

lemma parseInt16_pair:
  assumes "hex_val c = Some v" "hex_val d = Some w"
  shows "js_parseInt16 [c, d] = Some (int (16 * v + w))"
  using assms hex_val_not_special [OF assms(1)] hex_val_not_special [OF assms(2)]
  by (simp add: js_parseInt16_def strip_0x_def is_hex_def Let_def)

section \<open>Round trips\<close>

lemma byte_of_nibbles: "word_of_int (int (16 * (unat b div 16) + unat b mod 16)) = (b :: 8 word)"
proof -
  have "16 * (unat b div 16) + unat b mod 16 = unat b" by simp
  then show ?thesis by (simp del: of_nat_add of_nat_mult)
qed

lemma hex_pairs_lower_hex: "hex_pairs (lower_hex bs) = Inr bs"
proof (induction bs)
  case (Cons b bs)
  have "unat b div 16 < 16" using unat_word8_lt [of b] by linarith
  then have "js_parseInt16 [hex_digit (unat b div 16), hex_digit (unat b mod 16)]
      = Some (int (16 * (unat b div 16) + unat b mod 16))"
    by (intro parseInt16_pair) simp_all
  with Cons show ?case
    by (simp add: lower_hex_def byte_of_nibbles del: of_nat_add of_nat_mult)
qed (simp add: lower_hex_def)

lemma length_lower_hex: "length (lower_hex bs) = 2 * length bs"
  by (induction bs) (auto simp: lower_hex_def)

lemma lower_hex_pair:
  assumes "v < 16" "w < 16"
  shows "lower_hex (word_of_int (int (16 * v + w)) # bs)
    = hex_digit v # hex_digit w # lower_hex bs"
proof -
  have "unat (word_of_int (int (16 * v + w)) :: 8 word) = 16 * v + w"
    using assms by (simp add: unsigned_of_nat take_bit_nat_eq_self del: of_nat_add of_nat_mult)
  then show ?thesis using assms by (simp add: lower_hex_def)
qed

lemma hex_pairs_hex:
  assumes "\<forall>c\<in>set s. is_hex c" "even (length s)"
  shows "\<exists>bs. hex_pairs s = Inr bs \<and> lower_hex bs = js_toLowerCase s"
  using assms
proof (induction s rule: hex_pairs.induct)
  case (1 c d s)
  from "1.prems" obtain v w where vw: "hex_val c = Some v" "hex_val d = Some w"
    by (auto simp: is_hex_def)
  from vw have p: "js_parseInt16 [c, d] = Some (int (16 * v + w))" by (rule parseInt16_pair)
  from "1.IH" [OF p] "1.prems" obtain bs
    where "hex_pairs s = Inr bs" "lower_hex bs = js_toLowerCase s" by auto
  with p vw show ?case
    using lower_hex_pair [OF vw [THEN hex_val_bound], of bs]
    by (simp add: js_toLowerCase_def hex_digit_hex_val del: of_nat_add of_nat_mult)
qed (auto simp: lower_hex_def js_toLowerCase_def)

text \<open>
  C33. The client's decoder inverts the encoder the nodes use: whatever bytes a node encodes as
  hexadecimal (the 32-byte challenge nonce), the client decodes the same bytes.
\<close>

theorem hex_roundtrip:
  assumes "hex_encode_spec enc"
  shows "hexToUint8Array (enc bs) = Inr bs"
  using assms hex_pairs_lower_hex [of bs] length_lower_hex [of bs]
  by (simp add: hex_encode_spec_def hexToUint8Array_def)

theorem hex_roundtrip_witness:
  "hex_encode_spec lower_hex \<and> hexToUint8Array (lower_hex [0, 171, 255]) = Inr [0, 171, 255]"
proof -
  have h: "hex_encode_spec lower_hex" by (simp add: hex_encode_spec_def)
  show ?thesis using h hex_roundtrip [OF h, of "[0, 171, 255]"] by simp
qed

text \<open>
  On strings of hexadecimal digits of even length, in either case, the decoder always
  succeeds, and encoding its result gives the lower case form of the input: nothing is lost but
  the case. A string of odd length is always rejected.
\<close>

theorem hex_decode_total:
  "(even (length s) \<and> (\<forall>c\<in>set s. is_hex c) \<longrightarrow>
     (\<exists>bs. hexToUint8Array s = Inr bs \<and> length bs = length s div 2 \<and>
           lower_hex bs = js_toLowerCase s)) \<and>
   (odd (length s) \<longrightarrow> hexToUint8Array s = Inl ''Invalid hexString'')"
proof (intro conjI impI)
  assume "even (length s) \<and> (\<forall>c\<in>set s. is_hex c)"
  moreover from this obtain bs where bs: "hex_pairs s = Inr bs" "lower_hex bs = js_toLowerCase s"
    using hex_pairs_hex by blast
  moreover from bs(2) have "2 * length bs = length s"
    using length_lower_hex [of bs] by (simp add: js_toLowerCase_def)
  ultimately show "\<exists>bs. hexToUint8Array s = Inr bs \<and> length bs = length s div 2 \<and>
      lower_hex bs = js_toLowerCase s"
    by (intro exI [of _ bs]) (auto simp: hexToUint8Array_def)
next
  assume "odd (length s)"
  then show "hexToUint8Array s = Inl ''Invalid hexString''"
    by (simp add: hexToUint8Array_def odd_iff_mod_2_eq_one)
qed

theorem hex_decode_total_witness:
  "\<exists>bs. hexToUint8Array ''0Aff'' = Inr bs \<and> length bs = length ''0Aff'' div 2 \<and>
     lower_hex bs = js_toLowerCase ''0Aff''"
  by (rule hex_decode_total [of "''0Aff''", THEN conjunct1, rule_format])
     (simp add: is_hex_def hex_val_def Let_def)

text \<open>
  The check against \<open>NaN\<close> does not reject every pair that is not hexadecimal: \<open>parseInt\<close> stops at
  the first character that is not a digit, skips white space and reads a sign.
\<close>

lemma hex_decode_lenient:
  "hexToUint8Array ''1g'' = Inr [1]" "hexToUint8Array ''-1'' = Inr [255]"
  "hexToUint8Array '' 7'' = Inr [7]" "hexToUint8Array ''g1'' = Inl ''Invalid hexString''"
  by (simp_all add: hexToUint8Array_def js_parseInt16_def strip_0x_def is_hex_def hex_val_def
      js_space_def Let_def)

end
