(* ===== verification/Keys.thy ===== *)
theory Keys
  imports Hex_Codec
begin

text \<open>
  \<open>lib/src/keys.rs\<close>: key pairs, the ECDH/HKDF/AES-GCM message encryption and the ECDSA signatures.
  The cryptographic crates (\<open>hex\<close>, \<open>p256\<close>, \<open>hkdf\<close>, \<open>aes-gcm\<close>, \<open>ecdsa\<close>) are not code of the
  repository: they are the fields of the record \<open>crypto\<close>, an argument of every definition, and
  \<open>crypto_ok\<close> states the documented behaviour the code relies on. Randomness (a fresh secret key,
  a fresh nonce) is an argument too. Parsed keys and signatures are represented by their bytes.
\<close>

section \<open>The crates\<close>

record crypto =
  hex_decode :: "string \<Rightarrow> string + bytes"
  hex_encode :: "bytes \<Rightarrow> string"
  secret_from_slice :: "bytes \<Rightarrow> string + bytes"
  public_from_sec1 :: "bytes \<Rightarrow> string + bytes"
  diffie_hellman :: "bytes \<Rightarrow> bytes \<Rightarrow> bytes"
  hkdf_expand :: "bytes \<Rightarrow> nat \<Rightarrow> string + bytes"
  aes_encrypt :: "bytes \<Rightarrow> bytes \<Rightarrow> bytes \<Rightarrow> string + bytes"
  aes_decrypt :: "bytes \<Rightarrow> bytes \<Rightarrow> bytes \<Rightarrow> string + bytes"
  public_of :: "bytes \<Rightarrow> bytes"
  signing_from_slice :: "bytes \<Rightarrow> string + bytes"
  ecdsa_sign :: "bytes \<Rightarrow> bytes \<Rightarrow> bytes"
  signature_from_slice :: "bytes \<Rightarrow> string + bytes"
  verifying_from_sec1 :: "bytes \<Rightarrow> string + bytes"
  ecdsa_verify :: "bytes \<Rightarrow> bytes \<Rightarrow> bytes \<Rightarrow> bool"

text \<open>A secret key that both parsers accept, as every generated key is.\<close>

definition valid_secret :: "crypto \<Rightarrow> bytes \<Rightarrow> bool" where
  "valid_secret P sk \<longleftrightarrow> secret_from_slice P sk = Inr sk \<and> signing_from_slice P sk = Inr sk"

text \<open>The largest plaintext AES-GCM encrypts under one nonce, in bytes.\<close>

definition max_plaintext :: nat where
  "max_plaintext = 2 ^ 36 - 32"

definition crypto_ok :: "crypto \<Rightarrow> bool" where
  "crypto_ok P \<longleftrightarrow>
     (\<forall>bs. hex_decode P (hex_encode P bs) = Inr bs) \<and>
     (\<forall>sk. valid_secret P sk \<longrightarrow>
        public_from_sec1 P (public_of P sk) = Inr (public_of P sk) \<and>
        verifying_from_sec1 P (public_of P sk) = Inr (public_of P sk)) \<and>
     (\<forall>a b. valid_secret P a \<longrightarrow> valid_secret P b \<longrightarrow>
        diffie_hellman P a (public_of P b) = diffie_hellman P b (public_of P a)) \<and>
     (\<forall>ikm. \<exists>okm. hkdf_expand P ikm 32 = Inr okm) \<and>
     (\<forall>k n pt. length pt \<le> max_plaintext \<longrightarrow>
        (\<exists>ct. aes_encrypt P k n pt = Inr ct \<and> aes_decrypt P k n ct = Inr pt)) \<and>
     (\<forall>sk m. valid_secret P sk \<longrightarrow>
        signature_from_slice P (ecdsa_sign P sk m) = Inr (ecdsa_sign P sk m) \<and>
        ecdsa_verify P (public_of P sk) m (ecdsa_sign P sk m))"

lemma crypto_okD:
  assumes "crypto_ok P"
  shows crypto_hex: "hex_decode P (hex_encode P bs) = Inr bs"
    and crypto_public: "valid_secret P sk \<Longrightarrow> public_from_sec1 P (public_of P sk) = Inr (public_of P sk)"
    and crypto_verifying: "valid_secret P sk \<Longrightarrow> verifying_from_sec1 P (public_of P sk) = Inr (public_of P sk)"
    and crypto_dh: "valid_secret P a \<Longrightarrow> valid_secret P b \<Longrightarrow>
      diffie_hellman P a (public_of P b) = diffie_hellman P b (public_of P a)"
    and crypto_hkdf: "\<exists>okm. hkdf_expand P ikm 32 = Inr okm"
    and crypto_aead: "length pt \<le> max_plaintext \<Longrightarrow>
      \<exists>ct. aes_encrypt P k n pt = Inr ct \<and> aes_decrypt P k n ct = Inr pt"
    and crypto_signature: "valid_secret P sk \<Longrightarrow>
      signature_from_slice P (ecdsa_sign P sk m) = Inr (ecdsa_sign P sk m) \<and>
      ecdsa_verify P (public_of P sk) m (ecdsa_sign P sk m)"
  using assms unfolding crypto_ok_def by simp_all

section \<open>The module\<close>

record keypair =
  private_key :: string
  public_key :: string

definition generate_keypair :: "crypto \<Rightarrow> bytes \<Rightarrow> keypair" where
  "generate_keypair P sk =
     \<lparr>private_key = hex_encode P sk, public_key = hex_encode P (public_of P sk)\<rparr>"

definition derive_shared_secret :: "crypto \<Rightarrow> string \<Rightarrow> string \<Rightarrow> bytes outcome" where
  "derive_shared_secret P private_key_hex public_key_hex =
     and_then (of_result (hex_decode P private_key_hex)) (\<lambda>private_bytes.
     and_then (of_result (hex_decode P public_key_hex)) (\<lambda>public_bytes.
     and_then (of_result (secret_from_slice P private_bytes)) (\<lambda>secret.
     and_then (of_result (public_from_sec1 P public_bytes)) (\<lambda>public.
       of_result (hkdf_expand P (diffie_hellman P secret public) 32)))))"

text \<open>\<open>Nonce::from_slice\<close> panics unless the slice has the 12 bytes of a nonce.\<close>

definition nonce_from_slice :: "bytes \<Rightarrow> bytes outcome" where
  "nonce_from_slice n = (if length n = 12 then Ok n else Panic)"

definition encrypt :: "crypto \<Rightarrow> bytes \<Rightarrow> string \<Rightarrow> string \<Rightarrow> bytes \<Rightarrow> (bytes \<times> bytes) outcome" where
  "encrypt P nonce_bytes private_key_hex public_key_hex plaintext =
     and_then (derive_shared_secret P private_key_hex public_key_hex) (\<lambda>key.
     and_then (nonce_from_slice nonce_bytes) (\<lambda>nonce.
     and_then (of_result (aes_encrypt P key nonce plaintext)) (\<lambda>ciphertext.
       Ok (ciphertext, nonce_bytes))))"

definition decrypt :: "crypto \<Rightarrow> string \<Rightarrow> string \<Rightarrow> bytes \<Rightarrow> bytes \<Rightarrow> bytes outcome" where
  "decrypt P private_key_hex public_key_hex ciphertext nonce =
     and_then (derive_shared_secret P private_key_hex public_key_hex) (\<lambda>key.
     and_then (nonce_from_slice nonce) (\<lambda>nonce_slice.
       of_result (aes_decrypt P key nonce_slice ciphertext)))"

definition sign :: "crypto \<Rightarrow> string \<Rightarrow> bytes \<Rightarrow> bytes outcome" where
  "sign P private_key_hex message =
     and_then (of_result (hex_decode P private_key_hex)) (\<lambda>private_bytes.
     and_then (of_result (signing_from_slice P private_bytes)) (\<lambda>signing_key.
       Ok (ecdsa_sign P signing_key message)))"

definition verify :: "crypto \<Rightarrow> string \<Rightarrow> bytes \<Rightarrow> bytes \<Rightarrow> bool" where
  "verify P public_key_hex message signature_bytes =
     (case hex_decode P public_key_hex of
        Inl _ \<Rightarrow> False
      | Inr public_bytes \<Rightarrow>
          (case signature_from_slice P signature_bytes of
             Inl _ \<Rightarrow> False
           | Inr signature \<Rightarrow>
               (case verifying_from_sec1 P public_bytes of
                  Inl _ \<Rightarrow> False
                | Inr verifying_key \<Rightarrow> ecdsa_verify P verifying_key message signature)))"

section \<open>A concrete instance\<close>

text \<open>
  A toy instance of the crates that satisfies \<open>crypto_ok\<close>, for closed examples: a secret key is
  its own public key, the shared secret is a sum, encryption prepends key and nonce.
\<close>

definition toy_open :: "bytes \<Rightarrow> bytes \<Rightarrow> bytes \<Rightarrow> string + bytes" where
  "toy_open k n ct =
     (let h = k @ n
      in if take (length h) ct = h then Inr (drop (length h) ct) else Inl ''aead::Error'')"

definition toy_crypto :: crypto where
  "toy_crypto =
     \<lparr>hex_decode = hexToUint8Array, hex_encode = lower_hex,
      secret_from_slice = Inr, public_from_sec1 = Inr,
      diffie_hellman = (\<lambda>a b. [sum_list a + sum_list b]),
      hkdf_expand = (\<lambda>ikm n. Inr ikm),
      aes_encrypt = (\<lambda>k n pt. Inr (k @ n @ pt)), aes_decrypt = toy_open,
      public_of = (\<lambda>sk. sk), signing_from_slice = Inr,
      ecdsa_sign = (\<lambda>sk m. sk @ m), signature_from_slice = Inr,
      verifying_from_sec1 = Inr, ecdsa_verify = (\<lambda>vk m s. s = vk @ m)\<rparr>"

lemma hexToUint8Array_lower_hex [simp]: "hexToUint8Array (lower_hex bs) = Inr bs"
  using hex_pairs_lower_hex [of bs] length_lower_hex [of bs] by (simp add: hexToUint8Array_def)

lemma toy_valid [simp]: "valid_secret toy_crypto sk"
  by (simp add: valid_secret_def toy_crypto_def)

lemma toy_crypto_ok: "crypto_ok toy_crypto"
  unfolding crypto_ok_def by (simp add: toy_crypto_def toy_open_def add.commute)

section \<open>Properties\<close>

lemma derive_shared_secret_hex:
  assumes "crypto_ok P" "valid_secret P a" "valid_secret P b"
  shows "\<exists>okm. derive_shared_secret P (hex_encode P a) (hex_encode P (public_of P b)) = Ok okm \<and>
               derive_shared_secret P (hex_encode P b) (hex_encode P (public_of P a)) = Ok okm"
proof -
  obtain okm where "hkdf_expand P (diffie_hellman P a (public_of P b)) 32 = Inr okm"
    using crypto_hkdf [OF assms(1)] by blast
  with assms show ?thesis
    by (intro exI [of _ okm])
       (simp add: derive_shared_secret_def crypto_hex crypto_public crypto_dh [of P a b] valid_secret_def)
qed

lemma encrypt_decrypt:
  assumes "crypto_ok P" "valid_secret P a" "valid_secret P b"
    and "length n = 12" "length pt \<le> max_plaintext"
  shows "\<exists>ct. encrypt P n (hex_encode P a) (hex_encode P (public_of P b)) pt = Ok (ct, n) \<and>
              decrypt P (hex_encode P b) (hex_encode P (public_of P a)) ct n = Ok pt \<and>
              decrypt P (hex_encode P a) (hex_encode P (public_of P b)) ct n = Ok pt"
proof -
  obtain okm where
    k: "derive_shared_secret P (hex_encode P a) (hex_encode P (public_of P b)) = Ok okm"
       "derive_shared_secret P (hex_encode P b) (hex_encode P (public_of P a)) = Ok okm"
    using derive_shared_secret_hex [OF assms(1-3)] by blast
  obtain ct where "aes_encrypt P okm n pt = Inr ct" "aes_decrypt P okm n ct = Inr pt"
    using crypto_aead [OF assms(1,5)] by blast
  with k assms(4) show ?thesis
    by (intro exI [of _ ct]) (simp add: encrypt_def decrypt_def nonce_from_slice_def)
qed

text \<open>
  C14. A message encrypted from one key pair to another decrypts to itself, both at the receiver
  (who uses the sender's public key) and at the sender (whose client shows its own messages by
  decrypting them with the receiver's public key); encryption itself always succeeds on generated
  keys and plaintexts within the AES-GCM limit.
\<close>

theorem encrypt_decrypt_roundtrip:
  assumes "crypto_ok P" "valid_secret P a" "valid_secret P b"
    and "length n = 12" "length pt \<le> max_plaintext"
  shows "\<exists>ct. encrypt P n (private_key (generate_keypair P a)) (public_key (generate_keypair P b)) pt
                = Ok (ct, n) \<and>
              decrypt P (private_key (generate_keypair P b)) (public_key (generate_keypair P a)) ct n
                = Ok pt \<and>
              decrypt P (private_key (generate_keypair P a)) (public_key (generate_keypair P b)) ct n
                = Ok pt"
  using encrypt_decrypt [OF assms] by (simp add: generate_keypair_def)

theorem encrypt_decrypt_roundtrip_witness:
  "\<exists>ct. encrypt toy_crypto (replicate 12 7) (private_key (generate_keypair toy_crypto [1, 2]))
           (public_key (generate_keypair toy_crypto [3])) [104, 105] = Ok (ct, replicate 12 7) \<and>
        decrypt toy_crypto (private_key (generate_keypair toy_crypto [3]))
           (public_key (generate_keypair toy_crypto [1, 2])) ct (replicate 12 7) = Ok [104, 105] \<and>
        decrypt toy_crypto (private_key (generate_keypair toy_crypto [1, 2]))
           (public_key (generate_keypair toy_crypto [3])) ct (replicate 12 7) = Ok [104, 105]"
  by (rule encrypt_decrypt_roundtrip [OF toy_crypto_ok toy_valid toy_valid])
     (simp_all add: max_plaintext_def)

lemma sign_verify:
  assumes "crypto_ok P" "valid_secret P sk"
  shows "sign P (hex_encode P sk) m = Ok (ecdsa_sign P sk m) \<and>
         verify P (hex_encode P (public_of P sk)) m (ecdsa_sign P sk m)"
  using assms crypto_signature [OF assms, of m]
  by (simp add: sign_def verify_def crypto_hex crypto_verifying valid_secret_def)

text \<open>
  A signature made with a generated private key verifies under the matching public key, which
  is what lets a client prove to a node that an inbox is its own.
\<close>

theorem sign_verify_roundtrip:
  assumes "crypto_ok P" "valid_secret P sk"
  shows "\<exists>s. sign P (private_key (generate_keypair P sk)) m = Ok s \<and>
             verify P (public_key (generate_keypair P sk)) m s"
  using sign_verify [OF assms] by (simp add: generate_keypair_def)

theorem sign_verify_roundtrip_witness:
  "\<exists>s. sign toy_crypto (private_key (generate_keypair toy_crypto [9])) [1, 2, 3] = Ok s \<and>
       verify toy_crypto (public_key (generate_keypair toy_crypto [9])) [1, 2, 3] s"
  by (rule sign_verify_roundtrip [OF toy_crypto_ok toy_valid])

text \<open>
  \<open>decrypt\<close> returns an error for every failure but one: with two keys that parse, a nonce that is not
  12 bytes long makes it panic (in the browser, a trapped WebAssembly instance) instead of
  returning \<open>Err\<close>. The nonce comes from the network with the message.
\<close>

theorem decrypt_panics_iff:
  "decrypt P priv pub ct n = Panic \<longleftrightarrow>
     (\<exists>key. derive_shared_secret P priv pub = Ok key) \<and> length n \<noteq> 12"
proof -
  have "derive_shared_secret P priv pub \<noteq> Panic"
    by (simp add: derive_shared_secret_def and_then_Panic_iff)
  then show ?thesis
    by (cases "derive_shared_secret P priv pub") (auto simp: decrypt_def nonce_from_slice_def)
qed

end
