(* ===== verification/Wasm.thy ===== *)
theory Wasm
  imports Keys
begin

text \<open>
  \<open>webclient/src/lib.rs\<close>: the functions the browser client imports, thin wrappers of \<open>lib/src/keys.rs\<close>
  that take and return text. A Rust \<open>String\<close> that holds a message is its UTF-8 bytes; a JavaScript
  string crosses the boundary through \<open>js_to_utf8\<close>. \<open>String::from_utf8_lossy\<close> is written out: it
  copies valid sequences and replaces each maximal invalid subpart by U+FFFD.
\<close>

section \<open>UTF-8\<close>

definition js_to_utf8 :: "string \<Rightarrow> bytes" where
  "js_to_utf8 s = concat (map (\<lambda>c. let n = (of_char c :: nat)
     in if n < 128 then [of_nat n] else [of_nat (192 + n div 64), of_nat (128 + n mod 64)]) s)"

definition in_range :: "nat \<Rightarrow> nat \<Rightarrow> bytes \<Rightarrow> nat \<Rightarrow> bool" where
  "in_range lo hi bs i \<longleftrightarrow> i < length bs \<and> lo \<le> unat (bs ! i) \<and> unat (bs ! i) \<le> hi"

text \<open>
  The sequence at the head of a non-empty byte string: whether it is a valid encoding of one
  character, and how many bytes are consumed (at least one, even when it is not).
\<close>

definition utf8_step :: "bytes \<Rightarrow> bool \<times> nat" where
  "utf8_step bs =
     (let b = unat (bs ! 0);
          tail2 = in_range 128 191 bs 2; tail3 = in_range 128 191 bs 3;
          three = (\<lambda>lo hi. if \<not> in_range lo hi bs 1 then (False, 1)
                           else if \<not> tail2 then (False, 2) else (True, 3));
          four = (\<lambda>lo hi. if \<not> in_range lo hi bs 1 then (False, 1)
                          else if \<not> tail2 then (False, 2)
                          else if \<not> tail3 then (False, 3) else (True, 4))
      in if b < 128 then (True, 1)
         else if 194 \<le> b \<and> b \<le> 223 then
           (if in_range 128 191 bs 1 then (True, 2) else (False, 1))
         else if b = 224 then three 160 191
         else if (225 \<le> b \<and> b \<le> 236) \<or> b = 238 \<or> b = 239 then three 128 191
         else if b = 237 then three 128 159
         else if b = 240 then four 144 191
         else if 241 \<le> b \<and> b \<le> 243 then four 128 191
         else if b = 244 then four 128 143
         else (False, 1))"

lemma utf8_step_pos: "0 < snd (utf8_step bs)"
  by (simp add: utf8_step_def Let_def)

function from_utf8_lossy :: "bytes \<Rightarrow> bytes" where
  "from_utf8_lossy bs =
     (if bs = [] then []
      else (if fst (utf8_step bs) then take (snd (utf8_step bs)) bs else [239, 191, 189])
           @ from_utf8_lossy (drop (snd (utf8_step bs)) bs))"
  by pat_completeness auto
termination
  by (relation "measure length") (auto simp: utf8_step_pos)

declare from_utf8_lossy.simps [simp del]

lemma from_utf8_lossy_Nil [simp]: "from_utf8_lossy [] = []"
  by (simp add: from_utf8_lossy.simps)

lemma utf8_two_bytes:
  assumes "128 \<le> n" "n < 256"
  shows "utf8_step (of_nat (192 + n div 64) # of_nat (128 + n mod 64) # bs) = (True, 2)"
proof -
  have u: "unat (of_nat (192 + n div 64) :: 8 word) = 192 + n div 64"
      "unat (of_nat (128 + n mod 64) :: 8 word) = 128 + n mod 64"
    using assms by (simp_all add: unsigned_of_nat take_bit_nat_eq_self del: of_nat_add)
  have "2 \<le> n div 64" "n div 64 \<le> 3" "n mod 64 < 64" using assms by auto
  then show ?thesis
    by (simp add: utf8_step_def Let_def in_range_def u del: of_nat_add)
qed

lemma from_utf8_lossy_js: "from_utf8_lossy (js_to_utf8 s) = js_to_utf8 s"
proof (induction s)
  case (Cons c s)
  define n where "n = (of_char c :: nat)"
  have n: "n < 256" by (simp add: n_def)
  show ?case
  proof (cases "n < 128")
    case True
    then have cs: "js_to_utf8 (c # s) = of_nat n # js_to_utf8 s"
      by (simp add: js_to_utf8_def n_def Let_def)
    from True have "utf8_step (of_nat n # js_to_utf8 s) = (True, 1)"
      by (simp add: utf8_step_def unsigned_of_nat take_bit_nat_eq_self)
    then show ?thesis
      unfolding cs by (subst from_utf8_lossy.simps) (simp add: Cons.IH)
  next
    case False
    then have cs: "js_to_utf8 (c # s) = of_nat (192 + n div 64) # of_nat (128 + n mod 64) # js_to_utf8 s"
      by (simp add: js_to_utf8_def n_def Let_def)
    from False n have "utf8_step (of_nat (192 + n div 64) # of_nat (128 + n mod 64) # js_to_utf8 s) = (True, 2)"
      by (intro utf8_two_bytes) simp_all
    then show ?thesis
      unfolding cs by (subst from_utf8_lossy.simps) (simp add: Cons.IH numeral_2_eq_2)
  qed
qed (simp add: js_to_utf8_def)

section \<open>The exported functions\<close>

record js_keypair =
  js_private_key :: string
  js_public_key :: string

definition wasm_generate_keypair :: "crypto \<Rightarrow> bytes \<Rightarrow> js_keypair" where
  "wasm_generate_keypair P sk =
     (let keypair = generate_keypair P sk
      in \<lparr>js_private_key = private_key keypair, js_public_key = public_key keypair\<rparr>)"

record encrypted_message =
  em_ciphertext :: bytes
  em_nonce :: bytes

definition wasm_encrypt :: "crypto \<Rightarrow> bytes \<Rightarrow> string \<Rightarrow> string \<Rightarrow> string \<Rightarrow> encrypted_message outcome" where
  "wasm_encrypt P nonce_bytes my_private_key_hex their_public_key_hex plaintext =
     (case encrypt P nonce_bytes my_private_key_hex their_public_key_hex (js_to_utf8 plaintext) of
        Ok (ciphertext, nonce) \<Rightarrow> Ok \<lparr>em_ciphertext = ciphertext, em_nonce = nonce\<rparr>
      | Err e \<Rightarrow> Err e
      | Panic \<Rightarrow> Panic)"

definition wasm_decrypt :: "crypto \<Rightarrow> string \<Rightarrow> string \<Rightarrow> bytes \<Rightarrow> bytes \<Rightarrow> bytes outcome" where
  "wasm_decrypt P my_private_key_hex their_public_key_hex ciphertext nonce =
     (case decrypt P my_private_key_hex their_public_key_hex ciphertext nonce of
        Ok plaintext_bytes \<Rightarrow> Ok (from_utf8_lossy plaintext_bytes)
      | Err e \<Rightarrow> Err e
      | Panic \<Rightarrow> Panic)"

definition wasm_sign :: "crypto \<Rightarrow> string \<Rightarrow> bytes \<Rightarrow> bytes outcome" where
  "wasm_sign P private_key_hex message = sign P private_key_hex message"

section \<open>Properties\<close>

text \<open>
  The contract the client code rests on: sealing text for a peer succeeds, and both ends open the
  sealed bytes to the same text.
\<close>

locale sealed_text =
  fixes seal :: "'p \<Rightarrow> bytes \<Rightarrow> string \<Rightarrow> string \<Rightarrow> string \<Rightarrow> encrypted_message outcome"
    and unseal :: "'p \<Rightarrow> string \<Rightarrow> string \<Rightarrow> bytes \<Rightarrow> bytes \<Rightarrow> bytes outcome"
    and peers :: "'p \<Rightarrow> string \<Rightarrow> string \<Rightarrow> string \<Rightarrow> string \<Rightarrow> bool"
  assumes peers_sym: "peers P priv pub priv' pub' \<Longrightarrow> peers P priv' pub' priv pub"
    and seal_unseal:
      "peers P priv pub priv' pub' \<Longrightarrow> length n = 12 \<Longrightarrow> length (js_to_utf8 msg) \<le> max_plaintext \<Longrightarrow>
       \<exists>em. seal P n priv pub' msg = Ok em \<and> em_nonce em = n \<and>
            unseal P priv' pub (em_ciphertext em) n = Ok (js_to_utf8 msg) \<and>
            unseal P priv pub' (em_ciphertext em) n = Ok (js_to_utf8 msg)"
begin

lemma receiver_reads:
  assumes "peers P priv pub priv' pub'" "length n = 12" "length (js_to_utf8 msg) \<le> max_plaintext"
    and "seal P n priv pub' msg = Ok em"
  shows "unseal P priv' pub (em_ciphertext em) (em_nonce em) = Ok (js_to_utf8 msg)"
  using seal_unseal [OF assms(1-3)] assms(4) by auto

lemma sender_reads:
  assumes "peers P priv pub priv' pub'" "length n = 12" "length (js_to_utf8 msg) \<le> max_plaintext"
    and "seal P n priv pub' msg = Ok em"
  shows "unseal P priv pub' (em_ciphertext em) (em_nonce em) = Ok (js_to_utf8 msg)"
  using seal_unseal [OF assms(1-3)] assms(4) by auto

end

text \<open>Two generated key pairs, as the client stores them.\<close>

definition key_peers :: "crypto \<Rightarrow> string \<Rightarrow> string \<Rightarrow> string \<Rightarrow> string \<Rightarrow> bool" where
  "key_peers P priv pub priv' pub' \<longleftrightarrow>
     crypto_ok P \<and> (\<exists>a b. valid_secret P a \<and> valid_secret P b \<and>
       priv = hex_encode P a \<and> pub = hex_encode P (public_of P a) \<and>
       priv' = hex_encode P b \<and> pub' = hex_encode P (public_of P b))"

interpretation wasm: sealed_text wasm_encrypt wasm_decrypt key_peers
proof unfold_locales
  fix P priv pub priv' pub'
  assume "key_peers P priv pub priv' pub'"
  then show "key_peers P priv' pub' priv pub" by (auto simp: key_peers_def)
next
  fix P priv pub priv' pub' n msg
  assume "key_peers P priv pub priv' pub'" and n: "length (n :: bytes) = 12"
    and len: "length (js_to_utf8 msg) \<le> max_plaintext"
  then obtain a b where P: "crypto_ok P" "valid_secret P a" "valid_secret P b"
    and keys: "priv = hex_encode P a" "pub = hex_encode P (public_of P a)"
      "priv' = hex_encode P b" "pub' = hex_encode P (public_of P b)"
    by (auto simp: key_peers_def)
  from encrypt_decrypt [OF P n len]
  show "\<exists>em. wasm_encrypt P n priv pub' msg = Ok em \<and> em_nonce em = n \<and>
      wasm_decrypt P priv' pub (em_ciphertext em) n = Ok (js_to_utf8 msg) \<and>
      wasm_decrypt P priv pub' (em_ciphertext em) n = Ok (js_to_utf8 msg)"
    by (auto simp: keys wasm_encrypt_def wasm_decrypt_def from_utf8_lossy_js)
qed

end
