(* ===== verification/Client_State.thy ===== *)
theory Client_State
  imports Complex_Main Wasm
begin

text \<open>
  The state of the browser client (\<open>webclient/public/main.js\<close>): the object \<open>Alpine.data('app')\<close> returns,
  the values it holds, what a page load restores from \<open>localStorage\<close>, and the environment the
  component runs in (deployment constants, network, clock, random numbers).
\<close>

section \<open>Values\<close>

record app_keys =
  k_private_key :: string
  k_public_key :: string

record contact =
  c_id :: string
  c_name :: string
  c_publicKey :: string

text \<open>
  The bytes of a message are a \<open>Uint8Array\<close> while the page lives. \<open>$persist\<close> writes the state as
  JSON, where a \<open>Uint8Array\<close> becomes an object with its indices as keys: after a page load the
  bytes are such an object.
\<close>

datatype byte_data = U8 bytes | Indexed "(nat \<times> 8 word) list"

record message =
  m_id :: rat
  m_ciphertext :: byte_data
  m_nonce :: byte_data
  m_timestamp :: iso_string
  m_sender :: string
  m_from :: "string option"

record new_contact =
  nc_name :: string
  nc_publicKey :: string

text \<open>One row of the metrics history (the fields the chart reads), and a chart's contents.\<close>

record metric_row =
  mr_timestamp :: int
  mr_network_size_estimate :: rat
  mr_total_network_keys_estimate :: rat

record chart_data =
  ch_labels :: "int list"
  ch_node_count :: "rat list"
  ch_total_messages :: "rat list"

section \<open>The component\<close>

text \<open>
  Fields as in the code; \<open>metricsData\<close> is \<open>None\<close> until the first fetch defines it, \<open>metricsChart\<close>
  is \<open>None\<close> while it is undefined or null. The last four fields are what the component has done to the
  page: the messages of \<open>window.alert\<close>, the charts alive on the canvas, the number of charts ever
  created, the text on the clipboard.
\<close>

record app =
  keys :: app_keys
  contacts :: "contact list"
  messages :: "string \<rightharpoonup> message list"
  activeContactId :: "string option"
  node :: string
  settingsModalOpen :: bool
  addContactModalOpen :: bool
  metricsModalOpen :: bool
  showTermsModal :: bool
  termsAccepted :: bool
  search :: string
  newMessage :: string
  newContact :: new_contact
  isPolling :: bool
  metricsLoaded :: bool
  metricsData :: "metric_row list option"
  metricsChart :: "nat option"
  alerts :: "string list"
  live_charts :: "nat \<rightharpoonup> chart_data"
  charts_created :: nat
  clipboard :: string

text \<open>The constants the deployment substitutes into the script.\<close>

record config =
  bootstrapNode :: string
  apiProtocol :: string
  collectorUrl :: string

section \<open>Persistence\<close>

text \<open>What \<open>localStorage\<close> holds under the four names; \<open>None\<close> when the item does not exist.\<close>

record storage =
  tace_keys :: "app_keys option"
  tace_contacts :: "contact list option"
  tace_messages :: "(string \<rightharpoonup> message list) option"
  tace_terms_modal_open :: "bool option"

definition or_default :: "'a option \<Rightarrow> 'a \<Rightarrow> 'a" where
  "or_default x d = (case x of None \<Rightarrow> d | Some v \<Rightarrow> v)"

definition app_data :: "config \<Rightarrow> storage \<Rightarrow> app" where
  "app_data C st =
     \<lparr>keys = or_default (tace_keys st) \<lparr>k_private_key = [], k_public_key = []\<rparr>,
      contacts = or_default (tace_contacts st) [],
      messages = or_default (tace_messages st) Map.empty,
      activeContactId = None,
      node = bootstrapNode C,
      settingsModalOpen = False, addContactModalOpen = False, metricsModalOpen = False,
      showTermsModal = or_default (tace_terms_modal_open st) True,
      termsAccepted = False, search = [], newMessage = [],
      newContact = \<lparr>nc_name = [], nc_publicKey = []\<rparr>,
      isPolling = False, metricsLoaded = False,
      metricsData = None, metricsChart = None,
      alerts = [], live_charts = Map.empty, charts_created = 0, clipboard = []\<rparr>"

text \<open>JSON text and back: the only values the trip changes are the byte arrays.\<close>

fun json_bytes :: "byte_data \<Rightarrow> byte_data" where
  "json_bytes (U8 bs) = Indexed (enumerate 0 bs)"
| "json_bytes (Indexed kvs) = Indexed kvs"

definition json_message :: "message \<Rightarrow> message" where
  "json_message m = m\<lparr>m_ciphertext := json_bytes (m_ciphertext m), m_nonce := json_bytes (m_nonce m)\<rparr>"

definition json_messages :: "(string \<rightharpoonup> message list) \<Rightarrow> (string \<rightharpoonup> message list)" where
  "json_messages ms = (\<lambda>k. map_option (map json_message) (ms k))"

definition persist :: "app \<Rightarrow> storage" where
  "persist s =
     \<lparr>tace_keys = Some (keys s), tace_contacts = Some (contacts s),
      tace_messages = Some (json_messages (messages s)),
      tace_terms_modal_open = Some (showTermsModal s)\<rparr>"

definition reload :: "config \<Rightarrow> app \<Rightarrow> app" where
  "reload C s = app_data C (persist s)"

text \<open>
  \<open>Object.values\<close> lists the values in ascending order of the integer keys; \<open>as_uint8\<close> is the
  expression \<open>x instanceof Uint8Array ? x : new Uint8Array(Object.values(x))\<close>.
\<close>

definition object_values :: "(nat \<times> 8 word) list \<Rightarrow> bytes" where
  "object_values kvs = map snd (sort_key fst kvs)"

fun as_uint8 :: "byte_data \<Rightarrow> bytes" where
  "as_uint8 (U8 bs) = bs"
| "as_uint8 (Indexed kvs) = object_values kvs"

lemma as_uint8_json [simp]: "as_uint8 (json_bytes d) = as_uint8 d"
proof (cases d)
  case (U8 bs)
  have "sorted (map fst (enumerate 0 bs))" by (simp add: enumerate_eq_zip)
  then have "sort_key fst (enumerate 0 bs) = enumerate 0 bs" by (rule sort_key_id_if_sorted)
  with U8 show ?thesis by (simp add: object_values_def)
qed simp

section \<open>The network\<close>

text \<open>
  The JSON bodies the client posts. A request without options is a GET; the two POST requests carry
  a body.
\<close>

datatype payload =
    Message_payload (p_to: string) (p_from: string) (p_ciphertext: bytes) (p_nonce: bytes)
  | Poll_payload (p_public_key: string) (p_challenge: bytes) (p_signature: bytes)

datatype fetch_options = Get | Post payload

datatype request = Request (req_url: string) (req_options: fetch_options)

record poll_msg =
  pm_from :: string
  pm_ciphertext :: bytes
  pm_nonce :: bytes
  pm_timestamp :: int

text \<open>
  A response body is empty text, text that is not JSON, or JSON: null or an object, of which the
  client reads the four properties below (\<open>None\<close> when absent).
\<close>

record api_data =
  d_node :: "string option"
  d_nonce :: "string option"
  d_messages :: "poll_msg list option"
  d_error :: "string option"

definition empty_object :: api_data where
  "empty_object = \<lparr>d_node = None, d_nonce = None, d_messages = None, d_error = None\<rparr>"

datatype json = JNull | JObject api_data

datatype body = Empty_text | Bad_text | Json_text json

datatype fetch_result = Network_failure | Response (resp_status: nat) (resp_body: body)

datatype js_error =
    Error string
  | TypeError
  | SyntaxError
  | RangeError
  | FetchError
  | Thrown string
  | RuntimeError

text \<open>
  The network with everything else that runs while a handler awaits it: given the request, the
  component's state and the rest of the world, the result of the fetch, the state in which the handler
  resumes (other handlers may have run meanwhile) and the new world.
\<close>

type_synonym 'w net = "request \<Rightarrow> app \<Rightarrow> 'w \<Rightarrow> fetch_result \<times> app \<times> 'w"

text \<open>The wasm functions throw their error, or trap when the Rust code panics.\<close>

fun wasm_throws :: "'a outcome \<Rightarrow> js_error + 'a" where
  "wasm_throws (Ok a) = Inr a"
| "wasm_throws (Err e) = Inl (Thrown e)"
| "wasm_throws Panic = Inl RuntimeError"

lemma wasm_throws_Inr_iff [simp]: "wasm_throws r = Inr a \<longleftrightarrow> r = Ok a"
  by (cases r) auto

text \<open>\<open>this.messages[id]\<close>: the key null reads and writes the property \<open>null\<close>.\<close>

definition prop_key :: "string option \<Rightarrow> string" where
  "prop_key k = (case k of None \<Rightarrow> ''null'' | Some c \<Rightarrow> c)"

section \<open>A concrete deployment\<close>

text \<open>Used by the closed examples.\<close>

definition example_config :: config where
  "example_config = \<lparr>bootstrapNode = ''boot'', apiProtocol = ''https'', collectorUrl = ''https://c''\<rparr>"

definition empty_storage :: storage where
  "empty_storage = \<lparr>tace_keys = None, tace_contacts = None, tace_messages = None,
     tace_terms_modal_open = None\<rparr>"

definition fresh_app :: app where
  "fresh_app = app_data example_config empty_storage"

lemma fresh_app_simps [simp]:
  "keys fresh_app = \<lparr>k_private_key = [], k_public_key = []\<rparr>" "contacts fresh_app = []"
  "messages fresh_app = Map.empty" "activeContactId fresh_app = None" "node fresh_app = ''boot''"
  "showTermsModal fresh_app" "\<not> termsAccepted fresh_app" "newMessage fresh_app = []"
  "\<not> isPolling fresh_app" "metricsChart fresh_app = None" "live_charts fresh_app = Map.empty"
  "charts_created fresh_app = 0" "alerts fresh_app = []" "search fresh_app = []"
  "newContact fresh_app = \<lparr>nc_name = [], nc_publicKey = []\<rparr>" "metricsData fresh_app = None"
  "\<not> metricsModalOpen fresh_app" "\<not> metricsLoaded fresh_app"
  by (simp_all add: fresh_app_def app_data_def or_default_def empty_storage_def example_config_def)

section \<open>Reloading the page\<close>

lemma reload_simps [simp]:
  "keys (reload C s) = keys s" "contacts (reload C s) = contacts s"
  "messages (reload C s) = json_messages (messages s)"
  "showTermsModal (reload C s) = showTermsModal s"
  "activeContactId (reload C s) = None" "isPolling (reload C s) = False"
  "search (reload C s) = []" "node (reload C s) = bootstrapNode C"
  by (simp_all add: reload_def app_data_def persist_def or_default_def)

lemma json_message_simps [simp]:
  "m_id (json_message m) = m_id m" "m_timestamp (json_message m) = m_timestamp m"
  "m_sender (json_message m) = m_sender m" "m_from (json_message m) = m_from m"
  "as_uint8 (m_ciphertext (json_message m)) = as_uint8 (m_ciphertext m)"
  "as_uint8 (m_nonce (json_message m)) = as_uint8 (m_nonce m)"
  by (simp_all add: json_message_def)

lemma dom_json_messages [simp]: "dom (json_messages ms) = dom ms"
  by (auto simp: json_messages_def dom_def)

end
