(* ===== verification/Api_Request.thy ===== *)
theory Api_Request
  imports Client_State
begin

text \<open>
  Requests of the browser client to the nodes: \<open>getUrl\<close>, \<open>apiRequest\<close> with its retry through the
  bootstrap node, \<open>fetchNewNode\<close> and \<open>loadNodeUrl\<close>. The lemmas say how many requests are made and to
  which node, what comes back on each branch, and (for the handlers built on them) that a relation
  kept by everything that runs during an await is kept by the whole call.
\<close>

section \<open>The code\<close>

definition getUrl :: "config \<Rightarrow> app \<Rightarrow> string \<Rightarrow> string option \<Rightarrow> string" where
  "getUrl C s path nd =
     (let n = (case nd of None \<Rightarrow> node s | Some x \<Rightarrow> if x = [] then node s else x)
      in apiProtocol C @ ''://'' @ n @ path)"

text \<open>\<open>if (data && data.node) this.node = data.node\<close>\<close>

definition node_of :: "json \<Rightarrow> string option" where
  "node_of data =
     (case data of
        JNull \<Rightarrow> None
      | JObject d \<Rightarrow> (case d_node d of None \<Rightarrow> None | Some n \<Rightarrow> if n = [] then None else Some n))"

definition adopt_node :: "json \<Rightarrow> app \<Rightarrow> app" where
  "adopt_node data s = (case node_of data of None \<Rightarrow> s | Some n \<Rightarrow> s\<lparr>node := n\<rparr>)"

definition fetchNewNode :: "config \<Rightarrow> 'w net \<Rightarrow> app \<Rightarrow> 'w \<Rightarrow> app \<times> 'w" where
  "fetchNewNode C net s w =
     (let (r, s1, w1) = net (Request (getUrl C s ''/connect'' (Some (bootstrapNode C))) Get) s w
      in case r of
           Response _ (Json_text data) \<Rightarrow> (adopt_node data s1, w1)
         | _ \<Rightarrow> (s1, w1))"

text \<open>The body of the \<open>try\<close> block once \<open>fetch\<close> has settled: the parsed body, or what is thrown.\<close>

definition http_error :: "nat \<Rightarrow> js_error" where
  "http_error st = Error (''HTTP error! status: '' @ js_show_nat st)"

definition client_error :: "nat \<Rightarrow> body \<Rightarrow> js_error" where
  "client_error st b =
     (case b of
        Json_text JNull \<Rightarrow> TypeError
      | Json_text (JObject d) \<Rightarrow>
          (case d_error d of
             None \<Rightarrow> http_error st
           | Some e \<Rightarrow> if e = [] then http_error st else Error e)
      | _ \<Rightarrow> Error ''Request failed with client error.'')"

definition read_response :: "fetch_result \<Rightarrow> js_error + json" where
  "read_response r =
     (case r of
        Network_failure \<Rightarrow> Inl FetchError
      | Response st b \<Rightarrow>
          if \<not> (200 \<le> st \<and> st \<le> 299) then
            (if 400 \<le> st \<and> st < 500 then Inl (client_error st b) else Inl (http_error st))
          else
            (case b of
               Empty_text \<Rightarrow> Inr (JObject empty_object)
             | Bad_text \<Rightarrow> Inl SyntaxError
             | Json_text data \<Rightarrow> Inr data))"

fun apiRequest ::
  "config \<Rightarrow> 'w net \<Rightarrow> string \<Rightarrow> fetch_options \<Rightarrow> nat \<Rightarrow> app \<Rightarrow> 'w \<Rightarrow> (js_error + json) \<times> app \<times> 'w"
where
  "apiRequest C net path opts retries s w =
     (let (r, s1, w1) = net (Request (getUrl C s path None) opts) s w
      in case read_response r of
           Inr data \<Rightarrow> (Inr data, s1, w1)
         | Inl error \<Rightarrow>
             (case retries of
                Suc n \<Rightarrow> (let (s2, w2) = fetchNewNode C net s1 w1
                          in apiRequest C net path opts n s2 w2)
              | 0 \<Rightarrow> (Inl error, s1, w1)))"

declare apiRequest.simps [simp del]

definition loadNodeUrl :: "config \<Rightarrow> 'w net \<Rightarrow> app \<Rightarrow> 'w \<Rightarrow> app \<times> 'w" where
  "loadNodeUrl C net s w =
     (let (r, s1, w1) = apiRequest C net ''/connect'' Get 1 s w
      in case r of Inr data \<Rightarrow> (adopt_node data s1, w1) | Inl _ \<Rightarrow> (s1, w1))"

section \<open>Relations kept across awaits\<close>

text \<open>Everything that runs while the handler awaits a request moves the state along \<open>R\<close>.\<close>

definition net_rely :: "(app \<Rightarrow> app \<Rightarrow> bool) \<Rightarrow> 'w net \<Rightarrow> bool" where
  "net_rely R net \<longleftrightarrow> (\<forall>r s w. R s (fst (snd (net r s w))))"

lemma net_relyD: "net_rely R net \<Longrightarrow> net r s w = (x, s', w') \<Longrightarrow> R s s'"
  unfolding net_rely_def by (metis fst_conv snd_conv)

locale await_relation =
  fixes R :: "app \<Rightarrow> app \<Rightarrow> bool"
  assumes R_refl: "R s s"
    and R_trans: "R s t \<Longrightarrow> R t u \<Longrightarrow> R s u"
    and R_node: "R s (s\<lparr>node := n\<rparr>)"
begin

lemma adopt_node_R: "R s (adopt_node data s)"
  by (simp add: adopt_node_def R_refl R_node split: option.split)

lemma fetchNewNode_R: "net_rely R net \<Longrightarrow> R s (fst (fetchNewNode C net s w))"
  by (auto simp: fetchNewNode_def Let_def intro: R_trans adopt_node_R dest: net_relyD
      split: prod.splits fetch_result.splits body.splits)

lemma apiRequest_R:
  "net_rely R net \<Longrightarrow> apiRequest C net path opts n s w = (r, s', w') \<Longrightarrow> R s s'"
proof (induction n arbitrary: s w)
  case 0
  then show ?case
    by (auto simp: apiRequest.simps [of _ _ _ _ 0] Let_def dest: net_relyD split: prod.splits sum.splits)
next
  case (Suc n)
  obtain x s1 w1 where f: "net (Request (getUrl C s path None) opts) s w = (x, s1, w1)"
    by (cases "net (Request (getUrl C s path None) opts) s w") auto
  obtain s2 w2 where g: "fetchNewNode C net s1 w1 = (s2, w2)"
    by (cases "fetchNewNode C net s1 w1") auto
  from Suc.prems(1) f have "R s s1" by (rule net_relyD)
  moreover have "R s1 s2" using fetchNewNode_R [OF Suc.prems(1), of s1 C w1] g by simp
  moreover have "s' = s1 \<or> R s2 s'"
    using Suc.prems(2) Suc.IH [OF Suc.prems(1), of s2 w2] f g
    by (auto simp: apiRequest.simps [of _ _ _ _ "Suc n"] split: sum.splits)
  ultimately show ?case by (blast intro: R_trans)
qed

lemma loadNodeUrl_R: "net_rely R net \<Longrightarrow> R s (fst (loadNodeUrl C net s w))"
  by (auto simp: loadNodeUrl_def Let_def intro: R_trans adopt_node_R dest: apiRequest_R
      split: prod.splits sum.splits)

end

section \<open>The requests made\<close>

text \<open>The network with a log of the requests it was given.\<close>

definition logging :: "'w net \<Rightarrow> ('w \<times> request list) net" where
  "logging net r s wl = (let (x, s', w') = net r s (fst wl) in (x, s', (w', snd wl @ [r])))"

lemma fetchNewNode_log:
  "fetchNewNode C (logging net) s (w, l) = (s', w', l') \<Longrightarrow>
   l' = l @ [Request (getUrl C s ''/connect'' (Some (bootstrapNode C))) Get]"
  by (auto simp: fetchNewNode_def logging_def Let_def
      split: prod.splits fetch_result.splits body.splits)

lemma apiRequest_log:
  "apiRequest C (logging net) path opts n s (w, l) = (r, s', w', l') \<Longrightarrow>
   \<exists>k\<le>n. length l' = length l + 2 * k + 1 \<and> (k < n \<longrightarrow> (\<exists>data. r = Inr data))"
proof (induction n arbitrary: s w l)
  case 0
  then show ?case
    by (auto simp: apiRequest.simps [of _ _ _ _ 0] logging_def Let_def split: prod.splits sum.splits)
next
  case (Suc n)
  obtain x s1 w1 where f: "net (Request (getUrl C s path None) opts) s w = (x, s1, w1)"
    by (cases "net (Request (getUrl C s path None) opts) s w") auto
  let ?l1 = "l @ [Request (getUrl C s path None) opts]"
  obtain s2 w2 l2 where g: "fetchNewNode C (logging net) s1 (w1, ?l1) = (s2, w2, l2)"
    by (cases "fetchNewNode C (logging net) s1 (w1, ?l1)") auto
  show ?case
  proof (cases "read_response x")
    case (Inr data)
    with Suc.prems f have "r = Inr data" "l' = ?l1"
      by (simp_all add: apiRequest.simps [of _ _ _ _ "Suc n"] logging_def)
    then show ?thesis by (intro exI [of _ 0]) simp
  next
    case (Inl e)
    have "logging net (Request (getUrl C s path None) opts) s (w, l) = (x, s1, w1, ?l1)"
      by (simp add: logging_def f)
    with Inl Suc.prems g have "apiRequest C (logging net) path opts n s2 (w2, l2) = (r, s', w', l')"
      by (simp add: apiRequest.simps [of _ _ _ _ "Suc n"])
    from Suc.IH [OF this] obtain k where "k \<le> n" "length l' = length l2 + 2 * k + 1"
      "k < n \<longrightarrow> (\<exists>data. r = Inr data)" by blast
    moreover have "length l2 = length l + 2" using fetchNewNode_log [OF g] by simp
    ultimately show ?thesis by (intro exI [of _ "Suc k"]) auto
  qed
qed


definition dead_net :: "unit net" where
  "dead_net r s w = (Network_failure, s, w)"


section \<open>The node a retry goes to\<close>

lemma getUrl_node: "getUrl C (s\<lparr>node := n\<rparr>) path None = apiProtocol C @ ''://'' @ n @ path"
  by (simp add: getUrl_def)

text \<open>
  When the first attempt fails, for whatever reason, and the bootstrap node answers with the address of
  a node, the retry goes to that node, and the result of the call is the result there.
\<close>

theorem apiRequest_retries_at_new_node:
  assumes first: "net (Request (getUrl C s path None) opts) s w = (x, s1, w1)"
    and failed: "read_response x = Inl e"
    and boot: "net (Request (getUrl C s1 ''/connect'' (Some (bootstrapNode C))) Get) s1 w1
                 = (Response st (Json_text data), s2, w2)"
    and new: "node_of data = Some n"
    and second: "net (Request (apiProtocol C @ ''://'' @ n @ path) opts) (s2\<lparr>node := n\<rparr>) w2 = (y, s3, w3)"
  shows "apiRequest C net path opts 1 s w = (read_response y, s3, w3)"
proof -
  have "fetchNewNode C net s1 w1 = (s2\<lparr>node := n\<rparr>, w2)"
    by (simp add: fetchNewNode_def boot adopt_node_def new)
  with first failed second show ?thesis
    by (simp add: apiRequest.simps [of _ _ _ _ "Suc 0"] apiRequest.simps [of _ _ _ _ 0] getUrl_node
        split: sum.split)
qed

text \<open>A network whose bootstrap node names the live node \<open>n2\<close>, all others failing with 404.\<close>

definition two_node_net :: "unit net" where
  "two_node_net r s w =
     (if req_url r = ''https://boot/connect''
      then (Response 200 (Json_text (JObject (empty_object\<lparr>d_node := Some ''n2''\<rparr>))), s, w)
      else if req_url r = ''https://n2/poll''
      then (Response 200 (Json_text (JObject (empty_object\<lparr>d_nonce := Some ''ok''\<rparr>))), s, w)
      else (Response 404 (Json_text (JObject (empty_object\<lparr>d_error := Some ''Not Found''\<rparr>))), s, w))"

theorem apiRequest_retries_at_new_node_witness:
  "apiRequest example_config two_node_net ''/poll'' Get 1 (fresh_app\<lparr>node := ''n1''\<rparr>) () =
     (Inr (JObject (empty_object\<lparr>d_nonce := Some ''ok''\<rparr>)), fresh_app\<lparr>node := ''n2''\<rparr>, ())"
proof -
  let ?s = "fresh_app\<lparr>node := ''n1''\<rparr>"
  let ?bad = "Response 404 (Json_text (JObject (empty_object\<lparr>d_error := Some ''Not Found''\<rparr>)))"
  let ?good = "Response 200 (Json_text (JObject (empty_object\<lparr>d_nonce := Some ''ok''\<rparr>)))"
  let ?boot = "JObject (empty_object\<lparr>d_node := Some ''n2''\<rparr>)"
  have "apiRequest example_config two_node_net ''/poll'' Get 1 ?s () =
      (read_response ?good, ?s\<lparr>node := ''n2''\<rparr>, ())"
    by (rule apiRequest_retries_at_new_node
        [where x = ?bad and ?s1.0 = ?s and ?w1.0 = "()" and e = "Error ''Not Found''" and st = 200
           and data = ?boot and ?s2.0 = ?s and ?w2.0 = "()" and n = "''n2''"])
       (simp_all add: two_node_net_def getUrl_def example_config_def read_response_def client_error_def
         node_of_def)
  then show ?thesis by (simp add: read_response_def)
qed

text \<open>
  A 4xx response is retried like every other failure: the error it throws is caught by the same
  \<open>try\<close> block, so a retry (with its request to the bootstrap node) follows as long as retries are
  left, and the answer of the retry replaces the error.
\<close>

theorem apiRequest_4xx_retried:
  assumes "net (Request (getUrl C s path None) opts) s w = (Response st b, s1, w1)"
    and "400 \<le> st" "st < 500"
  shows "apiRequest C net path opts (Suc n) s w =
           (let (s2, w2) = fetchNewNode C net s1 w1 in apiRequest C net path opts n s2 w2)"
proof -
  have "read_response (Response st b) = Inl (client_error st b)"
    using assms(2,3) by (simp add: read_response_def)
  with assms(1) show ?thesis by (simp add: apiRequest.simps [of _ _ _ _ "Suc n"])
qed

theorem apiRequest_4xx_retried_witness:
  "apiRequest example_config two_node_net ''/message'' Get (Suc 0) (fresh_app\<lparr>node := ''n1''\<rparr>) () =
     (let (s2, w2) = fetchNewNode example_config two_node_net (fresh_app\<lparr>node := ''n1''\<rparr>) ()
      in apiRequest example_config two_node_net ''/message'' Get 0 s2 w2)"
  by (rule apiRequest_4xx_retried [where st = 404
        and b = "Json_text (JObject (empty_object\<lparr>d_error := Some ''Not Found''\<rparr>))"])
     (simp_all add: two_node_net_def getUrl_def example_config_def)

end
