(* ===== verification/Contacts.thy ===== *)
theory Contacts
  imports Api_Request "HOL-Library.Multiset"
begin

text \<open>
  The contact list of the browser client: adding, renaming and selecting contacts, the filtered and
  sorted list of the sidebar, and the "last message" label. \<open>Date.now()\<close>, the answer to
  \<open>window.prompt\<close> and the host's time zone and formats are arguments.
\<close>

section \<open>Selecting, adding, renaming\<close>

definition activeContact :: "app \<Rightarrow> contact option" where
  "activeContact s = List.find (\<lambda>c. Some (c_id c) = activeContactId s) (contacts s)"

definition selectContact :: "string \<Rightarrow> app \<Rightarrow> app" where
  "selectContact contactId s = s\<lparr>activeContactId := Some contactId\<rparr>"

text \<open>\<open>/^([0-9a-fA-F]{66}|[0-9a-fA-F]{130})$/\<close>\<close>

definition publicKeyRegex :: "string \<Rightarrow> bool" where
  "publicKeyRegex k \<longleftrightarrow> list_all is_hex k \<and> (length k = 66 \<or> length k = 130)"

definition invalid_contact_alert :: string where
  "invalid_contact_alert =
     ''Invalid contact details. Please provide a name and a valid public key.''"

definition addContact :: "int \<Rightarrow> app \<Rightarrow> app" where
  "addContact now s =
     (let name = js_trim (nc_name (newContact s));
          publicKey = js_trim (nc_publicKey (newContact s))
      in if name \<noteq> [] \<and> publicKey \<noteq> [] \<and> publicKeyRegex publicKey then
           s\<lparr>contacts := contacts s @
               [\<lparr>c_id = ''contact_'' @ js_show_int now, c_name = name, c_publicKey = publicKey\<rparr>],
             newContact := \<lparr>nc_name = [], nc_publicKey = []\<rparr>,
             addContactModalOpen := False\<rparr>
         else s\<lparr>alerts := alerts s @ [invalid_contact_alert]\<rparr>)"

text \<open>\<open>answer\<close> is what \<open>prompt\<close> returns: \<open>None\<close> (null) when the dialog is cancelled.\<close>

definition renameContact :: "string option \<Rightarrow> string \<Rightarrow> app \<Rightarrow> app" where
  "renameContact answer contactId s =
     (case List.find (\<lambda>c. c_id c = contactId) (contacts s) of
        None \<Rightarrow> s
      | Some contact \<Rightarrow>
          (case answer of
             None \<Rightarrow> s
           | Some newName \<Rightarrow>
               if newName \<noteq> [] \<and> js_trim newName \<noteq> [] then
                 s\<lparr>contacts := update_first (\<lambda>c. c_id c = contactId)
                     (\<lambda>c. c\<lparr>c_name := js_trim newName\<rparr>) (contacts s)\<rparr>
               else s))"

definition copyToClipboard :: "string \<Rightarrow> app \<Rightarrow> app" where
  "copyToClipboard value s = s\<lparr>clipboard := value\<rparr>"

section \<open>The sidebar\<close>

definition last_message :: "app \<Rightarrow> string \<Rightarrow> message option" where
  "last_message s cid =
     (case messages s cid of
        None \<Rightarrow> None
      | Some ms \<Rightarrow> if ms = [] then None else Some (last ms))"

definition last_time :: "app \<Rightarrow> contact \<Rightarrow> int" where
  "last_time s c =
     (case last_message s (c_id c) of None \<Rightarrow> 0 | Some m \<Rightarrow> iso_time (m_timestamp m))"

text \<open>The comparator is \<open>timeB - timeA\<close>; \<open>Array.prototype.sort\<close> is stable.\<close>

definition search_hits :: "app \<Rightarrow> contact list" where
  "search_hits s =
     (if search s \<noteq> []
      then filter (\<lambda>c. js_includes (js_toLowerCase (c_name c)) (js_toLowerCase (search s))) (contacts s)
      else contacts s)"

definition filteredContacts :: "app \<Rightarrow> contact list" where
  "filteredContacts s = sort_key (\<lambda>c. - last_time s c) (search_hits s)"

section \<open>The label of a conversation\<close>

text \<open>
  What the host provides to \<open>Date\<close>: the offset of local time at a time value, the way back from local
  time, and the locale's time and date formats.
\<close>

record host =
  local_offset :: "int \<Rightarrow> int"
  utc_of_local :: "int \<Rightarrow> int"
  toLocaleTimeString :: "int \<Rightarrow> string"
  toLocaleDateString :: "int \<Rightarrow> string"

definition ms_per_day :: int where
  "ms_per_day = 86400000"

text \<open>\<open>toDateString\<close> shows the local calendar day; two of them are equal when the days are.\<close>

definition local_day :: "host \<Rightarrow> int \<Rightarrow> int" where
  "local_day H t = (t + local_offset H t) div ms_per_day"

text \<open>\<open>d.setDate(d.getDate() - 1)\<close>: one day back in local time, same time of day.\<close>

definition day_before :: "host \<Rightarrow> int \<Rightarrow> int" where
  "day_before H t = utc_of_local H (t + local_offset H t - ms_per_day)"

definition getLastMessageTime :: "host \<Rightarrow> int \<Rightarrow> string \<Rightarrow> app \<Rightarrow> string" where
  "getLastMessageTime H now contactId s =
     (case last_message s contactId of
        None \<Rightarrow> ''No messages yet...''
      | Some lastMsg \<Rightarrow>
          (let msgDate = iso_time (m_timestamp lastMsg)
           in if local_day H msgDate = local_day H now then toLocaleTimeString H msgDate
              else if local_day H msgDate = local_day H (day_before H now) then ''Yesterday''
              else toLocaleDateString H msgDate))"

section \<open>Trimming\<close>

lemma dropWhile_id_iff: "dropWhile P xs = xs \<longleftrightarrow> xs = [] \<or> \<not> P (hd xs)"
proof (cases xs)
  case (Cons x ys)
  then show ?thesis
    using length_dropWhile_le [of P ys] by (auto dest: arg_cong [where f = length])
qed simp

lemma dropWhile_both_ends:
  assumes "dropWhile P ys = ys"
  shows "dropWhile P (rev (dropWhile P (rev ys))) = rev (dropWhile P (rev ys))"
proof (cases "rev (dropWhile P (rev ys))")
  case Nil
  then have "dropWhile P (rev ys) = []" by (metis rev_is_Nil_conv)
  then show ?thesis by (metis dropWhile.simps(1) rev.simps(1))
next
  case (Cons a list)
  have "dropWhile P (rev ys) = rev (a # list)" using Cons by simp
  moreover obtain zs where "rev ys = zs @ dropWhile P (rev ys)" by (metis takeWhile_dropWhile_id)
  ultimately have "ys = (a # list) @ rev zs" by (metis rev_append rev_rev_ident)
  with assms have "\<not> P a" by (metis append_Cons dropWhile_id_iff list.distinct(1) list.sel(1))
  with Cons show ?thesis by simp
qed

lemma js_trim_idem [simp]: "js_trim (js_trim s) = js_trim s"
  by (simp add: js_trim_def dropWhile_both_ends)

section \<open>Well-formed contacts\<close>

text \<open>Every name shown is non-empty and carries no white space at its ends.\<close>

definition contact_ok :: "contact \<Rightarrow> bool" where
  "contact_ok c \<longleftrightarrow> c_name c \<noteq> [] \<and> js_trim (c_name c) = c_name c"

definition contacts_ok :: "app \<Rightarrow> bool" where
  "contacts_ok s \<longleftrightarrow> list_all contact_ok (contacts s)"

lemma update_first_all:
  "list_all Q xs \<Longrightarrow> (\<And>x. Q (f x)) \<Longrightarrow> list_all Q (update_first P f xs)"
  by (induction xs) auto

lemma addContact_ok [keeps]: "contacts_ok s \<Longrightarrow> contacts_ok (addContact now s)"
  by (simp add: addContact_def contacts_ok_def contact_ok_def Let_def)

lemma renameContact_ok [keeps]: "contacts_ok s \<Longrightarrow> contacts_ok (renameContact answer i s)"
  by (auto simp: renameContact_def contacts_ok_def contact_ok_def split: option.split
      intro!: update_first_all)

section \<open>Properties\<close>

text \<open>
  \<open>addContact\<close> appends exactly one contact when the trimmed name is non-empty and the trimmed key is 66
  or 130 hexadecimal digits, and clears and closes the form; otherwise it changes nothing but
  raises an alert. In both cases the contacts there before stay, in their order, and the names stay
  well formed.
\<close>

theorem addContact_spec:
  assumes "contacts_ok s"
  shows "let name = js_trim (nc_name (newContact s)); pk = js_trim (nc_publicKey (newContact s));
             s' = addContact now s
         in contacts_ok s' \<and>
            (if name \<noteq> [] \<and> (length pk = 66 \<or> length pk = 130) \<and> (\<forall>c\<in>set pk. is_hex c)
             then contacts s' = contacts s @ [\<lparr>c_id = ''contact_'' @ js_show_int now, c_name = name,
                                              c_publicKey = pk\<rparr>] \<and>
                  \<not> addContactModalOpen s' \<and> newContact s' = \<lparr>nc_name = [], nc_publicKey = []\<rparr> \<and>
                  alerts s' = alerts s
             else s' = s\<lparr>alerts := alerts s @ [invalid_contact_alert]\<rparr>)"
  using addContact_ok [OF assms, of now]
  by (auto simp: addContact_def publicKeyRegex_def Let_def list_all_iff)

theorem addContact_spec_witness:
  "contacts_ok fresh_app \<and>
   addContact 5 (fresh_app\<lparr>newContact := \<lparr>nc_name = '' Bob '', nc_publicKey = ''04xy''\<rparr>\<rparr>) =
     fresh_app\<lparr>newContact := \<lparr>nc_name = '' Bob '', nc_publicKey = ''04xy''\<rparr>,
               alerts := [invalid_contact_alert]\<rparr>"
proof -
  let ?s = "fresh_app\<lparr>newContact := \<lparr>nc_name = '' Bob '', nc_publicKey = ''04xy''\<rparr>\<rparr>"
  have "contacts_ok ?s" by (simp add: contacts_ok_def)
  moreover have "length (js_trim ''04xy'') = 4"
    by (simp add: js_trim_def js_space_def)
  ultimately show ?thesis
    using addContact_spec [of ?s 5] by (simp add: Let_def contacts_ok_def)
qed

text \<open>
  The sidebar lists exactly the contacts whose name contains the search text (ignoring case), each
  as often as it is stored, with the most recent conversations first; contacts with equally recent
  conversations keep their stored order.
\<close>

theorem filteredContacts_spec:
  "mset (filteredContacts s) =
     mset (filter (\<lambda>c. sublist (js_toLowerCase (search s)) (js_toLowerCase (c_name c))) (contacts s)) \<and>
   sorted_wrt (\<lambda>a b. last_time s b \<le> last_time s a) (filteredContacts s) \<and>
   filter (\<lambda>c. last_time s c = t) (filteredContacts s) =
     filter (\<lambda>c. last_time s c = t) (search_hits s)"
proof (intro conjI)
  have "search_hits s =
      filter (\<lambda>c. sublist (js_toLowerCase (search s)) (js_toLowerCase (c_name c))) (contacts s)"
    by (simp add: search_hits_def js_includes_sublist js_toLowerCase_def)
  then show "mset (filteredContacts s) =
     mset (filter (\<lambda>c. sublist (js_toLowerCase (search s)) (js_toLowerCase (c_name c))) (contacts s))"
    by (simp add: filteredContacts_def)
next
  have "sorted (map (\<lambda>c. - last_time s c) (filteredContacts s))"
    by (simp add: filteredContacts_def)
  then show "sorted_wrt (\<lambda>a b. last_time s b \<le> last_time s a) (filteredContacts s)"
    by (simp add: sorted_wrt_map)
next
  have "filter (\<lambda>c. - last_time s c = - t) (filteredContacts s) =
        filter (\<lambda>c. - last_time s c = - t) (search_hits s)"
    unfolding filteredContacts_def by (rule sort_key_stable)
  then show "filter (\<lambda>c. last_time s c = t) (filteredContacts s) =
     filter (\<lambda>c. last_time s c = t) (search_hits s)" by simp
qed

text \<open>
  What the label relies on: going back from local time lands on the local day asked for (no time-zone
  transition moves it to a neighbouring day).
\<close>

definition host_ok :: "host \<Rightarrow> bool" where
  "host_ok H \<longleftrightarrow> (\<forall>t. local_day H (utc_of_local H t) = t div ms_per_day)"

lemma local_day_before: "host_ok H \<Longrightarrow> local_day H (day_before H now) = local_day H now - 1"
  by (simp add: host_ok_def day_before_def local_day_def ms_per_day_def)

text \<open>
  The label of a conversation depends only on how many local calendar days lie between its last message and
  now: the time for today, "Yesterday" for exactly one day, the date otherwise; a conversation
  without messages has the placeholder.
\<close>

theorem getLastMessageTime_by_day:
  assumes "host_ok H"
  shows "getLastMessageTime H now cid s =
    (case last_message s cid of
       None \<Rightarrow> ''No messages yet...''
     | Some m \<Rightarrow>
         (let d = local_day H now - local_day H (iso_time (m_timestamp m))
          in if d = 0 then toLocaleTimeString H (iso_time (m_timestamp m))
             else if d = 1 then ''Yesterday''
             else toLocaleDateString H (iso_time (m_timestamp m))))"
  using local_day_before [OF assms, of now]
  by (auto simp: getLastMessageTime_def Let_def split: option.split)

definition utc_host :: host where
  "utc_host = \<lparr>local_offset = (\<lambda>_. 3600000), utc_of_local = (\<lambda>t. t - 3600000),
     toLocaleTimeString = (\<lambda>_. ''time''), toLocaleDateString = (\<lambda>_. ''date'')\<rparr>"

theorem getLastMessageTime_by_day_witness:
  "host_ok utc_host \<and>
   getLastMessageTime utc_host 90000000 ''a''
     (fresh_app\<lparr>messages := [''a'' \<mapsto> [\<lparr>m_id = 1, m_ciphertext = U8 [], m_nonce = U8 [],
        m_timestamp = ISO 80000000, m_sender = ''me'', m_from = None\<rparr>]]\<rparr>) = ''Yesterday''"
proof -
  have h: "host_ok utc_host" by (simp add: host_ok_def local_day_def utc_host_def)
  show ?thesis
    using h getLastMessageTime_by_day [OF h]
    by (simp add: last_message_def local_day_def ms_per_day_def utc_host_def Let_def)
qed

end
