(* ===== verification/Evolution.thy ===== *)
theory Evolution
  imports Contacts
begin

text \<open>
  What every handler of the browser client promises, whatever else runs while it awaits the network:
  the well-formedness invariant \<open>client_inv\<close> of the component's state and the relation \<open>evolves\<close>
  (nothing stored is lost). \<open>good\<close> is "the invariant is kept and the state evolves"; a handler is
  proved to move along \<open>good\<close> under the assumption that everything interleaved with it does.
\<close>

section \<open>Nothing is lost\<close>

definition contact_key :: "contact \<Rightarrow> string \<times> string" where
  "contact_key c = (c_id c, c_publicKey c)"

definition has_keys :: "app \<Rightarrow> bool" where
  "has_keys s \<longleftrightarrow> k_private_key (keys s) \<noteq> [] \<and> k_public_key (keys s) \<noteq> []"

definition evolves :: "app \<Rightarrow> app \<Rightarrow> bool" where
  "evolves s s' \<longleftrightarrow>
     prefix (map contact_key (contacts s)) (map contact_key (contacts s')) \<and>
     (\<forall>k ms. messages s k = Some ms \<longrightarrow> (\<exists>ms'. messages s' k = Some ms' \<and> prefix ms ms')) \<and>
     (has_keys s \<longrightarrow> keys s' = keys s) \<and>
     (activeContactId s \<noteq> None \<longrightarrow> activeContactId s' \<noteq> None) \<and>
     (\<not> showTermsModal s \<longrightarrow> \<not> showTermsModal s')"

lemma evolves_contacts:
  "evolves s s' \<Longrightarrow> prefix (map contact_key (contacts s)) (map contact_key (contacts s'))"
  by (simp add: evolves_def)

lemma evolves_messages:
  "evolves s s' \<Longrightarrow> messages s k = Some ms \<Longrightarrow> \<exists>ms'. messages s' k = Some ms' \<and> prefix ms ms'"
  by (simp add: evolves_def)

lemma evolves_refl: "evolves s s"
  by (simp add: evolves_def)

lemma evolves_trans:
  assumes "evolves s t" "evolves t u"
  shows "evolves s u"
  unfolding evolves_def
proof (intro conjI allI impI)
  show "prefix (map contact_key (contacts s)) (map contact_key (contacts u))"
    using assms unfolding evolves_def by (blast intro: prefix_order.trans)
  show "\<exists>ms'. messages u k = Some ms' \<and> prefix ms ms'" if "messages s k = Some ms" for k ms
  proof -
    from that assms(1) obtain ns where "messages t k = Some ns" "prefix ms ns"
      unfolding evolves_def by blast
    moreover from this(1) assms(2) obtain ns' where "messages u k = Some ns'" "prefix ns ns'"
      unfolding evolves_def by blast
    ultimately show ?thesis by (blast intro: prefix_order.trans)
  qed
qed (use assms in \<open>auto simp: evolves_def has_keys_def\<close>)

section \<open>Well-formedness\<close>

text \<open>
  Conversations belong to contacts; the selected contact exists; a received message lies in the
  conversation of the contact whose key it names; no conversation holds two received messages with
  the same timestamp.
\<close>

definition contact_ids :: "app \<Rightarrow> string set" where
  "contact_ids s = c_id ` set (contacts s)"

definition received :: "message list \<Rightarrow> message list" where
  "received = filter (\<lambda>m. m_sender m = ''them'')"

definition filed_ok :: "app \<Rightarrow> bool" where
  "filed_ok s \<longleftrightarrow> (\<forall>k ms m. messages s k = Some ms \<longrightarrow> m \<in> set (received ms) \<longrightarrow>
     (\<exists>c\<in>set (contacts s). c_id c = k \<and> m_from m = Some (c_publicKey c)))"

definition client_inv :: "app \<Rightarrow> bool" where
  "client_inv s \<longleftrightarrow>
     contacts_ok s \<and>
     dom (messages s) \<subseteq> contact_ids s \<and>
     (\<forall>i. activeContactId s = Some i \<longrightarrow> i \<in> contact_ids s) \<and>
     filed_ok s \<and>
     (\<forall>k ms. messages s k = Some ms \<longrightarrow> distinct (map m_timestamp (received ms)))"

definition good :: "app \<Rightarrow> app \<Rightarrow> bool" where
  "good s s' \<longleftrightarrow> (client_inv s \<longrightarrow> client_inv s' \<and> evolves s s')"

lemma goodD: "good s s' \<Longrightarrow> client_inv s \<Longrightarrow> client_inv s' \<and> evolves s s'"
  by (simp add: good_def)

lemma good_refl [simp, intro]: "good s s"
  by (simp add: good_def evolves_refl)

lemma good_trans: "good s t \<Longrightarrow> good t u \<Longrightarrow> good s u"
  unfolding good_def using evolves_trans by blast

text \<open>Updates of fields that neither the invariant nor the relation reads.\<close>

definition same_core :: "app \<Rightarrow> app \<Rightarrow> bool" where
  "same_core s s' \<longleftrightarrow> keys s' = keys s \<and> contacts s' = contacts s \<and> messages s' = messages s \<and>
     activeContactId s' = activeContactId s \<and> (\<not> showTermsModal s \<longrightarrow> \<not> showTermsModal s')"

lemma same_core_good: "same_core s s' \<Longrightarrow> good s s'"
  by (auto simp: same_core_def good_def evolves_def client_inv_def contacts_ok_def contact_ids_def
      filed_ok_def)

lemma same_core_node [simp]: "same_core s (s\<lparr>node := n\<rparr>)"
  by (simp add: same_core_def)

interpretation good_await: await_relation good
  by unfold_locales (auto intro: good_trans same_core_good)

section \<open>Appending to a conversation\<close>

definition push_message :: "string \<Rightarrow> message \<Rightarrow> app \<Rightarrow> app" where
  "push_message k m s =
     s\<lparr>messages := (messages s)(k \<mapsto> (case messages s k of None \<Rightarrow> [] | Some ms \<Rightarrow> ms) @ [m])\<rparr>"

lemma push_message_simps [simp]:
  "contacts (push_message k m s) = contacts s" "keys (push_message k m s) = keys s"
  "activeContactId (push_message k m s) = activeContactId s"
  "showTermsModal (push_message k m s) = showTermsModal s"
  "newMessage (push_message k m s) = newMessage s" "alerts (push_message k m s) = alerts s"
  by (simp_all add: push_message_def)

lemma push_message_evolves: "evolves s (push_message k m s)"
  by (auto simp: evolves_def has_keys_def push_message_def split: option.split)

text \<open>
  Appending keeps the invariant when the conversation is a contact's and, for a received message, the
  key is that contact's and the timestamp is new.
\<close>

lemma push_message_good:
  assumes "k \<in> contact_ids s"
    and "m_sender m = ''them'' \<Longrightarrow>
      (\<exists>c\<in>set (contacts s). c_id c = k \<and> m_from m = Some (c_publicKey c)) \<and>
      (\<forall>ms m'. messages s k = Some ms \<longrightarrow> m' \<in> set (received ms) \<longrightarrow> m_timestamp m' \<noteq> m_timestamp m)"
  shows "good s (push_message k m s)"
proof -
  have "client_inv (push_message k m s)" if inv: "client_inv s"
    unfolding client_inv_def
  proof (intro conjI)
    show "contacts_ok (push_message k m s)"
      using inv by (simp add: client_inv_def contacts_ok_def)
    show "dom (messages (push_message k m s)) \<subseteq> contact_ids (push_message k m s)"
      using inv assms(1) by (auto simp: client_inv_def contact_ids_def push_message_def)
    show "\<forall>i. activeContactId (push_message k m s) = Some i \<longrightarrow> i \<in> contact_ids (push_message k m s)"
      using inv by (simp add: client_inv_def contact_ids_def)
    show "filed_ok (push_message k m s)"
      unfolding filed_ok_def
    proof (intro allI impI)
      fix k' ms' m'
      assume "messages (push_message k m s) k' = Some ms'" "m' \<in> set (received ms')"
      then have "m' = m \<and> k' = k \<and> m_sender m = ''them'' \<or>
          (\<exists>ms. messages s k' = Some ms \<and> m' \<in> set (received ms))"
        by (auto simp: push_message_def received_def split: if_splits option.splits)
      then show "\<exists>c\<in>set (contacts (push_message k m s)). c_id c = k' \<and> m_from m' = Some (c_publicKey c)"
        using inv assms(2) unfolding client_inv_def filed_ok_def by auto
    qed
    show "\<forall>k' ms. messages (push_message k m s) k' = Some ms \<longrightarrow>
        distinct (map m_timestamp (received ms))"
      using inv assms(2)
      by (auto simp: client_inv_def push_message_def received_def image_iff
          split: if_splits option.splits)
  qed
  then show ?thesis by (simp add: good_def push_message_evolves)
qed

section \<open>Appending a contact\<close>

definition push_contact :: "contact \<Rightarrow> app \<Rightarrow> app" where
  "push_contact c s = s\<lparr>contacts := contacts s @ [c]\<rparr>"

lemma push_contact_simps [simp]:
  "contacts (push_contact c s) = contacts s @ [c]" "keys (push_contact c s) = keys s"
  "messages (push_contact c s) = messages s"
  "activeContactId (push_contact c s) = activeContactId s"
  "showTermsModal (push_contact c s) = showTermsModal s"
  by (simp_all add: push_contact_def)

lemma push_contact_good: "contact_ok c \<Longrightarrow> good s (push_contact c s)"
  by (auto simp: good_def evolves_def client_inv_def contacts_ok_def contact_ids_def filed_ok_def
      has_keys_def)

section \<open>The contact handlers\<close>

lemma selectContact_good: "i \<in> contact_ids s \<Longrightarrow> good s (selectContact i s)"
  by (auto simp: good_def evolves_def client_inv_def contacts_ok_def contact_ids_def filed_ok_def
      has_keys_def selectContact_def)

lemma addContact_good: "good s (addContact now s)"
proof -
  let ?name = "js_trim (nc_name (newContact s))" and ?pk = "js_trim (nc_publicKey (newContact s))"
  let ?c = "\<lparr>c_id = ''contact_'' @ js_show_int now, c_name = ?name, c_publicKey = ?pk\<rparr>"
  show ?thesis
  proof (cases "?name \<noteq> [] \<and> ?pk \<noteq> [] \<and> publicKeyRegex ?pk")
    case True
    then have "contact_ok ?c" by (simp add: contact_ok_def)
    then have "good s (push_contact ?c s)" by (rule push_contact_good)
    moreover have "same_core (push_contact ?c s) (addContact now s)"
      using True by (simp add: addContact_def same_core_def push_contact_def Let_def)
    ultimately show ?thesis by (blast intro: good_trans same_core_good)
  next
    case False
    then show ?thesis
      by (intro same_core_good) (auto simp: addContact_def same_core_def Let_def)
  qed
qed

lemma renameContact_good: "good s (renameContact answer i s)"
proof -
  have k: "map contact_key (contacts (renameContact answer i s)) = map contact_key (contacts s)"
    by (auto simp: renameContact_def contact_key_def split: option.split intro!: map_update_first)
  have same: "messages (renameContact answer i s) = messages s" "keys (renameContact answer i s) = keys s"
    "activeContactId (renameContact answer i s) = activeContactId s"
    "showTermsModal (renameContact answer i s) = showTermsModal s"
    by (auto simp: renameContact_def split: option.split)
  have ks: "contact_key ` set (contacts (renameContact answer i s)) = contact_key ` set (contacts s)"
    using arg_cong [OF k, of set] by simp
  have ids: "contact_ids (renameContact answer i s) = contact_ids s"
    using arg_cong [OF ks, of "image fst"] by (simp add: contact_ids_def image_image contact_key_def)
  have "filed_ok (renameContact answer i s)" if "filed_ok s"
    unfolding filed_ok_def same
  proof (intro allI impI)
    fix k ms m
    assume "messages s k = Some ms" "m \<in> set (received ms)"
    with that obtain c where "c \<in> set (contacts s)" "c_id c = k" "m_from m = Some (c_publicKey c)"
      unfolding filed_ok_def by blast
    moreover from this ks obtain c' where "c' \<in> set (contacts (renameContact answer i s))"
      "contact_key c' = contact_key c" by (metis (no_types, lifting) imageE imageI)
    ultimately show "\<exists>c\<in>set (contacts (renameContact answer i s)). c_id c = k \<and> m_from m = Some (c_publicKey c)"
      by (auto simp: contact_key_def)
  qed
  then show ?thesis
    using renameContact_ok [of s answer i]
    by (auto simp: good_def evolves_def client_inv_def same k ids has_keys_def)
qed

end
