(* ===== verification/Messaging.thy ===== *)
theory Messaging
  imports Evolution
begin

text \<open>
  Sending and showing messages in the browser client: \<open>sendMessage\<close> with its await, and
  \<open>decryptMessage\<close>, which the page calls for every message of the open conversation. The lemmas
  follow a message from the input field to the screens of both ends, over a page reload, and say what
  happens when the user opens another conversation while the request is in flight.
\<close>

section \<open>The contract of a handler that awaits\<close>

text \<open>
  A handler runs against the network (and whatever is interleaved with it) and ends in a state; it keeps \<open>good\<close> if
  everything interleaved does.
\<close>

locale async_handler =
  fixes run :: "'w net \<Rightarrow> app \<Rightarrow> 'w \<Rightarrow> app \<times> 'w"
  assumes keeps_good: "net_rely good net \<Longrightarrow> good s (fst (run net s w))"
begin

fun run_times :: "'w net \<Rightarrow> nat \<Rightarrow> app \<Rightarrow> 'w \<Rightarrow> app \<times> 'w" where
  "run_times net 0 s w = (s, w)"
| "run_times net (Suc n) s w = (let (s1, w1) = run net s w in run_times net n s1 w1)"

lemma run_times_good: "net_rely good net \<Longrightarrow> good s (fst (run_times net n s w))"
proof (induction n arbitrary: s w)
  case (Suc n)
  obtain s1 w1 where r: "run net s w = (s1, w1)" by (cases "run net s w") auto
  have "good s s1" using keeps_good [OF Suc.prems, of s w] r by simp
  moreover have "good s1 (fst (run_times net n s1 w1))" by (rule Suc.IH [OF Suc.prems])
  ultimately show ?case using r by (auto intro: good_trans)
qed simp

lemma message_stays:
  assumes "net_rely good net" "client_inv s" "messages s k = Some ms" "m \<in> set ms"
  shows "\<exists>ms'. messages (fst (run net s w)) k = Some ms' \<and> m \<in> set ms'"
  using goodD [OF keeps_good [OF assms(1)] assms(2), of w] assms(3,4)
  unfolding evolves_def by (meson set_mono_prefix subsetD)

end

section \<open>The code\<close>

text \<open>What a call of \<open>sendMessage\<close> draws from its environment: a nonce, a message id, a date.\<close>

record send_env =
  e_nonce :: bytes
  e_now :: int
  e_date :: int

definition send_alert :: string where
  "send_alert = ''Failed to send message. The node might be offline.''"

definition alert :: "string \<Rightarrow> app \<Rightarrow> app" where
  "alert t s = s\<lparr>alerts := alerts s @ [t]\<rparr>"

definition sent_message :: "send_env \<Rightarrow> encrypted_message \<Rightarrow> message" where
  "sent_message env em =
     \<lparr>m_id = of_int (e_now env), m_ciphertext = U8 (em_ciphertext em), m_nonce = U8 (em_nonce em),
      m_timestamp = ISO (e_date env), m_sender = ''me'', m_from = None\<rparr>"

definition sendMessage :: "crypto \<Rightarrow> config \<Rightarrow> send_env \<Rightarrow> 'w net \<Rightarrow> app \<Rightarrow> 'w \<Rightarrow> app \<times> 'w" where
  "sendMessage P C env net s w =
     (if js_trim (newMessage s) = [] \<or> activeContactId s = None \<or> activeContactId s = Some [] then (s, w)
      else
        (case activeContact s of
           None \<Rightarrow> (alert send_alert s, w)
         | Some c \<Rightarrow>
             (case wasm_throws (wasm_encrypt P (e_nonce env) (k_private_key (keys s)) (c_publicKey c)
                     (newMessage s)) of
                Inl _ \<Rightarrow> (alert send_alert s, w)
              | Inr em \<Rightarrow>
                  (let (r, s1, w1) = apiRequest C net ''/message''
                         (Post (Message_payload (c_publicKey c) (k_public_key (keys s))
                            (em_ciphertext em) (em_nonce em))) 1 s w
                   in case r of
                        Inl _ \<Rightarrow> (alert send_alert s1, w1)
                      | Inr _ \<Rightarrow>
                          ((push_message (prop_key (activeContactId s1)) (sent_message env em) s1)
                             \<lparr>newMessage := []\<rparr>, w1)))))"

definition decryptMessage :: "crypto \<Rightarrow> app \<Rightarrow> message \<Rightarrow> bytes" where
  "decryptMessage P s msg =
     (case List.find (\<lambda>c. Some (c_publicKey c) = m_from msg \<or>
             (activeContact s \<noteq> None \<and> Some (c_id c) = activeContactId s)) (contacts s) of
        None \<Rightarrow> js_to_utf8 ''[Decryption Error: Contact not found]''
      | Some contact \<Rightarrow>
          (case wasm_throws (wasm_decrypt P (k_private_key (keys s)) (c_publicKey contact)
                  (as_uint8 (m_ciphertext msg)) (as_uint8 (m_nonce msg))) of
             Inl _ \<Rightarrow> js_to_utf8 ''[Could not decrypt message]''
           | Inr t \<Rightarrow> t))"

section \<open>The guarantee\<close>

lemma alert_good: "good s (alert t s)"
  by (rule same_core_good) (simp add: same_core_def alert_def)

lemma activeContactId_null_or_id:
  "client_inv s \<Longrightarrow> activeContactId s \<noteq> None \<Longrightarrow> prop_key (activeContactId s) \<in> contact_ids s"
  by (auto simp: client_inv_def prop_key_def)

lemma push_sent_good:
  assumes "good s s1" "activeContactId s \<noteq> None"
  shows "good s ((push_message (prop_key (activeContactId s1)) (sent_message env em) s1)\<lparr>newMessage := []\<rparr>)"
proof -
  let ?s2 = "push_message (prop_key (activeContactId s1)) (sent_message env em) s1"
  have "good s ?s2"
  proof (cases "client_inv s")
    case True
    with assms have "client_inv s1" "activeContactId s1 \<noteq> None"
      by (auto simp: good_def evolves_def)
    then have "good s1 ?s2"
      by (intro push_message_good activeContactId_null_or_id) (simp_all add: sent_message_def)
    with assms(1) show ?thesis by (rule good_trans)
  qed (simp add: good_def)
  moreover have "same_core ?s2 (?s2\<lparr>newMessage := []\<rparr>)" by (simp add: same_core_def)
  ultimately show ?thesis by (blast intro: good_trans same_core_good)
qed

lemma sendMessage_good: "net_rely good net \<Longrightarrow> good s (fst (sendMessage P C env net s w))"
  by (auto simp: sendMessage_def Let_def alert_good
      intro: push_sent_good good_trans [OF _ alert_good] dest: good_await.apiRequest_R
      split: option.split sum.split prod.split)

interpretation send_handler: async_handler "sendMessage P C env"
  by unfold_locales (rule sendMessage_good)

section \<open>Which conversation\<close>

text \<open>A selection that nothing interleaved changes stays what it was.\<close>

definition same_selection :: "app \<Rightarrow> app \<Rightarrow> bool" where
  "same_selection s s' \<longleftrightarrow> activeContactId s' = activeContactId s"

interpretation selection_await: await_relation same_selection
  by unfold_locales (auto simp: same_selection_def)

lemma find_prefix_key:
  assumes "List.find (\<lambda>c. c_id c = i) xs = Some c" "prefix (map contact_key xs) (map contact_key ys)"
  shows "\<exists>c'. List.find (\<lambda>c. c_id c = i) ys = Some c' \<and> contact_key c' = contact_key c"
  using assms
proof (induction xs arbitrary: ys)
  case (Cons x xs)
  then obtain y ys' where "ys = y # ys'" "contact_key y = contact_key x"
    "prefix (map contact_key xs) (map contact_key ys')"
    by (cases ys) auto
  with Cons show ?case by (auto simp: contact_key_def split: if_splits)
qed simp

lemma activeContact_evolves:
  assumes "activeContact s = Some c" "evolves s s'" "same_selection s s'"
  shows "\<exists>c'. activeContact s' = Some c' \<and> contact_key c' = contact_key c"
proof -
  obtain i where i: "activeContactId s = Some i"
    using assms(1) find_Some_D unfolding activeContact_def by fastforce
  with assms(1) have "List.find (\<lambda>c. c_id c = i) (contacts s) = Some c"
    by (simp add: activeContact_def)
  from find_prefix_key [OF this, of "contacts s'"] assms(2,3) i show ?thesis
    by (simp add: activeContact_def same_selection_def evolves_def)
qed

text \<open>A message of one's own is shown by opening it with the selected contact's key.\<close>

lemma decryptMessage_own:
  assumes "m_from m = None" "activeContact s = Some c"
    and "wasm_decrypt P (k_private_key (keys s)) (c_publicKey c)
           (as_uint8 (m_ciphertext m)) (as_uint8 (m_nonce m)) = Ok t"
  shows "decryptMessage P s m = t"
  using assms by (simp add: decryptMessage_def) (simp add: activeContact_def)

section \<open>Properties\<close>

text \<open>
  C10. A non-blank text sent to the selected contact is encrypted so that the contact decrypts exactly what
  was typed. If the request succeeds the message is
  appended to the contact's conversation, the input is cleared, and the sender's own page shows the
  typed text for it; if it fails the page only raises the alert, and the typed text stays. Any other
  handler may run during the await, as long as the selection stays.
\<close>

theorem sendMessage_delivers:
  assumes peers: "key_peers P (k_private_key (keys s)) (k_public_key (keys s)) priv' (c_publicKey c)"
    and inv: "client_inv s" "has_keys s" "activeContact s = Some c" "c_id c \<noteq> []"
    and env: "length (e_nonce env) = 12" "js_trim (newMessage s) \<noteq> []"
      "length (js_to_utf8 (newMessage s)) \<le> max_plaintext"
    and rely: "net_rely good net" "net_rely same_selection net"
  shows "\<exists>em. wasm_decrypt P priv' (k_public_key (keys s)) (em_ciphertext em) (em_nonce em)
                = Ok (js_to_utf8 (newMessage s)) \<and>
     (case apiRequest C net ''/message'' (Post (Message_payload (c_publicKey c) (k_public_key (keys s))
              (em_ciphertext em) (em_nonce em))) 1 s w of
        (Inl _, s1, w1) \<Rightarrow> sendMessage P C env net s w = (alert send_alert s1, w1)
      | (Inr _, s1, w1) \<Rightarrow>
          (let s' = fst (sendMessage P C env net s w); m = sent_message env em
           in snd (sendMessage P C env net s w) = w1 \<and> newMessage s' = [] \<and>
              messages s' (c_id c) = Some ((case messages s1 (c_id c) of None \<Rightarrow> [] | Some ms \<Rightarrow> ms) @ [m]) \<and>
              decryptMessage P s' m = js_to_utf8 (newMessage s)))"
proof -
  from wasm.seal_unseal [OF peers env(1,3)] obtain em where
    em: "wasm_encrypt P (e_nonce env) (k_private_key (keys s)) (c_publicKey c) (newMessage s) = Ok em"
      "em_nonce em = e_nonce env"
      "wasm_decrypt P priv' (k_public_key (keys s)) (em_ciphertext em) (e_nonce env) = Ok (js_to_utf8 (newMessage s))"
      "wasm_decrypt P (k_private_key (keys s)) (c_publicKey c) (em_ciphertext em) (e_nonce env)
         = Ok (js_to_utf8 (newMessage s))" by blast
  obtain r s1 w1 where req: "apiRequest C net ''/message'' (Post (Message_payload (c_publicKey c)
      (k_public_key (keys s)) (em_ciphertext em) (em_nonce em))) 1 s w = (r, s1, w1)"
    using prod_cases3 by blast
  have sel: "activeContactId s = Some (c_id c)"
    using inv(3) find_Some_D unfolding activeContact_def by fastforce
  have "evolves s s1" using good_await.apiRequest_R [OF rely(1) req] inv(1) by (simp add: good_def)
  moreover have "same_selection s s1" by (rule selection_await.apiRequest_R [OF rely(2) req])
  ultimately obtain c' where c': "activeContact s1 = Some c'" "contact_key c' = contact_key c"
    using activeContact_evolves [OF inv(3)] by blast
  have s1: "keys s1 = keys s" "activeContactId s1 = Some (c_id c)"
    using \<open>evolves s s1\<close> \<open>same_selection s s1\<close> inv(2) sel by (simp_all add: evolves_def same_selection_def)
  let ?m = "sent_message env em"
  let ?s' = "(push_message (c_id c) ?m s1)\<lparr>newMessage := []\<rparr>"
  have run: "sendMessage P C env net s w = (case r of Inl _ \<Rightarrow> (alert send_alert s1, w1) | Inr _ \<Rightarrow> (?s', w1))"
    using env(2) inv(3,4) sel em(1) req s1(2) by (simp add: sendMessage_def prop_key_def split: sum.split)
  have "activeContact ?s' = Some c'" using c'(1) by (simp add: activeContact_def)
  then have "decryptMessage P ?s' ?m = js_to_utf8 (newMessage s)"
    using em(2,4) c'(2) s1(1)
    by (intro decryptMessage_own [where c = c']) (simp_all add: sent_message_def contact_key_def)
  moreover have "messages ?s' (c_id c) = Some ((case messages s1 (c_id c) of None \<Rightarrow> [] | Some ms \<Rightarrow> ms) @ [?m])"
    by (simp add: push_message_def)
  moreover have "wasm_decrypt P priv' (k_public_key (keys s)) (em_ciphertext em) (em_nonce em)
      = Ok (js_to_utf8 (newMessage s))"
    using em(2,3) by simp
  ultimately show ?thesis
    unfolding run by (intro exI [of _ em] conjI) (simp_all only: req prod.case, cases r, simp_all)
qed

definition ok_net :: "unit net" where
  "ok_net r s w = (Response 200 Empty_text, s, w)"

definition alice :: app where
  "alice = fresh_app\<lparr>keys := \<lparr>k_private_key = lower_hex [1], k_public_key = lower_hex [1]\<rparr>,
     contacts := [\<lparr>c_id = ''a'', c_name = ''Bob'', c_publicKey = lower_hex [2]\<rparr>,
                  \<lparr>c_id = ''b'', c_name = ''Carol'', c_publicKey = lower_hex [3]\<rparr>],
     activeContactId := Some ''a'', newMessage := ''hi''\<rparr>"

definition alice_env :: send_env where
  "alice_env = \<lparr>e_nonce = replicate 12 7, e_now = 5, e_date = 5\<rparr>"

lemma alice_facts:
  "client_inv alice" "has_keys alice" "key_peers toy_crypto (lower_hex [1]) (lower_hex [1]) (lower_hex [2]) (lower_hex [2])"
  "js_trim ''hi'' = ''hi''" "length (js_to_utf8 ''hi'') \<le> max_plaintext"
  "activeContact alice = Some \<lparr>c_id = ''a'', c_name = ''Bob'', c_publicKey = lower_hex [2]\<rparr>"
proof -
  show "client_inv alice"
    by (simp add: alice_def client_inv_def contacts_ok_def contact_ok_def contact_ids_def filed_ok_def
        js_trim_def js_space_def)
  show "has_keys alice" by (simp add: alice_def has_keys_def lower_hex_def)
  show "key_peers toy_crypto (lower_hex [1]) (lower_hex [1]) (lower_hex [2]) (lower_hex [2])"
    using toy_crypto_ok toy_valid by (fastforce simp: key_peers_def toy_crypto_def)
  show "js_trim ''hi'' = ''hi''" by (simp add: js_trim_def js_space_def)
  show "length (js_to_utf8 ''hi'') \<le> max_plaintext"
    by (simp add: js_to_utf8_def max_plaintext_def Let_def)
  show "activeContact alice = Some \<lparr>c_id = ''a'', c_name = ''Bob'', c_publicKey = lower_hex [2]\<rparr>"
    by (simp add: alice_def activeContact_def)
qed

theorem sendMessage_delivers_witness:
  "\<exists>em. wasm_decrypt toy_crypto (lower_hex [2]) (lower_hex [1]) (em_ciphertext em) (em_nonce em)
          = Ok (js_to_utf8 ''hi'') \<and>
        messages (fst (sendMessage toy_crypto example_config alice_env ok_net alice ())) ''a''
          = Some [sent_message alice_env em] \<and>
        decryptMessage toy_crypto (fst (sendMessage toy_crypto example_config alice_env ok_net alice ()))
          (sent_message alice_env em) = js_to_utf8 ''hi''"
proof -
  have "net_rely good ok_net" "net_rely same_selection ok_net"
    by (simp_all add: net_rely_def ok_net_def same_selection_def)
  moreover have "apiRequest example_config ok_net p q n alice () = (Inr (JObject empty_object), alice, ())" for p q n
    by (simp add: apiRequest.simps ok_net_def read_response_def)
  ultimately show ?thesis
    using sendMessage_delivers [of toy_crypto alice "lower_hex [2]"
        "\<lparr>c_id = ''a'', c_name = ''Bob'', c_publicKey = lower_hex [2]\<rparr>" alice_env ok_net example_config "()"]
      alice_facts
    by (auto simp: alice_env_def Let_def) (auto simp: alice_def)
qed

text \<open>
  C15. A page load changes the representation of every stored message (typed arrays become indexed objects) but not
  what the page shows for it: with the same conversation opened again, every message reads as
  before.
\<close>

theorem decryptMessage_after_reload:
  assumes "activeContactId s = Some i"
  shows "decryptMessage P (selectContact i (reload C s)) (json_message m) = decryptMessage P s m"
proof -
  let ?s' = "selectContact i (reload C s)"
  have "activeContactId ?s' = activeContactId s" "contacts ?s' = contacts s" "keys ?s' = keys s"
    using assms by (simp_all add: selectContact_def)
  moreover from this have "activeContact ?s' = activeContact s" by (simp add: activeContact_def)
  ultimately show ?thesis by (simp add: decryptMessage_def split: option.split)
qed

theorem decryptMessage_after_reload_witness:
  "decryptMessage toy_crypto (selectContact ''a'' (reload example_config alice))
     (json_message (sent_message alice_env \<lparr>em_ciphertext = [3, 7], em_nonce = [1]\<rparr>)) =
   decryptMessage toy_crypto alice (sent_message alice_env \<lparr>em_ciphertext = [3, 7], em_nonce = [1]\<rparr>)"
  by (rule decryptMessage_after_reload) (simp add: alice_def)

text \<open>
  C32. The conversation a sent message is filed in is the one selected when the request returns, not the one it
  was encrypted for: whatever contact is selected at that moment receives it, and no other
  conversation changes.
\<close>

theorem sendMessage_files_at_resume:
  assumes "js_trim (newMessage s) \<noteq> []" "activeContactId s = Some i" "i \<noteq> []" "activeContact s = Some c"
    and "wasm_encrypt P (e_nonce env) (k_private_key (keys s)) (c_publicKey c) (newMessage s) = Ok em"
    and "apiRequest C net ''/message'' (Post (Message_payload (c_publicKey c) (k_public_key (keys s))
           (em_ciphertext em) (em_nonce em))) 1 s w = (Inr d, s1, w1)"
    and "activeContactId s1 = Some j"
  shows "messages (fst (sendMessage P C env net s w)) =
           (messages s1)(j \<mapsto> (case messages s1 j of None \<Rightarrow> [] | Some ms \<Rightarrow> ms) @ [sent_message env em])"
  using assms by (simp add: sendMessage_def prop_key_def push_message_def)

text \<open>The user opens Carol's conversation while the message to Bob is in flight.\<close>

definition switching_net :: "unit net" where
  "switching_net r s w = (Response 200 Empty_text, selectContact ''b'' s, w)"

theorem sendMessage_files_at_resume_witness:
  "let s' = fst (sendMessage toy_crypto example_config alice_env switching_net alice ());
       m = sent_message alice_env \<lparr>em_ciphertext = 3 # replicate 12 7 @ js_to_utf8 ''hi'',
                                   em_nonce = replicate 12 7\<rparr>
   in messages s' ''a'' = None \<and> messages s' ''b'' = Some [m] \<and>
      decryptMessage toy_crypto s' m = js_to_utf8 ''[Could not decrypt message]''"
proof -
  let ?em = "\<lparr>em_ciphertext = 3 # replicate 12 7 @ js_to_utf8 ''hi'', em_nonce = replicate 12 (7 :: 8 word)\<rparr>"
  let ?c = "\<lparr>c_id = ''a'', c_name = ''Bob'', c_publicKey = lower_hex [2]\<rparr>"
  have enc: "wasm_encrypt toy_crypto (e_nonce alice_env) (k_private_key (keys alice)) (c_publicKey ?c) (newMessage alice) = Ok ?em"
    by (simp add: wasm_encrypt_def encrypt_def derive_shared_secret_def toy_crypto_def nonce_from_slice_def
        alice_env_def alice_def)
  have req: "apiRequest example_config switching_net p q n alice () =
      (Inr (JObject empty_object), selectContact ''b'' alice, ())" for p q n
    by (simp add: apiRequest.simps switching_net_def read_response_def)
  have run: "messages (fst (sendMessage toy_crypto example_config alice_env switching_net alice ())) =
      [''b'' \<mapsto> [sent_message alice_env ?em]]"
    using sendMessage_files_at_resume [of alice "''a''" ?c toy_crypto alice_env ?em example_config switching_net
        "()" "JObject empty_object" "selectContact ''b'' alice" "()" "''b''"] enc req alice_facts
    by (simp add: alice_def selectContact_def)
  have st: "fst (sendMessage toy_crypto example_config alice_env switching_net alice ()) =
      (push_message ''b'' (sent_message alice_env ?em) (selectContact ''b'' alice))\<lparr>newMessage := []\<rparr>"
    using enc req alice_facts by (simp add: sendMessage_def prop_key_def) (simp add: alice_def selectContact_def)
  have "decryptMessage toy_crypto (fst (sendMessage toy_crypto example_config alice_env switching_net alice ()))
      (sent_message alice_env ?em) = js_to_utf8 ''[Could not decrypt message]''"
    unfolding st
    by (simp add: decryptMessage_def activeContact_def selectContact_def alice_def sent_message_def
        wasm_decrypt_def decrypt_def derive_shared_secret_def toy_crypto_def nonce_from_slice_def toy_open_def Let_def)
  then show ?thesis by (simp add: run Let_def)
qed

end
