(* ===== verification/Polling.thy ===== *)
theory Polling
  imports Messaging
begin

text \<open>
  Receiving messages in the browser client: \<open>pollMessages\<close> (challenge, signature, poll, then the
  messages one by one) with its re-entrance guard, and the filing of a batch of messages into
  conversations. The lemmas cover delivery, repeated delivery (nodes keep messages, so every poll
  brings them all again), unknown senders and the messages that are not stored.
\<close>

section \<open>The code\<close>

definition url_unreserved :: "char \<Rightarrow> bool" where
  "url_unreserved c \<longleftrightarrow>
     (let n = (of_char c :: nat)
      in (48 \<le> n \<and> n \<le> 57) \<or> (65 \<le> n \<and> n \<le> 90) \<or> (97 \<le> n \<and> n \<le> 122) \<or> c \<in> set ''-_.!~*()'' \<or> n = 39)"

definition percent_byte :: "8 word \<Rightarrow> string" where
  "percent_byte b = ''%'' @ js_toUpperCase_hex [hex_digit (unat b div 16), hex_digit (unat b mod 16)]"

definition encodeURIComponent :: "string \<Rightarrow> string" where
  "encodeURIComponent s =
     concat (map (\<lambda>c. if url_unreserved c then [c] else concat (map percent_byte (js_to_utf8 [c]))) s)"

text \<open>The draws of \<open>Date.now()\<close> and \<open>Math.random()\<close> made while one message is filed.\<close>

record sample =
  s_contact_now :: int
  s_contact_random :: string
  s_message_now :: int
  s_message_random :: rat

definition unknown_contact :: "sample \<Rightarrow> string \<Rightarrow> contact" where
  "unknown_contact e pk =
     \<lparr>c_id = ''contact_'' @ js_show_int (s_contact_now e) @ ''_'' @ s_contact_random e,
      c_name = ''Unknown ('' @ js_substring0 pk 8 @ ''...)'', c_publicKey = pk\<rparr>"

definition received_message :: "sample \<Rightarrow> poll_msg \<Rightarrow> iso_string \<Rightarrow> message" where
  "received_message e msg t =
     \<lparr>m_id = of_int (s_message_now e) + s_message_random e,
      m_ciphertext = U8 (pm_ciphertext msg), m_nonce = U8 (pm_nonce msg),
      m_timestamp = t, m_sender = ''them'', m_from = Some (pm_from msg)\<rparr>"

text \<open>The sender's contact, made on the spot for an unknown sender whose message decrypts.\<close>

definition sender_contact :: "crypto \<Rightarrow> sample \<Rightarrow> poll_msg \<Rightarrow> app \<Rightarrow> contact option \<times> app" where
  "sender_contact P e msg s =
     (case List.find (\<lambda>c. c_publicKey c = pm_from msg) (contacts s) of
        Some c \<Rightarrow> (Some c, s)
      | None \<Rightarrow>
          (case wasm_throws (wasm_decrypt P (k_private_key (keys s)) (pm_from msg)
                  (pm_ciphertext msg) (pm_nonce msg)) of
             Inl _ \<Rightarrow> (None, s)
           | Inr _ \<Rightarrow> (let c = unknown_contact e (pm_from msg) in (Some c, push_contact c s))))"

definition ensure_conversation :: "string \<Rightarrow> app \<Rightarrow> app" where
  "ensure_conversation k s =
     (case messages s k of None \<Rightarrow> s\<lparr>messages := (messages s)(k \<mapsto> [])\<rparr> | Some _ \<Rightarrow> s)"

definition conversation :: "app \<Rightarrow> string \<Rightarrow> message list" where
  "conversation s k = (case messages s k of None \<Rightarrow> [] | Some ms \<Rightarrow> ms)"

text \<open>
  One iteration of \<open>forEach\<close>; \<open>Some e\<close> when the callback throws. The date is formatted for every stored
  message compared with, and again for the new one, so an invalid date throws on both ways.
\<close>

definition receive_msg :: "crypto \<Rightarrow> sample \<Rightarrow> poll_msg \<Rightarrow> app \<Rightarrow> js_error option \<times> app" where
  "receive_msg P e msg s =
     (case sender_contact P e msg s of
        (None, s1) \<Rightarrow> (None, s1)
      | (Some c, s1) \<Rightarrow>
          (let s2 = ensure_conversation (c_id c) s1
           in case js_toISOString (pm_timestamp msg * 1000) of
                None \<Rightarrow> (Some RangeError, s2)
              | Some t \<Rightarrow>
                  if list_ex (\<lambda>m. m_timestamp m = t \<and> m_sender m = ''them'') (conversation s2 (c_id c))
                  then (None, s2)
                  else (None, push_message (c_id c) (received_message e msg t) s2)))"

fun receive_all ::
  "crypto \<Rightarrow> (nat \<Rightarrow> sample) \<Rightarrow> nat \<Rightarrow> poll_msg list \<Rightarrow> app \<Rightarrow> js_error option \<times> app"
where
  "receive_all P smp i [] s = (None, s)"
| "receive_all P smp i (msg # msgs) s =
     (case receive_msg P (smp i) msg s of
        (Some e, s1) \<Rightarrow> (Some e, s1)
      | (None, s1) \<Rightarrow> receive_all P smp (Suc i) msgs s1)"

definition challenge_path :: "string \<Rightarrow> string" where
  "challenge_path pk = ''/poll/challenge?public_key='' @ encodeURIComponent pk"

definition challenge_nonce :: "json \<Rightarrow> js_error + bytes" where
  "challenge_nonce data =
     (case data of
        JNull \<Rightarrow> Inl TypeError
      | JObject d \<Rightarrow>
          (case d_nonce d of
             None \<Rightarrow> Inl (Error ''Did not receive a challenge nonce.'')
           | Some h \<Rightarrow>
               if h = [] then Inl (Error ''Did not receive a challenge nonce.'')
               else (case hexToUint8Array h of Inl e \<Rightarrow> Inl (Thrown e) | Inr n \<Rightarrow> Inr n)))"

definition poll_result :: "crypto \<Rightarrow> (nat \<Rightarrow> sample) \<Rightarrow> json \<Rightarrow> app \<Rightarrow> js_error option \<times> app" where
  "poll_result P smp data s =
     (case data of
        JNull \<Rightarrow> (Some TypeError, s)
      | JObject d \<Rightarrow>
          (case d_messages d of None \<Rightarrow> (None, s) | Some msgs \<Rightarrow> receive_all P smp 0 msgs s))"

text \<open>The \<open>try\<close> block: the exception it ends with, if any, and the state and world it leaves.\<close>

definition poll_try ::
  "crypto \<Rightarrow> config \<Rightarrow> (nat \<Rightarrow> sample) \<Rightarrow> 'w net \<Rightarrow> app \<Rightarrow> 'w \<Rightarrow> js_error option \<times> app \<times> 'w"
where
  "poll_try P C smp net s w =
     (let (r1, s1, w1) = apiRequest C net (challenge_path (k_public_key (keys s))) Get 1 s w
      in case r1 of
           Inl e \<Rightarrow> (Some e, s1, w1)
         | Inr challengeData \<Rightarrow>
             (case challenge_nonce challengeData of
                Inl e \<Rightarrow> (Some e, s1, w1)
              | Inr nonce \<Rightarrow>
                  (case wasm_throws (wasm_sign P (k_private_key (keys s1)) nonce) of
                     Inl e \<Rightarrow> (Some e, s1, w1)
                   | Inr signature \<Rightarrow>
                       (let (r2, s2, w2) = apiRequest C net ''/poll''
                              (Post (Poll_payload (k_public_key (keys s1)) nonce signature)) 1 s1 w1
                        in case r2 of
                             Inl e \<Rightarrow> (Some e, s2, w2)
                           | Inr data \<Rightarrow> (let (err, s3) = poll_result P smp data s2 in (err, s3, w2))))))"

definition pollMessages ::
  "crypto \<Rightarrow> config \<Rightarrow> (nat \<Rightarrow> sample) \<Rightarrow> 'w net \<Rightarrow> app \<Rightarrow> 'w \<Rightarrow> app \<times> 'w"
where
  "pollMessages P C smp net s w =
     (if k_public_key (keys s) = [] \<or> isPolling s then (s, w)
      else (let (_, s1, w1) = poll_try P C smp net (s\<lparr>isPolling := True\<rparr>) w
            in (s1\<lparr>isPolling := False\<rparr>, w1)))"

section \<open>The guarantee\<close>

lemma unknown_contact_ok: "contact_ok (unknown_contact e pk)"
  by (simp add: contact_ok_def unknown_contact_def js_trim_def js_space_def)

lemma sender_contact_Some:
  "sender_contact P e msg s = (Some c, s1) \<Longrightarrow>
   good s s1 \<and> c \<in> set (contacts s1) \<and> c_publicKey c = pm_from msg"
  using find_Some_D [of "\<lambda>c. c_publicKey c = pm_from msg" "contacts s"]
  by (auto simp: sender_contact_def Let_def unknown_contact_ok push_contact_good
      split: option.splits sum.splits) (simp add: unknown_contact_def)

lemma sender_contact_None: "sender_contact P e msg s = (None, s1) \<Longrightarrow> s1 = s"
  by (auto simp: sender_contact_def Let_def split: option.splits sum.splits)

lemma ensure_conversation_simps [simp]:
  "contacts (ensure_conversation k s) = contacts s" "keys (ensure_conversation k s) = keys s"
  "activeContactId (ensure_conversation k s) = activeContactId s"
  "showTermsModal (ensure_conversation k s) = showTermsModal s"
  "conversation (ensure_conversation k s) k' = conversation s k'"
  "messages (ensure_conversation k s) k = Some (conversation s k)"
  by (auto simp: ensure_conversation_def conversation_def split: option.split)

lemma ensure_conversation_good: "k \<in> contact_ids s \<Longrightarrow> good s (ensure_conversation k s)"
  by (auto simp: good_def evolves_def client_inv_def contacts_ok_def contact_ids_def filed_ok_def
      received_def has_keys_def ensure_conversation_def split: option.split if_splits)

lemma receive_msg_good:
  assumes "receive_msg P e msg s = (err, s')"
  shows "good s s'"
proof (cases "sender_contact P e msg s")
  case (Pair found s1)
  show ?thesis
  proof (cases found)
    case None
    with Pair assms show ?thesis by (auto simp: receive_msg_def dest: sender_contact_None)
  next
    case (Some c)
    with Pair have c: "good s s1" "c \<in> set (contacts s1)" "c_publicKey c = pm_from msg"
      using sender_contact_Some by blast+
    then have cid: "c_id c \<in> contact_ids s1" by (simp add: contact_ids_def)
    let ?s2 = "ensure_conversation (c_id c) s1"
    have s2: "good s ?s2" using c(1) ensure_conversation_good [OF cid] by (rule good_trans)
    show ?thesis
    proof (cases "s' = ?s2")
      case True
      with s2 show ?thesis by simp
    next
      case False
      with Pair Some assms obtain t where
        new: "\<not> list_ex (\<lambda>m. m_timestamp m = t \<and> m_sender m = ''them'') (conversation s1 (c_id c))"
        and s': "s' = push_message (c_id c) (received_message e msg t) ?s2"
        by (auto simp: receive_msg_def Let_def split: option.splits if_splits)
      have "good ?s2 s'"
        unfolding s'
        using cid c(2,3) new
        by (intro push_message_good)
           (auto simp: contact_ids_def received_message_def received_def list_ex_iff)
      with s2 show ?thesis by (rule good_trans)
    qed
  qed
qed

lemma receive_all_good: "receive_all P smp i msgs s = (err, s') \<Longrightarrow> good s s'"
proof (induction msgs arbitrary: i s)
  case (Cons msg msgs)
  obtain e s1 where r: "receive_msg P (smp i) msg s = (e, s1)" by (cases "receive_msg P (smp i) msg s") auto
  with Cons show ?case
    by (cases e) (auto intro: good_trans receive_msg_good)
qed simp

lemma poll_result_good: "poll_result P smp data s = (err, s') \<Longrightarrow> good s s'"
  by (auto simp: poll_result_def split: json.splits option.splits intro: receive_all_good)

lemma poll_try_good:
  assumes "net_rely good net" "poll_try P C smp net s w = (err, s', w')"
  shows "good s s'"
  using assms(2)
  by (auto simp: poll_try_def Let_def split: prod.splits sum.splits
      dest!: good_await.apiRequest_R [OF assms(1)] poll_result_good intro: good_trans)

lemma same_core_isPolling [simp]: "same_core s (s\<lparr>isPolling := b\<rparr>)"
  by (simp add: same_core_def)

lemma pollMessages_good:
  assumes "net_rely good net"
  shows "good s (fst (pollMessages P C smp net s w))"
proof (cases "k_public_key (keys s) = [] \<or> isPolling s")
  case False
  obtain err s1 w1 where t: "poll_try P C smp net (s\<lparr>isPolling := True\<rparr>) w = (err, s1, w1)"
    by (cases "poll_try P C smp net (s\<lparr>isPolling := True\<rparr>) w") auto
  have "good s (s\<lparr>isPolling := True\<rparr>)" by (intro same_core_good) simp
  moreover have "good (s\<lparr>isPolling := True\<rparr>) s1" using assms t by (rule poll_try_good)
  moreover have "good s1 (s1\<lparr>isPolling := False\<rparr>)" by (intro same_core_good) simp
  ultimately have "good s (s1\<lparr>isPolling := False\<rparr>)" by (blast intro: good_trans)
  with False t show ?thesis by (simp add: pollMessages_def)
qed (auto simp: pollMessages_def)

interpretation poll_handler: async_handler "pollMessages P C smp"
  by unfold_locales (rule pollMessages_good)

section \<open>Stored messages\<close>

text \<open>
  A polled message is stored: its sender is a contact, and that contact's conversation holds a
  received message with its date.
\<close>

definition stored :: "app \<Rightarrow> poll_msg \<Rightarrow> bool" where
  "stored s msg \<longleftrightarrow> (\<exists>c t. List.find (\<lambda>c. c_publicKey c = pm_from msg) (contacts s) = Some c \<and>
     js_toISOString (pm_timestamp msg * 1000) = Some t \<and>
     list_ex (\<lambda>m. m_timestamp m = t \<and> m_sender m = ''them'') (conversation s (c_id c)))"

definition known_sender :: "app \<Rightarrow> poll_msg \<Rightarrow> bool" where
  "known_sender s msg \<longleftrightarrow> (\<exists>c\<in>set (contacts s). c_publicKey c = pm_from msg)"

definition opens :: "crypto \<Rightarrow> app \<Rightarrow> poll_msg \<Rightarrow> bool" where
  "opens P s msg \<longleftrightarrow>
     is_ok (wasm_decrypt P (k_private_key (keys s)) (pm_from msg) (pm_ciphertext msg) (pm_nonce msg))"

lemma is_ok_wasm_throws: "is_ok r \<longleftrightarrow> (\<exists>a. wasm_throws r = Inr a)"
  by (cases r) auto

lemma receive_msg_stored: "stored s msg \<Longrightarrow> receive_msg P e msg s = (None, s)"
  by (auto simp: stored_def receive_msg_def sender_contact_def ensure_conversation_def conversation_def
      Let_def split: option.splits)

lemma receive_msg_rejected:
  assumes "\<not> known_sender s msg" "\<not> opens P s msg"
  shows "receive_msg P e msg s = (None, s)"
proof -
  have "List.find (\<lambda>c. c_publicKey c = pm_from msg) (contacts s) = None"
    using assms(1) by (simp add: find_None_iff known_sender_def)
  with assms(2) show ?thesis
    by (auto simp: receive_msg_def sender_contact_def opens_def is_ok_wasm_throws split: sum.split)
qed

lemma receive_msg_None:
  assumes "receive_msg P e msg s = (None, s')" "known_sender s msg \<or> opens P s msg"
  shows "stored s' msg"
proof -
  have "\<exists>c s1. sender_contact P e msg s = (Some c, s1) \<and>
      List.find (\<lambda>c. c_publicKey c = pm_from msg) (contacts s1) = Some c"
  proof (cases "List.find (\<lambda>c. c_publicKey c = pm_from msg) (contacts s)")
    case None
    then have "opens P s msg" using assms(2) by (auto simp: known_sender_def find_None_iff)
    with None show ?thesis
      by (auto simp: sender_contact_def opens_def is_ok_wasm_throws Let_def find_append unknown_contact_def)
  qed (simp add: sender_contact_def)
  then obtain c s1 where c: "sender_contact P e msg s = (Some c, s1)"
    "List.find (\<lambda>c. c_publicKey c = pm_from msg) (contacts s1) = Some c" by blast
  with assms(1) show ?thesis
    by (auto simp: receive_msg_def stored_def Let_def push_message_def received_message_def
        conversation_def ensure_conversation_def split: option.splits if_splits)
qed

lemma find_prefix_publicKey:
  assumes "List.find (\<lambda>c. c_publicKey c = k) xs = Some c"
    "prefix (map contact_key xs) (map contact_key ys)"
  shows "\<exists>c'. List.find (\<lambda>c. c_publicKey c = k) ys = Some c' \<and> contact_key c' = contact_key c"
  using assms
proof (induction xs arbitrary: ys)
  case (Cons x xs)
  then obtain y ys' where "ys = y # ys'" "contact_key y = contact_key x"
    "prefix (map contact_key xs) (map contact_key ys')"
    by (cases ys) auto
  with Cons show ?case by (auto simp: contact_key_def split: if_splits)
qed simp

lemma stored_evolves:
  assumes "stored s msg" "evolves s s'"
  shows "stored s' msg"
proof -
  from assms(1) obtain c t where c: "List.find (\<lambda>c. c_publicKey c = pm_from msg) (contacts s) = Some c"
    "js_toISOString (pm_timestamp msg * 1000) = Some t"
    "list_ex (\<lambda>m. m_timestamp m = t \<and> m_sender m = ''them'') (conversation s (c_id c))"
    unfolding stored_def by blast
  from find_prefix_publicKey [OF c(1) evolves_contacts [OF assms(2)]] obtain c' where
    c': "List.find (\<lambda>c. c_publicKey c = pm_from msg) (contacts s') = Some c'" "c_id c' = c_id c"
    by (auto simp: contact_key_def)
  have "prefix (conversation s (c_id c)) (conversation s' (c_id c))"
    using evolves_messages [OF assms(2)] by (auto simp: conversation_def split: option.split)
      (metis option.distinct(1), metis option.inject)
  then have "set (conversation s (c_id c)) \<subseteq> set (conversation s' (c_id c))" by (rule set_mono_prefix)
  with c c' show ?thesis by (auto simp: stored_def list_ex_iff)
qed

lemma keys_receive_msg: "receive_msg P e msg s = (err, s') \<Longrightarrow> keys s' = keys s"
  by (auto simp: receive_msg_def sender_contact_def Let_def split: option.splits sum.splits if_splits)

lemma known_sender_evolves: "known_sender s msg \<Longrightarrow> evolves s s' \<Longrightarrow> known_sender s' msg"
proof -
  assume "known_sender s msg" and e: "evolves s s'"
  then obtain c where "c \<in> set (contacts s)" "c_publicKey c = pm_from msg"
    unfolding known_sender_def by blast
  then have "(c_id c, pm_from msg) \<in> set (map contact_key (contacts s))" by (force simp: contact_key_def)
  then have "(c_id c, pm_from msg) \<in> set (map contact_key (contacts s'))"
    using e set_mono_prefix unfolding evolves_def by blast
  then show ?thesis by (auto simp: known_sender_def contact_key_def)
qed

lemma receive_all_stored:
  assumes "receive_all P smp i msgs s = (None, s')" "client_inv s"
  shows "\<forall>msg\<in>set msgs. known_sender s msg \<or> opens P s msg \<longrightarrow> stored s' msg"
  using assms
proof (induction msgs arbitrary: i s)
  case (Cons msg msgs)
  from Cons.prems(1) obtain s1 where r: "receive_msg P (smp i) msg s = (None, s1)"
    and rest: "receive_all P smp (Suc i) msgs s1 = (None, s')"
    by (auto split: prod.splits option.splits)
  have s1: "client_inv s1" "evolves s s1"
    using goodD [OF receive_msg_good [OF r] Cons.prems(2)] by auto
  have "evolves s1 s'" using goodD [OF receive_all_good [OF rest] s1(1)] by simp
  then have "known_sender s msg \<or> opens P s msg \<longrightarrow> stored s' msg"
    using receive_msg_None [OF r] stored_evolves by blast
  moreover have "\<forall>m\<in>set msgs. known_sender s m \<or> opens P s m \<longrightarrow> stored s' m"
    using Cons.IH [OF rest s1(1)] known_sender_evolves [OF _ s1(2)] keys_receive_msg [OF r]
    by (auto simp: opens_def)
  ultimately show ?case by simp
qed simp

lemma receive_all_all_stored: "\<forall>msg\<in>set msgs. stored s msg \<Longrightarrow> receive_all P smp i msgs s = (None, s)"
  by (induction msgs arbitrary: i) (auto simp: receive_msg_stored)

section \<open>Properties\<close>


definition bob_poll :: poll_msg where
  "bob_poll = \<lparr>pm_from = lower_hex [2], pm_ciphertext = 3 # replicate 12 7 @ [104], pm_nonce = replicate 12 7,
     pm_timestamp = 1700000000\<rparr>"

definition samples :: "nat \<Rightarrow> sample" where
  "samples i = \<lparr>s_contact_now = 9, s_contact_random = ''0.5'', s_message_now = 9, s_message_random = 1 / 2\<rparr>"

lemma lower_hex_eq: "lower_hex [2] = ''02''" "lower_hex [1] = ''01''" "lower_hex [3] = ''03''"
  by (simp_all add: lower_hex_def hex_digit_def) code_simp+

lemma bob_receive:
  "receive_all toy_crypto samples 0 [bob_poll] alice =
     (None, push_message ''a'' (received_message (samples 0) bob_poll (ISO 1700000000000))
              (ensure_conversation ''a'' alice))"
  by (simp add: receive_msg_def sender_contact_def bob_poll_def lower_hex_eq alice_def Let_def
      js_toISOString_def max_time_def conversation_def)




text \<open>
  A message whose sender already has a received message with the same date (in whole seconds) is
  dropped, whatever it says: nothing is stored and no error is raised.
\<close>

theorem same_second_message_dropped:
  assumes "client_inv s" "receive_msg P e msg1 s = (None, s1)" "known_sender s msg1 \<or> opens P s msg1"
    and "pm_from msg2 = pm_from msg1" "pm_timestamp msg2 = pm_timestamp msg1"
  shows "receive_msg P e' msg2 s1 = (None, s1)"
proof -
  have "stored s1 msg1" using assms(2,3) by (rule receive_msg_None)
  then have "stored s1 msg2" by (simp add: stored_def assms(4,5))
  then show ?thesis by (rule receive_msg_stored)
qed

theorem same_second_message_dropped_witness:
  "let s1 = snd (receive_all toy_crypto samples 0 [bob_poll] alice);
       other = bob_poll\<lparr>pm_ciphertext := 3 # replicate 12 7 @ [105]\<rparr>
   in opens toy_crypto s1 other \<and> receive_msg toy_crypto (samples 1) other s1 = (None, s1)"
proof -
  have k: "known_sender alice bob_poll" by (simp add: known_sender_def alice_def bob_poll_def)
  have r: "receive_msg toy_crypto (samples 0) bob_poll alice =
      (None, push_message ''a'' (received_message (samples 0) bob_poll (ISO 1700000000000))
              (ensure_conversation ''a'' alice))"
    using bob_receive by (auto split: prod.splits option.splits)
  have o: "opens toy_crypto (snd (receive_all toy_crypto samples 0 [bob_poll] alice))
      (bob_poll\<lparr>pm_ciphertext := 3 # replicate 12 7 @ [105]\<rparr>)"
    unfolding bob_receive
    by (simp add: opens_def bob_poll_def alice_def wasm_decrypt_def decrypt_def derive_shared_secret_def
        toy_crypto_def nonce_from_slice_def toy_open_def Let_def)
  show ?thesis
    using same_second_message_dropped [OF alice_facts(1) r, of "bob_poll\<lparr>pm_ciphertext := 3 # replicate 12 7 @ [105]\<rparr>"] k o
    by (simp add: bob_receive Let_def del: receive_all.simps)
qed

text \<open>
  The re-entrance guard: a poll that finds another one running, or no key, does nothing at all; a
  poll that runs leaves the flag cleared, whatever fails on the way and whatever runs in between.
\<close>

theorem pollMessages_guard:
  "(isPolling s \<or> k_public_key (keys s) = [] \<longrightarrow> pollMessages P C smp net s w = (s, w)) \<and>
   (\<not> isPolling s \<and> k_public_key (keys s) \<noteq> [] \<longrightarrow> \<not> isPolling (fst (pollMessages P C smp net s w)))"
  by (auto simp: pollMessages_def split: prod.split)

theorem pollMessages_guard_witness:
  "pollMessages toy_crypto example_config samples ok_net (alice\<lparr>isPolling := True\<rparr>) () =
     (alice\<lparr>isPolling := True\<rparr>, ()) \<and>
   \<not> isPolling (fst (pollMessages toy_crypto example_config samples ok_net alice ()))"
  using pollMessages_guard [of "alice\<lparr>isPolling := True\<rparr>" toy_crypto example_config samples ok_net "()"]
    pollMessages_guard [of alice toy_crypto example_config samples ok_net "()"]
  by (simp add: alice_def lower_hex_eq)

text \<open>
  In a well-formed state whose contact ids differ, the page opens every received message of the
  selected conversation with the public key of the sender it names, never with another contact's.
\<close>

theorem received_opened_with_sender_key:
  assumes "client_inv s" "distinct (map c_id (contacts s))"
    and "activeContactId s = Some k" "messages s k = Some ms" "m \<in> set ms" "m_sender m = ''them''"
  shows "\<exists>pk. m_from m = Some pk \<and>
     decryptMessage P s m =
       (case wasm_decrypt P (k_private_key (keys s)) pk (as_uint8 (m_ciphertext m)) (as_uint8 (m_nonce m)) of
          Ok t \<Rightarrow> t | _ \<Rightarrow> js_to_utf8 ''[Could not decrypt message]'')"
proof -
  have "m \<in> set (received ms)" using assms(5,6) by (simp add: received_def)
  then obtain c where c: "c \<in> set (contacts s)" "c_id c = k" "m_from m = Some (c_publicKey c)"
    using assms(1,4) unfolding client_inv_def filed_ok_def by blast
  let ?Q = "\<lambda>c. Some (c_publicKey c) = m_from m \<or> (activeContact s \<noteq> None \<and> Some (c_id c) = activeContactId s)"
  have "List.find ?Q (contacts s) \<noteq> None" using c by (auto simp: find_None_iff)
  then obtain d where d: "List.find ?Q (contacts s) = Some d" by blast
  then have "d \<in> set (contacts s)" "?Q d" using find_Some_D by fastforce+
  moreover from this have "c_id d = k \<Longrightarrow> d = c"
    using assms(2) c by (auto simp: distinct_map inj_on_def)
  ultimately have "c_publicKey d = c_publicKey c" using c(3) assms(3) by auto
  with c(3) d show ?thesis
    by (intro exI [of _ "c_publicKey c"]) (auto simp: decryptMessage_def split: outcome.split)
qed

theorem received_opened_with_sender_key_witness:
  "let s = snd (receive_all toy_crypto samples 0 [bob_poll] alice);
       m = received_message (samples 0) bob_poll (ISO 1700000000000)
   in \<exists>pk. m_from m = Some pk \<and>
      decryptMessage toy_crypto s m =
       (case wasm_decrypt toy_crypto (k_private_key (keys s)) pk (as_uint8 (m_ciphertext m)) (as_uint8 (m_nonce m)) of
          Ok t \<Rightarrow> t | _ \<Rightarrow> js_to_utf8 ''[Could not decrypt message]'')"
proof -
  have "client_inv (snd (receive_all toy_crypto samples 0 [bob_poll] alice))"
    using goodD [OF receive_all_good [OF bob_receive] alice_facts(1)] by (simp add: bob_receive del: receive_all.simps)
  from received_opened_with_sender_key [OF this, of "''a''" "[received_message (samples 0) bob_poll (ISO 1700000000000)]"]
  show ?thesis
    by (simp add: bob_receive Let_def del: receive_all.simps)
       (simp add: alice_def push_message_def ensure_conversation_def received_message_def)
qed

section \<open>What the filing does not do\<close>

text \<open>
  Contacts are matched by the text of the key. \<open>addContact\<close> keeps the letter case of the key it is
  given, nodes and clients write keys in lower case: a message from a contact entered in upper case
  is filed under a second, unknown contact.
\<close>

lemma upper_case_contact_not_matched:
  "let s = alice\<lparr>contacts := [\<lparr>c_id = ''a'', c_name = ''Bob'', c_publicKey = ''0A''\<rparr>]\<rparr>;
       msg = bob_poll\<lparr>pm_from := ''0a'', pm_ciphertext := 11 # replicate 12 7 @ [104]\<rparr>;
       s' = snd (receive_msg toy_crypto (samples 0) msg s)
   in map c_name (contacts s') = [''Bob'', ''Unknown (0a...)''] \<and> conversation s' ''a'' = []"
  by (simp add: receive_msg_def sender_contact_def bob_poll_def alice_def Let_def wasm_decrypt_def decrypt_def
      derive_shared_secret_def toy_crypto_def nonce_from_slice_def toy_open_def hexToUint8Array_def
      js_parseInt16_def strip_0x_def is_hex_def hex_val_def js_space_def lower_hex_eq unknown_contact_def
      js_substring0_def js_toISOString_def max_time_def conversation_def ensure_conversation_def
      push_message_def samples_def)

text \<open>A date out of range throws, and the messages after it in the batch are not looked at.\<close>

lemma bad_timestamp_stops_batch:
  assumes "\<bar>pm_timestamp msg * 1000\<bar> > max_time" "known_sender s msg"
  shows "\<exists>k. receive_all P smp i (msg # msgs) s = (Some RangeError, ensure_conversation k s)"
proof -
  obtain c where "List.find (\<lambda>c. c_publicKey c = pm_from msg) (contacts s) = Some c"
    using assms(2) by (cases "List.find (\<lambda>c. c_publicKey c = pm_from msg) (contacts s)")
      (auto simp: find_None_iff known_sender_def)
  with assms(1) show ?thesis
    by (intro exI [of _ "c_id c"])
       (simp add: receive_msg_def sender_contact_def js_toISOString_def)
qed

end
