(* ===== verification/Metrics_View.thy ===== *)
theory Metrics_View
  imports Messaging
begin

text \<open>
  The metrics dialog of the browser client: \<open>fetchMetrics\<close>, \<open>renderChart\<close> and the watcher of
  \<open>metricsModalOpen\<close>, with the lifetime of the chart. Chart.js itself is vendored third-party code: a
  chart is a handle, alive from \<open>new Chart\<close> until \<open>destroy\<close>. The dialog's events, the deferred
  callback of \<open>$nextTick\<close> and the arrival of responses are the steps of a transition relation.
\<close>

section \<open>The code\<close>

definition destroy_chart :: "app \<Rightarrow> app" where
  "destroy_chart s =
     (case metricsChart s of
        None \<Rightarrow> s
      | Some h \<Rightarrow> s\<lparr>live_charts := (live_charts s)(h := None), metricsChart := None\<rparr>)"

definition new_chart :: "chart_data \<Rightarrow> app \<Rightarrow> app" where
  "new_chart d s =
     s\<lparr>live_charts := (live_charts s)(charts_created s \<mapsto> d), metricsChart := Some (charts_created s),
       charts_created := Suc (charts_created s)\<rparr>"

text \<open>The labels are time values; the page formats them with \<open>toLocaleTimeString\<close>.\<close>

definition chart_of :: "metric_row list \<Rightarrow> chart_data" where
  "chart_of rows =
     (let reversed = rev rows
      in \<lparr>ch_labels = map (\<lambda>m. mr_timestamp m * 1000) reversed,
          ch_node_count = map mr_network_size_estimate reversed,
          ch_total_messages = map mr_total_network_keys_estimate reversed\<rparr>)"

definition renderChart :: "app \<Rightarrow> app" where
  "renderChart s =
     (case metricsData s of
        None \<Rightarrow> destroy_chart s
      | Some rows \<Rightarrow> if rows = [] then destroy_chart s else new_chart (chart_of rows) (destroy_chart s))"

text \<open>
  What the request to the collector ends with: a failed fetch, or a status and a body, which is not
  JSON (\<open>None\<close>), null (\<open>Some None\<close>) or an array of rows.
\<close>

datatype metrics_response = Metrics_failure | Metrics_response nat "metric_row list option option"

definition metrics_arrive :: "metrics_response \<Rightarrow> app \<Rightarrow> app" where
  "metrics_arrive r s =
     (case r of
        Metrics_failure \<Rightarrow> s
      | Metrics_response st b \<Rightarrow>
          if \<not> (200 \<le> st \<and> st \<le> 299) then s
          else (case b of None \<Rightarrow> s | Some data \<Rightarrow> renderChart (s\<lparr>metricsData := data\<rparr>)))"

definition fetchMetrics ::
  "config \<Rightarrow> (string \<Rightarrow> app \<Rightarrow> 'w \<Rightarrow> metrics_response \<times> app \<times> 'w) \<Rightarrow> app \<Rightarrow> 'w \<Rightarrow> app \<times> 'w"
where
  "fetchMetrics C net s w =
     (let (r, s1, w1) = net (collectorUrl C @ ''/metrics'') s w in (metrics_arrive r s1, w1))"

text \<open>The watcher: on closing at once, on opening in the next tick.\<close>

definition on_metrics_close :: "app \<Rightarrow> app" where
  "on_metrics_close s = (destroy_chart s)\<lparr>metricsLoaded := False\<rparr>"

definition on_metrics_tick :: "app \<Rightarrow> bool \<times> app" where
  "on_metrics_tick s = (if \<not> metricsLoaded s then (True, s\<lparr>metricsLoaded := True\<rparr>) else (False, s))"

section \<open>The dialog as a transition system\<close>

text \<open>The component, the scheduled ticks and the fetches in flight.\<close>

record dialog =
  dg_app :: app
  dg_ticks :: nat
  dg_fetches :: nat

inductive dialog_step :: "dialog \<Rightarrow> dialog \<Rightarrow> bool" where
  open_modal: "\<not> metricsModalOpen (dg_app d) \<Longrightarrow>
     dialog_step d (d\<lparr>dg_app := (dg_app d)\<lparr>metricsModalOpen := True\<rparr>, dg_ticks := Suc (dg_ticks d)\<rparr>)"
| close_modal: "metricsModalOpen (dg_app d) \<Longrightarrow>
     dialog_step d (d\<lparr>dg_app := on_metrics_close ((dg_app d)\<lparr>metricsModalOpen := False\<rparr>)\<rparr>)"
| tick: "dg_ticks d = Suc n \<Longrightarrow> on_metrics_tick (dg_app d) = (start, s) \<Longrightarrow>
     dialog_step d (d\<lparr>dg_app := s, dg_ticks := n,
       dg_fetches := (if start then Suc (dg_fetches d) else dg_fetches d)\<rparr>)"
| arrive: "dg_fetches d = Suc n \<Longrightarrow>
     dialog_step d (d\<lparr>dg_app := metrics_arrive r (dg_app d), dg_fetches := n\<rparr>)"

inductive dialog_reachable :: "config \<Rightarrow> storage \<Rightarrow> dialog \<Rightarrow> bool" for C st where
  start: "dialog_reachable C st \<lparr>dg_app = app_data C st, dg_ticks = 0, dg_fetches = 0\<rparr>"
| step: "dialog_reachable C st d \<Longrightarrow> dialog_step d d' \<Longrightarrow> dialog_reachable C st d'"

section \<open>The chart\<close>

text \<open>
  Exactly the chart the component refers to is alive, it shows the data last fetched, and its handle was issued
  before.
\<close>

definition chart_inv :: "app \<Rightarrow> bool" where
  "chart_inv s \<longleftrightarrow>
     (case metricsChart s of
        None \<Rightarrow> live_charts s = Map.empty
      | Some h \<Rightarrow> h < charts_created s \<and>
          (\<exists>rows. metricsData s = Some rows \<and> rows \<noteq> [] \<and> live_charts s = [h \<mapsto> chart_of rows]))"

lemma destroy_chart_empty:
  "chart_inv s \<Longrightarrow> metricsChart (destroy_chart s) = None \<and> live_charts (destroy_chart s) = Map.empty"
  by (auto simp: destroy_chart_def chart_inv_def split: option.splits)

lemma destroy_chart_metricsData [simp]: "metricsData (destroy_chart s) = metricsData s"
  by (simp add: destroy_chart_def split: option.split)

lemma destroy_chart_set_data: "destroy_chart (s\<lparr>metricsData := d\<rparr>) = (destroy_chart s)\<lparr>metricsData := d\<rparr>"
  by (simp add: destroy_chart_def split: option.split)

lemma renderChart_inv: "chart_inv s \<Longrightarrow> chart_inv (renderChart (s\<lparr>metricsData := d\<rparr>))"
  using destroy_chart_empty [of s]
  by (auto simp: renderChart_def destroy_chart_set_data new_chart_def chart_inv_def split: option.split)

lemma metrics_arrive_inv [keeps]: "chart_inv s \<Longrightarrow> chart_inv (metrics_arrive r s)"
  by (auto simp: metrics_arrive_def renderChart_inv split: metrics_response.split option.split)

lemma on_metrics_close_inv [keeps]: "chart_inv s \<Longrightarrow> chart_inv (on_metrics_close s)"
  using destroy_chart_empty [of s] by (simp add: on_metrics_close_def chart_inv_def)

lemma chart_inv_other_fields [simp]:
  "chart_inv (s\<lparr>metricsModalOpen := b\<rparr>) = chart_inv s" "chart_inv (s\<lparr>metricsLoaded := b\<rparr>) = chart_inv s"
  by (simp_all add: chart_inv_def split: option.split)

lemma dialog_step_inv: "dialog_step d d' \<Longrightarrow> chart_inv (dg_app d) \<Longrightarrow> chart_inv (dg_app d')"
  by (induction rule: dialog_step.induct)
     (auto simp: on_metrics_tick_def intro: keeps split: if_splits)

text \<open>
  Whatever the order of opening, closing, ticks and late responses, at most one chart is alive on the
  canvas, it is the one the component refers to (so it will be destroyed), and it shows the rows
  last fetched.
\<close>

theorem one_live_chart:
  assumes "dialog_reachable C st d"
  shows "dom (live_charts (dg_app d)) = set_option (metricsChart (dg_app d)) \<and>
         (\<forall>h. metricsChart (dg_app d) = Some h \<longrightarrow>
            (\<exists>rows. metricsData (dg_app d) = Some rows \<and> live_charts (dg_app d) h = Some (chart_of rows)))"
proof -
  from assms have "chart_inv (dg_app d)"
  proof (induction rule: dialog_reachable.induct)
    case start
    show ?case by (simp add: chart_inv_def app_data_def)
  next
    case (step d d')
    then show ?case by (blast intro: dialog_step_inv)
  qed
  then show ?thesis by (auto simp: chart_inv_def split: option.splits if_splits)
qed

definition example_row :: metric_row where
  "example_row = \<lparr>mr_timestamp = 60, mr_network_size_estimate = 3, mr_total_network_keys_estimate = 10\<rparr>"

text \<open>The dialog is opened and closed again before the response arrives.\<close>

definition late_dialog :: dialog where
  "late_dialog = \<lparr>dg_app = metrics_arrive (Metrics_response 200 (Some (Some [example_row])))
     (on_metrics_close (fresh_app\<lparr>metricsLoaded := True, metricsModalOpen := False\<rparr>)), dg_ticks = 0, dg_fetches = 0\<rparr>"

lemma late_dialog_reachable: "dialog_reachable example_config empty_storage late_dialog"
proof -
  let ?R = "dialog_reachable example_config empty_storage"
  have "?R \<lparr>dg_app = fresh_app, dg_ticks = 0, dg_fetches = 0\<rparr>"
    unfolding fresh_app_def by (rule dialog_reachable.start)
  from dialog_reachable.step [OF this open_modal]
  have "?R \<lparr>dg_app = fresh_app\<lparr>metricsModalOpen := True\<rparr>, dg_ticks = 1, dg_fetches = 0\<rparr>" by simp
  from dialog_reachable.step [OF this tick [where n = 0 and start = True
      and s = "fresh_app\<lparr>metricsModalOpen := True, metricsLoaded := True\<rparr>"]]
  have "?R \<lparr>dg_app = fresh_app\<lparr>metricsModalOpen := True, metricsLoaded := True\<rparr>, dg_ticks = 0, dg_fetches = 1\<rparr>"
    by (simp add: on_metrics_tick_def)
  from dialog_reachable.step [OF this close_modal]
  have "?R \<lparr>dg_app = on_metrics_close (fresh_app\<lparr>metricsLoaded := True, metricsModalOpen := False\<rparr>),
      dg_ticks = 0, dg_fetches = 1\<rparr>" by simp
  from dialog_reachable.step [OF this arrive [where n = 0
      and r = "Metrics_response 200 (Some (Some [example_row]))"]]
  show ?thesis by (simp add: late_dialog_def)
qed

theorem one_live_chart_witness:
  "dialog_reachable example_config empty_storage late_dialog \<and>
   dom (live_charts (dg_app late_dialog)) = set_option (metricsChart (dg_app late_dialog)) \<and>
   \<not> metricsModalOpen (dg_app late_dialog) \<and> metricsChart (dg_app late_dialog) = Some 0"
  using late_dialog_reachable one_live_chart [OF late_dialog_reachable]
  by (simp add: late_dialog_def metrics_arrive_def renderChart_def new_chart_def on_metrics_close_def
      destroy_chart_def)

text \<open>
  The collector returns its rows newest first; the chart shows them oldest first, with the three series
  aligned: the point at any position is one row's time, node count and number of messages.
\<close>

theorem chart_of_chronological:
  assumes "sorted_wrt (\<lambda>a b. mr_timestamp b \<le> mr_timestamp a) rows"
  shows "sorted (ch_labels (chart_of rows)) \<and>
         zip (ch_labels (chart_of rows)) (zip (ch_node_count (chart_of rows)) (ch_total_messages (chart_of rows))) =
         map (\<lambda>m. (mr_timestamp m * 1000, mr_network_size_estimate m, mr_total_network_keys_estimate m)) (rev rows)"
proof
  have "sorted_wrt (\<lambda>a b. mr_timestamp a \<le> mr_timestamp b) (rev rows)"
    using assms by (simp add: sorted_wrt_rev)
  then show "sorted (ch_labels (chart_of rows))"
    by (simp add: chart_of_def Let_def sorted_wrt_map)
  show "zip (ch_labels (chart_of rows)) (zip (ch_node_count (chart_of rows)) (ch_total_messages (chart_of rows))) =
      map (\<lambda>m. (mr_timestamp m * 1000, mr_network_size_estimate m, mr_total_network_keys_estimate m)) (rev rows)"
    by (simp add: chart_of_def Let_def zip3_map)
qed

theorem chart_of_chronological_witness:
  "sorted (ch_labels (chart_of [example_row, example_row\<lparr>mr_timestamp := 0\<rparr>]))"
  using chart_of_chronological [of "[example_row, example_row\<lparr>mr_timestamp := 0\<rparr>]"]
  by (simp add: example_row_def)

end
