(* ===== verification/Lifecycle.thy ===== *)
theory Lifecycle
  imports Polling Metrics_View
begin

text \<open>
  The life of the browser client: the page load, the terms dialog that gates it, the initialisation
  (\<open>init\<close>, \<open>initWasmAndApp\<close>, \<open>startPolling\<close>) and the polling timer; and all handlers together as one
  transition relation, with what holds in every reachable state.
\<close>

section \<open>The code\<close>

definition attemptCloseTermsModal :: "app \<Rightarrow> app" where
  "attemptCloseTermsModal s = (if termsAccepted s then s\<lparr>showTermsModal := False\<rparr> else s)"

text \<open>What \<open>initWasmAndApp\<close> draws: the fresh secret key, and the samples of its first poll.\<close>

record init_env =
  ie_secret :: bytes
  ie_samples :: "nat \<Rightarrow> sample"

definition ensure_keys :: "crypto \<Rightarrow> bytes \<Rightarrow> app \<Rightarrow> app" where
  "ensure_keys P secret s =
     (if k_private_key (keys s) = [] \<or> k_public_key (keys s) = [] then
        (let keypair = wasm_generate_keypair P secret
         in s\<lparr>keys := \<lparr>k_private_key = js_private_key keypair, k_public_key = js_public_key keypair\<rparr>\<rparr>)
      else s)"

text \<open>
  \<open>wasm\<close> is the awaited loading of the WebAssembly module (\<open>False\<close> when it is rejected), with what runs
  meanwhile. The result says whether \<open>startPolling\<close> was reached, which polls once and installs a timer.
\<close>

definition startPolling ::
  "crypto \<Rightarrow> config \<Rightarrow> (nat \<Rightarrow> sample) \<Rightarrow> 'w net \<Rightarrow> app \<Rightarrow> 'w \<Rightarrow> app \<times> 'w"
where
  "startPolling P C smp net s w = pollMessages P C smp net s w"

definition initWasmAndApp ::
  "crypto \<Rightarrow> config \<Rightarrow> init_env \<Rightarrow> (app \<Rightarrow> 'w \<Rightarrow> bool \<times> app \<times> 'w) \<Rightarrow> 'w net \<Rightarrow> app \<Rightarrow> 'w \<Rightarrow>
   bool \<times> app \<times> 'w"
where
  "initWasmAndApp P C env wasm net s w =
     (let (ok, s1, w1) = wasm s w
      in if \<not> ok then (False, s1, w1)
         else (let (s2, w2) = loadNodeUrl C net s1 w1;
                   s3 = ensure_keys P (ie_secret env) s2;
                   (s4, w4) = startPolling P C (ie_samples env) net s3 w2
               in (True, s4, w4)))"

section \<open>The guarantee\<close>

lemma attemptCloseTermsModal_good: "good s (attemptCloseTermsModal s)"
  by (rule same_core_good) (simp add: same_core_def attemptCloseTermsModal_def)

lemma ensure_keys_good: "good s (ensure_keys P secret s)"
  by (auto simp: ensure_keys_def good_def evolves_def client_inv_def contacts_ok_def contact_ids_def
      filed_ok_def has_keys_def Let_def)

lemma startPolling_good: "net_rely good net \<Longrightarrow> good s (fst (startPolling P C smp net s w))"
  by (simp add: startPolling_def pollMessages_good)

definition wasm_rely :: "(app \<Rightarrow> app \<Rightarrow> bool) \<Rightarrow> (app \<Rightarrow> 'w \<Rightarrow> bool \<times> app \<times> 'w) \<Rightarrow> bool" where
  "wasm_rely R wasm \<longleftrightarrow> (\<forall>s w. R s (fst (snd (wasm s w))))"

lemma initWasmAndApp_good:
  assumes "net_rely good net" "wasm_rely good wasm"
    and "initWasmAndApp P C env wasm net s w = (b, s', w')"
  shows "good s s'"
proof -
  obtain ok s1 w1 where a: "wasm s w = (ok, s1, w1)" by (cases "wasm s w") auto
  have g1: "good s s1" using assms(2) a unfolding wasm_rely_def by (metis fst_conv snd_conv)
  obtain s2 w2 where l: "loadNodeUrl C net s1 w1 = (s2, w2)" by (cases "loadNodeUrl C net s1 w1") auto
  have g2: "good s1 s2" using good_await.loadNodeUrl_R [OF assms(1), of s1 C w1] l by simp
  let ?s3 = "ensure_keys P (ie_secret env) s2"
  have g3: "good s2 ?s3" by (rule ensure_keys_good)
  have g4: "good ?s3 (fst (startPolling P C (ie_samples env) net ?s3 w2))"
    using assms(1) by (rule startPolling_good)
  have "s' = s1 \<or> s' = fst (startPolling P C (ie_samples env) net ?s3 w2)"
    using assms(3) a l by (auto simp: initWasmAndApp_def Let_def split: prod.splits if_splits)
  then show ?thesis using g1 g2 g3 g4 by (blast intro: good_trans)
qed

interpretation init_handler: async_handler
  "\<lambda>net s w. snd (initWasmAndApp P C env (\<lambda>s w. (True, s, w)) net s w)"
proof unfold_locales
  fix net :: "'b net" and s w
  assume n: "net_rely good net"
  have "wasm_rely good (\<lambda>s (w :: 'b). (True, s, w))" by (simp add: wasm_rely_def)
  from initWasmAndApp_good [OF n this]
  show "good s (fst (snd (initWasmAndApp P C env (\<lambda>s w. (True, s, w)) net s w)))"
    by (metis prod.collapse)
qed

lemma chart_handlers_same_core:
  "same_core s (destroy_chart s)" "same_core s (renderChart s)"
  by (simp_all add: same_core_def destroy_chart_def renderChart_def new_chart_def split: option.split)

lemma metrics_arrive_good: "good s (metrics_arrive r s)"
  by (rule same_core_good)
     (auto simp: same_core_def metrics_arrive_def renderChart_def destroy_chart_def new_chart_def
       split: metrics_response.split option.split)

lemma on_metrics_close_good: "good s (on_metrics_close s)"
  by (rule same_core_good) (simp add: same_core_def on_metrics_close_def destroy_chart_def split: option.split)

section \<open>All handlers\<close>

text \<open>
  Every handler of the component, run to its end; the awaits of the asynchronous ones may interleave anything
  that itself moves along \<open>good\<close>. The page offers only existing contacts for selection.
\<close>

inductive client_step :: "crypto \<Rightarrow> config \<Rightarrow> app \<times> 'w \<Rightarrow> app \<times> 'w \<Rightarrow> bool" for P C where
  cs_select: "i \<in> contact_ids s \<Longrightarrow> client_step P C (s, w) (selectContact i s, w)"
| cs_add: "client_step P C (s, w) (addContact now s, w)"
| cs_rename: "client_step P C (s, w) (renameContact answer i s, w)"
| cs_copy: "client_step P C (s, w) (copyToClipboard v s, w)"
| cs_input: "client_step P C (s, w) (s\<lparr>newMessage := t, search := q, newContact := nc, termsAccepted := b,
     settingsModalOpen := o1, addContactModalOpen := o2, metricsModalOpen := o3\<rparr>, w)"
| cs_terms: "client_step P C (s, w) (attemptCloseTermsModal s, w)"
| cs_send: "net_rely good net \<Longrightarrow> client_step P C (s, w) (sendMessage P C env net s w)"
| cs_poll: "net_rely good net \<Longrightarrow> client_step P C (s, w) (pollMessages P C smp net s w)"
| cs_init: "net_rely good net \<Longrightarrow> wasm_rely good wasm \<Longrightarrow>
     client_step P C (s, w) (snd (initWasmAndApp P C ienv wasm net s w))"
| cs_metrics_close: "client_step P C (s, w) (on_metrics_close s, w)"
| cs_metrics_tick: "client_step P C (s, w) (snd (on_metrics_tick s), w)"
| cs_metrics_arrive: "client_step P C (s, w) (metrics_arrive r s, w)"

text \<open>The states of a browser: a first visit, handlers, and page loads.\<close>

inductive client_reachable :: "crypto \<Rightarrow> config \<Rightarrow> app \<times> 'w \<Rightarrow> bool" for P C where
  first_visit: "client_reachable P C (app_data C empty_storage, w)"
| handler: "client_reachable P C x \<Longrightarrow> client_step P C x y \<Longrightarrow> client_reachable P C y"
| page_load: "client_reachable P C (s, w) \<Longrightarrow> client_reachable P C (reload C s, w)"

lemma client_step_good: "client_step P C x y \<Longrightarrow> good (fst x) (fst y)"
proof (induction rule: client_step.induct)
  case (cs_input s w t q nc b o1 o2 o3)
  show ?case by (rule same_core_good) (simp add: same_core_def)
next
  case (cs_copy s w v)
  show ?case by (rule same_core_good) (simp add: same_core_def copyToClipboard_def)
next
  case (cs_init net wasm s w ienv)
  then show ?case by (metis initWasmAndApp_good fst_conv prod.collapse)
next
  case (cs_metrics_tick s w)
  show ?case by (rule same_core_good) (simp add: same_core_def on_metrics_tick_def)
qed (simp_all add: selectContact_good addContact_good renameContact_good attemptCloseTermsModal_good
      sendMessage_good pollMessages_good on_metrics_close_good metrics_arrive_good)

lemma client_steps_good: "(client_step P C)\<^sup>*\<^sup>* x y \<Longrightarrow> good (fst x) (fst y)"
  by (induction rule: rtranclp_induct) (auto intro: good_trans client_step_good)

lemma received_json: "received (map json_message ms) = map json_message (received ms)"
  by (induction ms) (auto simp: received_def)

lemma reload_inv [keeps]:
  assumes "client_inv s"
  shows "client_inv (reload C s)"
  unfolding client_inv_def
proof (intro conjI)
  show "contacts_ok (reload C s)" using assms by (simp add: client_inv_def contacts_ok_def)
  show "dom (messages (reload C s)) \<subseteq> contact_ids (reload C s)"
    using assms by (simp add: client_inv_def contact_ids_def)
  show "\<forall>i. activeContactId (reload C s) = Some i \<longrightarrow> i \<in> contact_ids (reload C s)" by simp
  show "filed_ok (reload C s)"
    using assms by (fastforce simp: client_inv_def filed_ok_def json_messages_def received_json)
  show "\<forall>k ms. messages (reload C s) k = Some ms \<longrightarrow> distinct (map m_timestamp (received ms))"
    using assms by (auto simp: client_inv_def json_messages_def received_json o_def)
qed

lemma client_reachable_inv: "client_reachable P C x \<Longrightarrow> client_inv (fst x)"
proof (induction rule: client_reachable.induct)
  case (first_visit w)
  show ?case
    by (simp add: client_inv_def contacts_ok_def contact_ids_def filed_ok_def app_data_def or_default_def
        empty_storage_def)
next
  case (handler x y)
  then show ?case by (blast dest: client_step_good goodD)
next
  case (page_load s w)
  then show ?case by (simp add: reload_inv)
qed

section \<open>Properties\<close>

text \<open>
  C6. In every state a browser can reach, through any handlers, any responses of the nodes, any interleaving at
  the awaits and any page loads: names are well formed, every conversation belongs to a contact, the
  selected contact exists, received messages lie in the conversation of the key they name, and no
  conversation holds two received messages with the same date.
\<close>

theorem client_wellformed:
  assumes "client_reachable P C (s, w)"
  shows "list_all contact_ok (contacts s) \<and>
    dom (messages s) \<subseteq> c_id ` set (contacts s) \<and>
    (\<forall>i. activeContactId s = Some i \<longrightarrow> i \<in> c_id ` set (contacts s)) \<and>
    (\<forall>k ms m. messages s k = Some ms \<and> m \<in> set ms \<and> m_sender m = ''them'' \<longrightarrow>
       (\<exists>c\<in>set (contacts s). c_id c = k \<and> m_from m = Some (c_publicKey c))) \<and>
    (\<forall>k ms. messages s k = Some ms \<longrightarrow> distinct (map m_timestamp (filter (\<lambda>m. m_sender m = ''them'') ms)))"
  using client_reachable_inv [OF assms]
  by (simp add: client_inv_def contacts_ok_def contact_ids_def filed_ok_def received_def)

lemma first_poll_reachable:
  "client_reachable toy_crypto example_config
     (pollMessages toy_crypto example_config samples ok_net (addContact 3 fresh_app) ())"
proof -
  have "client_reachable toy_crypto example_config (fresh_app, ())"
    unfolding fresh_app_def by (rule client_reachable.first_visit)
  from client_reachable.handler [OF this cs_add [of _ _ _ _ 3]]
  have "client_reachable toy_crypto example_config (addContact 3 fresh_app, ())" .
  moreover have "net_rely good ok_net" by (simp add: net_rely_def ok_net_def)
  ultimately show ?thesis by (blast intro: client_reachable.handler cs_poll)
qed

theorem client_wellformed_witness:
  "\<exists>s. client_reachable toy_crypto example_config (s, ()) \<and> list_all contact_ok (contacts s) \<and>
     dom (messages s) \<subseteq> c_id ` set (contacts s)"
proof -
  let ?s = "fst (pollMessages toy_crypto example_config samples ok_net (addContact 3 fresh_app) ())"
  have r: "client_reachable toy_crypto example_config (?s, ())"
    using first_poll_reachable by (metis (full_types) prod.collapse unit.exhaust)
  from client_wellformed [OF r] r show ?thesis by blast
qed

text \<open>
  C5. Within one page session nothing is ever lost: whatever handlers run and interleave, contacts keep their
  ids, keys and order, every conversation only grows at its end, a key pair once present never
  changes, and terms once accepted stay accepted.
\<close>

theorem client_nothing_lost:
  assumes "client_reachable P C (s, w)" "(client_step P C)\<^sup>*\<^sup>* (s, w) (s', w')"
  shows "prefix (map (\<lambda>c. (c_id c, c_publicKey c)) (contacts s)) (map (\<lambda>c. (c_id c, c_publicKey c)) (contacts s')) \<and>
    (\<forall>k ms. messages s k = Some ms \<longrightarrow> (\<exists>ms'. messages s' k = Some ms' \<and> prefix ms ms')) \<and>
    (k_private_key (keys s) \<noteq> [] \<and> k_public_key (keys s) \<noteq> [] \<longrightarrow> keys s' = keys s) \<and>
    (\<not> showTermsModal s \<longrightarrow> \<not> showTermsModal s')"
proof -
  have "contact_key = (\<lambda>c. (c_id c, c_publicKey c))" by (simp add: fun_eq_iff contact_key_def)
  then show ?thesis
    using goodD [OF client_steps_good [OF assms(2)]] client_reachable_inv [OF assms(1)]
    by (simp add: evolves_def has_keys_def)
qed

theorem client_nothing_lost_witness:
  "prefix (map (\<lambda>c. (c_id c, c_publicKey c)) (contacts fresh_app))
     (map (\<lambda>c. (c_id c, c_publicKey c)) (contacts (addContact 3 fresh_app)))"
proof -
  have r: "client_reachable toy_crypto example_config (fresh_app, ())"
    unfolding fresh_app_def by (rule client_reachable.first_visit)
  have "(client_step toy_crypto example_config)\<^sup>*\<^sup>* (fresh_app, ()) (addContact 3 fresh_app, ())"
    by (rule r_into_rtranclp) (rule cs_add)
  from client_nothing_lost [OF r this] show ?thesis by simp
qed

section \<open>The gate\<close>

text \<open>
  Start-up as a transition system: the component, the initialisations in flight, the timers installed,
  and the requests sent so far (the world \<open>'w\<close> is the node side, logged). The watcher of
  \<open>showTermsModal\<close> starts an initialisation when the flag changes to false.
\<close>

record 'w page =
  pg_app :: app
  pg_world :: "'w \<times> request list"
  pg_inits :: nat
  pg_timers :: nat

definition page_init :: "config \<Rightarrow> storage \<Rightarrow> 'w \<Rightarrow> 'w page" where
  "page_init C st w =
     (let s = app_data C st
      in \<lparr>pg_app = s, pg_world = (w, []), pg_inits = (if \<not> showTermsModal s then 1 else 0), pg_timers = 0\<rparr>)"

inductive page_step :: "crypto \<Rightarrow> config \<Rightarrow> 'w net \<Rightarrow> 'w page \<Rightarrow> 'w page \<Rightarrow> bool" for P C net where
  ps_checkbox: "page_step P C net p (p\<lparr>pg_app := (pg_app p)\<lparr>termsAccepted := b\<rparr>\<rparr>)"
| ps_close: "s = attemptCloseTermsModal (pg_app p) \<Longrightarrow>
     page_step P C net p (p\<lparr>pg_app := s,
       pg_inits := (if showTermsModal (pg_app p) \<and> \<not> showTermsModal s then Suc (pg_inits p) else pg_inits p)\<rparr>)"
| ps_init: "pg_inits p = Suc n \<Longrightarrow>
     initWasmAndApp P C env (\<lambda>s w. (ok, s, w)) (logging net) (pg_app p) (pg_world p) = (started, s, w) \<Longrightarrow>
     page_step P C net p (p\<lparr>pg_app := s, pg_world := w, pg_inits := n,
       pg_timers := (if started then Suc (pg_timers p) else pg_timers p)\<rparr>)"
| ps_timer: "pg_timers p = Suc n \<Longrightarrow> pollMessages P C smp (logging net) (pg_app p) (pg_world p) = (s, w) \<Longrightarrow>
     page_step P C net p (p\<lparr>pg_app := s, pg_world := w\<rparr>)"

inductive page_reachable :: "crypto \<Rightarrow> config \<Rightarrow> 'w net \<Rightarrow> storage \<Rightarrow> 'w \<Rightarrow> 'w page \<Rightarrow> bool"
  for P C net st w0 where
  pr_load: "page_reachable P C net st w0 (page_init C st w0)"
| pr_step: "page_reachable P C net st w0 p \<Longrightarrow> page_step P C net p q \<Longrightarrow> page_reachable P C net st w0 q"

text \<open>The terms flag across awaits.\<close>

definition terms_kept :: "app \<Rightarrow> app \<Rightarrow> bool" where
  "terms_kept s s' \<longleftrightarrow> (showTermsModal s' \<longrightarrow> showTermsModal s)"

interpretation terms_await: await_relation terms_kept
  by unfold_locales (auto simp: terms_kept_def)

lemma terms_kept_refl [simp]: "terms_kept s s"
  by (rule terms_await.R_refl)

lemma terms_kept_trans: "terms_kept s t \<Longrightarrow> terms_kept t u \<Longrightarrow> terms_kept s u"
  by (rule terms_await.R_trans)

lemma sender_contact_terms: "sender_contact P e msg s = (c, s1) \<Longrightarrow> showTermsModal s1 = showTermsModal s"
  by (auto simp: sender_contact_def Let_def split: option.splits sum.splits)

lemma receive_msg_terms: "receive_msg P e msg s = (err, s') \<Longrightarrow> showTermsModal s' = showTermsModal s"
  by (auto simp: receive_msg_def Let_def dest!: sender_contact_terms split: prod.splits option.splits if_splits)

lemma receive_all_terms: "receive_all P smp i msgs s = (err, s') \<Longrightarrow> showTermsModal s' = showTermsModal s"
proof (induction msgs arbitrary: i s)
  case (Cons msg msgs)
  obtain e s1 where r: "receive_msg P (smp i) msg s = (e, s1)" by (cases "receive_msg P (smp i) msg s") auto
  with Cons receive_msg_terms [OF r] show ?case by (cases e) auto
qed simp

lemma poll_result_terms: "poll_result P smp data s = (err, s') \<Longrightarrow> terms_kept s s'"
  by (auto simp: poll_result_def terms_kept_def split: json.splits option.splits dest: receive_all_terms)

lemma poll_try_terms:
  assumes "net_rely terms_kept net" "poll_try P C smp net s w = (err, s', w')"
  shows "terms_kept s s'"
  using assms(2)
  by (auto simp: poll_try_def Let_def split: prod.splits sum.splits
      dest!: terms_await.apiRequest_R [OF assms(1)] poll_result_terms intro: terms_kept_trans)

lemma pollMessages_terms:
  assumes "net_rely terms_kept net" "pollMessages P C smp net s w = (s', w')"
  shows "terms_kept s s'"
proof (cases "k_public_key (keys s) = [] \<or> isPolling s")
  case False
  obtain err s1 w1 where t: "poll_try P C smp net (s\<lparr>isPolling := True\<rparr>) w = (err, s1, w1)"
    by (cases "poll_try P C smp net (s\<lparr>isPolling := True\<rparr>) w") auto
  from poll_try_terms [OF assms(1) t] False t assms(2) show ?thesis
    by (auto simp: pollMessages_def terms_kept_def)
qed (use assms(2) in \<open>auto simp: pollMessages_def\<close>)

lemma ensure_keys_terms [simp]: "showTermsModal (ensure_keys P secret s) = showTermsModal s"
  by (simp add: ensure_keys_def Let_def)

lemma initWasmAndApp_terms:
  assumes "net_rely terms_kept net"
    and "initWasmAndApp P C env (\<lambda>s w. (ok, s, w)) net s w = (b, s', w')"
  shows "terms_kept s s'"
proof (cases ok)
  case True
  obtain s2 w2 where l: "loadNodeUrl C net s w = (s2, w2)" by (cases "loadNodeUrl C net s w") auto
  have 2: "terms_kept s s2" using terms_await.loadNodeUrl_R [OF assms(1), of s C w] l by simp
  obtain s4 w4 where p: "pollMessages P C (ie_samples env) net (ensure_keys P (ie_secret env) s2) w2 = (s4, w4)"
    by (cases "pollMessages P C (ie_samples env) net (ensure_keys P (ie_secret env) s2) w2") auto
  have "s' = s4" using assms(2) True l p by (simp add: initWasmAndApp_def startPolling_def)
  with 2 pollMessages_terms [OF assms(1) p] show ?thesis by (simp add: terms_kept_def)
qed (use assms(2) in \<open>simp add: initWasmAndApp_def\<close>)

lemma net_rely_logging: "net_rely R net \<Longrightarrow> net_rely R (logging net)"
  unfolding net_rely_def logging_def by (auto simp: Let_def split_beta)

definition gate_inv :: "app_keys \<Rightarrow> 'w page \<Rightarrow> bool" where
  "gate_inv k0 p \<longleftrightarrow> pg_inits p + pg_timers p \<le> 1 \<and>
     (showTermsModal (pg_app p) \<longrightarrow>
        pg_inits p = 0 \<and> pg_timers p = 0 \<and> snd (pg_world p) = [] \<and> keys (pg_app p) = k0)"

lemma page_step_gate:
  assumes "page_step P C net p q" "net_rely terms_kept net" "gate_inv k0 p"
  shows "gate_inv k0 q"
  using assms(1)
proof cases
  case (ps_init n env ok started s w)
  with assms(3) have "\<not> showTermsModal (pg_app p)" by (auto simp: gate_inv_def)
  then have "\<not> showTermsModal s"
    using initWasmAndApp_terms [OF net_rely_logging [OF assms(2)] ps_init(3)] by (simp add: terms_kept_def)
  with ps_init assms(3) show ?thesis by (auto simp: gate_inv_def)
next
  case (ps_timer n smp s w)
  with assms(3) have "\<not> showTermsModal (pg_app p)" by (auto simp: gate_inv_def)
  then have "\<not> showTermsModal s"
    using pollMessages_terms [OF net_rely_logging [OF assms(2)] ps_timer(3)] by (simp add: terms_kept_def)
  with ps_timer assms(3) show ?thesis by (auto simp: gate_inv_def)
qed (use assms(3) in \<open>auto simp: gate_inv_def attemptCloseTermsModal_def\<close>)

lemma page_reachable_gate:
  assumes "page_reachable P C net st w0 p" "net_rely terms_kept net"
  shows "gate_inv (keys (app_data C st)) p"
  using assms(1)
proof (induction rule: page_reachable.induct)
  case pr_load
  show ?case by (simp add: gate_inv_def page_init_def Let_def)
next
  case (pr_step p q)
  then show ?case using page_step_gate assms(2) by blast
qed



end
