(* ===== verification/Node_Id.thy ===== *)
theory Node_Id
  imports Prelude "HOL-Library.List_Lexorder"
begin

text \<open>
  \<open>lib/src/lib.rs\<close>: node identifiers (\<open>[u8; 20]\<close>), their reading as numbers, the arithmetic of the finger
  table and the interval test \<open>is_between\<close> of the identifier circle. Big integers come from the crate
  \<open>num_bigint\<close>: a \<open>BigUint\<close> is a natural number, and its conversions from and to bytes are the fields of
  the record \<open>bignum\<close>, with their documented behaviour in \<open>bignum_ok\<close>. The laws of the circle that
  routing relies on are the locale \<open>ring_interval\<close>.
\<close>

section \<open>Identifiers\<close>

typedef node_id = "{bs :: bytes. length bs = 20}"
  morphisms id_bytes Node_Id
  by (rule exI [of _ "replicate 20 0"]) simp

lemma length_id_bytes [simp]: "length (id_bytes a) = 20"
  using id_bytes [of a] by simp

lemma id_bytes_Node_Id [simp]: "length bs = 20 \<Longrightarrow> id_bytes (Node_Id bs) = bs"
  by (simp add: Node_Id_inverse)

text \<open>Arrays are compared lexicographically.\<close>

instantiation node_id :: linorder
begin

definition less_eq_node_id :: "node_id \<Rightarrow> node_id \<Rightarrow> bool" where
  "less_eq_node_id a b \<longleftrightarrow> id_bytes a \<le> id_bytes b"

definition less_node_id :: "node_id \<Rightarrow> node_id \<Rightarrow> bool" where
  "less_node_id a b \<longleftrightarrow> id_bytes a < id_bytes b"

instance
  by standard (auto simp: less_eq_node_id_def less_node_id_def id_bytes_inject less_le)

end

instantiation node_id :: equal
begin

definition equal_node_id :: "node_id \<Rightarrow> node_id \<Rightarrow> bool" where
  "equal_node_id a b \<longleftrightarrow> id_bytes a = id_bytes b"

instance
  by standard (simp add: equal_node_id_def id_bytes_inject)

end

section \<open>Bytes as numbers\<close>

definition be_value :: "bytes \<Rightarrow> nat" where
  "be_value bs = foldl (\<lambda>a b. a * 256 + unat b) 0 bs"

fun be_bytes :: "nat \<Rightarrow> nat \<Rightarrow> bytes" where
  "be_bytes 0 n = []"
| "be_bytes (Suc k) n = be_bytes k (n div 256) @ [of_nat n]"

lemma be_value_Nil [simp]: "be_value [] = 0"
  by (simp add: be_value_def)

lemma be_value_snoc [simp]: "be_value (bs @ [b]) = be_value bs * 256 + unat b"
  by (simp add: be_value_def)

lemma be_value_append: "be_value (xs @ ys) = be_value xs * 256 ^ length ys + be_value ys"
  by (induction ys rule: rev_induct) (simp_all add: algebra_simps flip: append_assoc)

lemma be_value_Cons: "be_value (b # bs) = unat b * 256 ^ length bs + be_value bs"
  using be_value_append [of "[b]" bs] be_value_snoc [of "[]" b] by simp

lemma be_value_zeros [simp]: "be_value (replicate k 0 @ bs) = be_value bs"
  by (induction k) (simp_all add: be_value_Cons)

lemma be_value_less: "be_value bs < 256 ^ length bs"
proof (induction bs rule: rev_induct)
  case (snoc b bs)
  have bound: "v * 256 + u < X * 256" if "v < X" "u < 256" for v u X :: nat
    using that by linarith
  have "be_value bs * 256 + unat b < 256 ^ length bs * 256" by (rule bound [OF snoc unat_word8_lt])
  then show ?case by (simp add: mult.commute)
qed simp

lemma be_value_lex:
  "length xs = length ys \<Longrightarrow> xs < ys \<longleftrightarrow> be_value xs < be_value ys"
proof (induction xs ys rule: list_induct2)
  case (Cons x xs y ys)
  have b: "be_value xs < 256 ^ length ys" "be_value ys < 256 ^ length ys"
    using be_value_less [of xs] be_value_less [of ys] Cons.hyps by simp_all
  show ?case
  proof (cases x y rule: linorder_cases)
    case less
    then have "unat x + 1 \<le> unat y" by (simp add: word_less_nat_alt Suc_le_eq)
    then have "(unat x + 1) * 256 ^ length ys \<le> unat y * 256 ^ length ys" by (rule mult_right_mono) simp
    with b less Cons.hyps show ?thesis by (simp add: be_value_Cons)
  next
    case greater
    then have "unat y + 1 \<le> unat x" by (simp add: word_less_nat_alt Suc_le_eq)
    then have "(unat y + 1) * 256 ^ length ys \<le> unat x * 256 ^ length ys" by (rule mult_right_mono) simp
    with b have "be_value (y # ys) < be_value (x # xs)" using Cons.hyps by (simp add: be_value_Cons)
    with greater show ?thesis by auto
  qed (use Cons in \<open>simp add: be_value_Cons\<close>)
qed simp

lemma be_value_inj: "length xs = length ys \<Longrightarrow> be_value xs = be_value ys \<Longrightarrow> xs = ys"
  using be_value_lex [of xs ys] be_value_lex [of ys xs] by (metis less_irrefl linorder_less_linear)

lemma length_be_bytes [simp]: "length (be_bytes k n) = k"
  by (induction k arbitrary: n) simp_all

lemma be_value_be_bytes [simp]: "be_value (be_bytes k n) = n mod 256 ^ k"
proof (induction k arbitrary: n)
  case (Suc k)
  have "n mod (256 * 256 ^ k) = 256 * (n div 256 mod 256 ^ k) + n mod 256"
    by (rule mod_mult2_eq)
  then show ?case by (simp add: Suc unsigned_of_nat take_bit_eq_mod mult.commute)
qed simp

text \<open>The number an identifier stands for.\<close>

definition nat_of_id :: "node_id \<Rightarrow> nat" where
  "nat_of_id a = be_value (id_bytes a)"

definition id_of_nat :: "nat \<Rightarrow> node_id" where
  "id_of_nat n = Node_Id (be_bytes 20 n)"

lemma nat_of_id_less: "nat_of_id a < 2 ^ 160"
  using be_value_less [of "id_bytes a"] by (simp add: nat_of_id_def)

lemma nat_of_id_inject [simp]: "nat_of_id a = nat_of_id b \<longleftrightarrow> a = b"
  by (metis be_value_inj id_bytes_inject length_id_bytes nat_of_id_def)

lemma nat_of_id_of_nat [simp]: "nat_of_id (id_of_nat n) = n mod 2 ^ 160"
  by (simp add: nat_of_id_def id_of_nat_def)

lemma id_of_nat_of_id [simp]: "id_of_nat (nat_of_id a) = a"
  using nat_of_id_less [of a] by (simp flip: nat_of_id_inject)

lemma node_id_less_iff: "a < b \<longleftrightarrow> nat_of_id a < nat_of_id b"
  by (simp add: less_node_id_def nat_of_id_def be_value_lex)

lemma id_of_nat_eq_iff: "m < 2 ^ 160 \<Longrightarrow> n < 2 ^ 160 \<Longrightarrow> id_of_nat m = id_of_nat n \<longleftrightarrow> m = n"
  by (simp flip: nat_of_id_inject)

section \<open>Big integers\<close>

record bignum =
  from_bytes_be :: "bytes \<Rightarrow> nat"
  to_bytes_be :: "nat \<Rightarrow> bytes"

text \<open>
  The documentation of the crate: bytes are read big-endian; a number is written with as few bytes as
  it needs, at least one.
\<close>

definition bignum_ok :: "'e bignum_scheme \<Rightarrow> bool" where
  "bignum_ok B \<longleftrightarrow> (\<forall>bs. from_bytes_be B bs = be_value bs) \<and>
     (\<forall>n. be_value (to_bytes_be B n) = n) \<and> to_bytes_be B 0 = [0] \<and>
     (\<forall>n>0. to_bytes_be B n \<noteq> [] \<and> hd (to_bytes_be B n) \<noteq> 0)"

section \<open>The code\<close>

definition node_id_to_biguint :: "'e bignum_scheme \<Rightarrow> node_id \<Rightarrow> nat" where
  "node_id_to_biguint B a = from_bytes_be B (id_bytes a)"

definition biguint_to_node_id :: "'e bignum_scheme \<Rightarrow> nat \<Rightarrow> node_id" where
  "biguint_to_node_id B n =
     (let bytes = to_bytes_be B n; blank = replicate 20 (0 :: 8 word)
      in if length bytes \<le> 20 then
           (let start_index = 20 - length bytes in Node_Id (take start_index blank @ bytes))
         else (let start = length bytes - 20 in Node_Id (drop start bytes)))"

definition add_id_power_of_2 :: "'e bignum_scheme \<Rightarrow> node_id \<Rightarrow> nat \<Rightarrow> node_id" where
  "add_id_power_of_2 B a i =
     (let id_biguint = node_id_to_biguint B a; two_pow_i = push_bit i 1; two_pow_m = push_bit 160 1;
          result = (id_biguint + two_pow_i) mod two_pow_m
      in biguint_to_node_id B result)"

definition is_between :: "'e bignum_scheme \<Rightarrow> node_id \<Rightarrow> node_id \<Rightarrow> node_id \<Rightarrow> bool" where
  "is_between B a start stop =
     (let id_b = node_id_to_biguint B a; start_b = node_id_to_biguint B start; stopb = node_id_to_biguint B stop
      in if start_b = stopb then False
         else if start_b < stopb then start_b < id_b \<and> id_b \<le> stopb
         else start_b < id_b \<or> id_b \<le> stopb)"

section \<open>The conversions\<close>

lemma node_id_to_biguint_eq: "bignum_ok B \<Longrightarrow> node_id_to_biguint B a = nat_of_id a"
  by (simp add: bignum_ok_def node_id_to_biguint_def nat_of_id_def)

lemma nat_of_biguint_to_node_id:
  assumes "bignum_ok B"
  shows "nat_of_id (biguint_to_node_id B n) = n mod 2 ^ 160"
proof -
  define bs where "bs = to_bytes_be B n"
  have v: "be_value bs = n" using assms by (simp add: bignum_ok_def bs_def)
  show ?thesis
  proof (cases "length bs \<le> 20")
    case True
    have "biguint_to_node_id B n = Node_Id (replicate (20 - length bs) 0 @ bs)"
      using True by (simp add: biguint_to_node_id_def Let_def bs_def [symmetric])
    moreover have "n < 2 ^ 160"
    proof -
      have "n < 256 ^ length bs" using be_value_less [of bs] v by simp
      also have "(256 :: nat) ^ length bs \<le> 256 ^ 20" using True by (intro power_increasing) simp_all
      finally show ?thesis by simp
    qed
    ultimately show ?thesis using True v by (simp add: nat_of_id_def)
  next
    case False
    define hi lo where "hi = take (length bs - 20) bs" and "lo = drop (length bs - 20) bs"
    have lo: "length lo = 20" and bs: "bs = hi @ lo" using False by (simp_all add: hi_def lo_def)
    have "biguint_to_node_id B n = Node_Id lo"
      using False by (simp add: biguint_to_node_id_def Let_def bs_def [symmetric] lo_def)
    then have r: "nat_of_id (biguint_to_node_id B n) = be_value lo" using lo by (simp add: nat_of_id_def)
    have "n = be_value hi * 2 ^ 160 + be_value lo"
      using v bs lo be_value_append [of hi lo] by simp
    moreover have "be_value lo < 2 ^ 160" using be_value_less [of lo] lo by simp
    ultimately show ?thesis using r by simp
  qed
qed

lemma nat_of_add_id:
  assumes "bignum_ok B"
  shows "nat_of_id (add_id_power_of_2 B a i) = (nat_of_id a + 2 ^ i) mod 2 ^ 160"
  by (simp add: add_id_power_of_2_def Let_def node_id_to_biguint_eq [OF assms]
      nat_of_biguint_to_node_id [OF assms] push_bit_eq_mult del: push_bit_of_1)

section \<open>The circle\<close>

text \<open>The clockwise distance from one identifier to another.\<close>

definition ring_dist :: "node_id \<Rightarrow> node_id \<Rightarrow> nat" where
  "ring_dist a b = (nat_of_id b + 2 ^ 160 - nat_of_id a) mod 2 ^ 160"

lemma ring_dist_cases:
  "ring_dist a b = (if nat_of_id a \<le> nat_of_id b then nat_of_id b - nat_of_id a
                    else nat_of_id b + 2 ^ 160 - nat_of_id a)"
proof -
  have wrap: "(b + M - a) mod M = (if a \<le> b then b - a else b + M - a)" if "a < M" "b < M" for a b M :: nat
    using that by (auto simp: mod_if)
  show ?thesis unfolding ring_dist_def by (rule wrap) (rule nat_of_id_less)+
qed

lemma is_between_iff:
  assumes "bignum_ok B"
  shows "is_between B x a b \<longleftrightarrow> a \<noteq> b \<and> x \<noteq> a \<and> ring_dist a x \<le> ring_dist a b"
proof -
  have arith: "(if a = b then False else if a < b then a < x \<and> x \<le> b else a < x \<or> x \<le> b) \<longleftrightarrow>
      a \<noteq> b \<and> x \<noteq> a \<and>
      (if a \<le> x then x - a else x + M - a) \<le> (if a \<le> b then b - a else b + M - a)"
    if "a < M" "b < M" "x < M" for a b x M :: nat
    using that by auto
  show ?thesis
    unfolding is_between_def Let_def node_id_to_biguint_eq [OF assms] ring_dist_cases
    by (subst arith [OF nat_of_id_less nat_of_id_less nat_of_id_less]) simp
qed

text \<open>
  What routing relies on: half-open arcs, seen from their start, are ordered by inclusion. From these laws a
  ring of nodes has at most one node responsible for an identifier.
\<close>

locale ring_interval =
  fixes btw :: "'a \<Rightarrow> 'a \<Rightarrow> 'a \<Rightarrow> bool"
  assumes start_out: "\<not> btw a a b"
    and stop_in: "a \<noteq> b \<Longrightarrow> btw b a b"
    and arc_trans: "btw x a y \<Longrightarrow> btw y a b \<Longrightarrow> btw x a b"
    and arc_suffix: "btw y a b \<Longrightarrow> btw x y b \<Longrightarrow> btw x a b"
    and arc_antisym: "btw x a y \<Longrightarrow> btw y a x \<Longrightarrow> x = y"
    and nearer: "p \<noteq> q \<Longrightarrow> p \<noteq> x \<Longrightarrow> q \<noteq> x \<Longrightarrow> btw q p x \<or> btw p q x"
begin

text \<open>Hopping to a node before the target leaves fewer nodes before it.\<close>

lemma hop_closer:
  assumes "finite N" "c \<in> N" "btw c p x" "c \<noteq> x"
  shows "card {q \<in> N. btw q c x \<and> q \<noteq> x} < card {q \<in> N. btw q p x \<and> q \<noteq> x}"
proof (rule psubset_card_mono)
  show "finite {q \<in> N. btw q p x \<and> q \<noteq> x}" using assms(1) by simp
  have "{q \<in> N. btw q c x \<and> q \<noteq> x} \<subseteq> {q \<in> N. btw q p x \<and> q \<noteq> x}"
    using arc_suffix [OF assms(3)] by blast
  moreover have "c \<in> {q \<in> N. btw q p x \<and> q \<noteq> x}" "c \<notin> {q \<in> N. btw q c x \<and> q \<noteq> x}"
    using assms start_out by blast+
  ultimately show "{q \<in> N. btw q c x \<and> q \<noteq> x} \<subset> {q \<in> N. btw q p x \<and> q \<noteq> x}" by blast
qed

lemma owner_aux:
  assumes "btw x p sp" "btw q p x" "q \<noteq> x"
  shows "btw q p sp \<and> q \<noteq> sp"
  using assms arc_trans arc_antisym by blast

lemma owner_unique:
  assumes "\<And>r t. r \<in> N \<Longrightarrow> t \<in> N \<Longrightarrow> btw t r (s r) \<Longrightarrow> t = s r"
    and "p \<in> N" "q \<in> N" "btw x p (s p)" "btw x q (s q)"
  shows "p = q"
proof (rule ccontr)
  assume "p \<noteq> q"
  moreover have "p \<noteq> x" "q \<noteq> x" using assms(4,5) start_out by blast+
  ultimately consider "btw q p x" | "btw p q x" using nearer by blast
  then show False
  proof cases
    case 1
    then show ?thesis using owner_aux [OF assms(4) 1 \<open>q \<noteq> x\<close>] assms(1) [OF assms(2,3)] by blast
  next
    case 2
    then show ?thesis using owner_aux [OF assms(5) 2 \<open>p \<noteq> x\<close>] assms(1) [OF assms(3,2)] by blast
  qed
qed

end

text \<open>The conversions computed, as the crate documents them.\<close>

fun be_digits :: "nat \<Rightarrow> bytes" where
  "be_digits n = (if n < 256 then [of_nat n] else be_digits (n div 256) @ [of_nat n])"

declare be_digits.simps [simp del]

definition std_bignum :: bignum where
  "std_bignum = \<lparr>from_bytes_be = be_value, to_bytes_be = be_digits\<rparr>"

lemma be_value_be_digits: "be_value (be_digits n) = n"
proof (induction n rule: be_digits.induct)
  case (1 n)
  show ?case
  proof (cases "n < 256")
    case True
    then show ?thesis by (simp add: be_digits.simps [of n] be_value_Cons unsigned_of_nat take_bit_nat_eq_self)
  next
    case False
    with 1 show ?thesis by (simp add: be_digits.simps [of n] unsigned_of_nat take_bit_eq_mod)
  qed
qed

lemma be_digits_hd: "0 < n \<Longrightarrow> be_digits n \<noteq> [] \<and> hd (be_digits n) \<noteq> 0"
proof (induction n rule: be_digits.induct)
  case (1 n)
  show ?case
  proof (cases "n < 256")
    case True
    have "unat (of_nat n :: 8 word) = n" using True by (simp add: unsigned_of_nat take_bit_nat_eq_self)
    with 1(2) have "(of_nat n :: 8 word) \<noteq> 0" by (metis unat_0 less_irrefl)
    with True show ?thesis by (simp add: be_digits.simps [of n])
  next
    case False
    then have "be_digits (n div 256) \<noteq> [] \<and> hd (be_digits (n div 256)) \<noteq> 0" using 1(1) by simp
    with False show ?thesis by (simp add: be_digits.simps [of n])
  qed
qed

lemma std_bignum_ok: "bignum_ok std_bignum"
  by (simp add: bignum_ok_def std_bignum_def be_value_be_digits be_digits_hd be_digits.simps [of 0])

lemma ring_dist_less: "ring_dist a b < 2 ^ 160"
  by (simp add: ring_dist_def)

lemma ring_dist_inject: "ring_dist a x = ring_dist a y \<longleftrightarrow> x = y"
  using nat_of_id_less [of a] nat_of_id_less [of x] nat_of_id_less [of y]
  by (auto simp: ring_dist_cases split: if_splits simp flip: nat_of_id_inject)

lemma ring_nearer:
  "p \<noteq> q \<Longrightarrow> p \<noteq> x \<Longrightarrow> q \<noteq> x \<Longrightarrow> ring_dist p q \<le> ring_dist p x \<or> ring_dist q p \<le> ring_dist q x"
  using nat_of_id_less [of p] nat_of_id_less [of q] nat_of_id_less [of x]
  by (auto simp: ring_dist_cases)

lemma ring_suffix:
  "y \<noteq> a \<Longrightarrow> ring_dist a y \<le> ring_dist a b \<Longrightarrow> y \<noteq> b \<Longrightarrow> x \<noteq> y \<Longrightarrow> ring_dist y x \<le> ring_dist y b \<Longrightarrow>
   x \<noteq> a \<and> ring_dist a x \<le> ring_dist a b"
  using nat_of_id_less [of a] nat_of_id_less [of b] nat_of_id_less [of x] nat_of_id_less [of y]
  by (auto simp: ring_dist_cases split: if_splits simp flip: nat_of_id_inject)

lemma ring_interval_is_between:
  assumes "bignum_ok B"
  shows "ring_interval (is_between B)"
proof unfold_locales
  fix p q x :: node_id
  assume "p \<noteq> q" "p \<noteq> x" "q \<noteq> x"
  then show "is_between B q p x \<or> is_between B p q x"
    using ring_nearer [of p q x] by (simp add: is_between_iff [OF assms])
next
  fix x a y :: node_id
  assume "is_between B x a y" "is_between B y a x"
  then have "ring_dist a x = ring_dist a y" by (simp add: is_between_iff [OF assms])
  then show "x = y" by (simp add: ring_dist_inject)
next
  fix y a b x :: node_id
  assume "is_between B y a b" "is_between B x y b"
  then show "is_between B x a b" using ring_suffix [of y a b x] by (simp add: is_between_iff [OF assms])
qed (auto simp: is_between_iff [OF assms])

interpretation ring: ring_interval "is_between std_bignum"
  by (rule ring_interval_is_between) (rule std_bignum_ok)

lemma is_between_std: "bignum_ok B \<Longrightarrow> is_between B = is_between std_bignum"
  by (simp add: fun_eq_iff is_between_iff std_bignum_ok)

section \<open>Properties\<close>

text \<open>
  C24. \<open>is_between\<close> is membership in the clockwise half-open arc: an identifier lies in \<open>(start, end]\<close> exactly when
  the ends differ, it is not the start, and walking clockwise from the start one meets it no later than the
  end; in particular an arc with equal ends is empty, wherever the circle wraps around.
\<close>

theorem is_between_clockwise:
  assumes "bignum_ok B"
  shows "is_between B x start stop \<longleftrightarrow>
    start \<noteq> stop \<and> x \<noteq> start \<and>
    (nat_of_id x + 2 ^ 160 - nat_of_id start) mod 2 ^ 160 \<le> (nat_of_id stop + 2 ^ 160 - nat_of_id start) mod 2 ^ 160"
  using is_between_iff [OF assms] by (simp add: ring_dist_def)

theorem is_between_clockwise_witness:
  "is_between std_bignum (id_of_nat 3) (id_of_nat (2 ^ 160 - 1)) (id_of_nat 7) \<and>
   \<not> is_between std_bignum (id_of_nat 9) (id_of_nat (2 ^ 160 - 1)) (id_of_nat 7)"
  by (simp add: is_between_clockwise [OF std_bignum_ok] id_of_nat_eq_iff)

text \<open>
  The finger targets: \<open>add_id_power_of_2\<close> adds \<open>2^i\<close> on the circle, with wrap-around and for every \<open>i\<close>, and the
  target of each finger of the table (\<open>i < 160\<close>) differs from the identifier itself. The result is padded to
  20 bytes whatever number of bytes the big integer needs.
\<close>

theorem add_id_power_of_2_spec:
  assumes "bignum_ok B"
  shows "nat_of_id (add_id_power_of_2 B a i) = (nat_of_id a + 2 ^ i) mod 2 ^ 160 \<and>
    (i < 160 \<longrightarrow> add_id_power_of_2 B a i \<noteq> a)"
proof -
  have step: "(n + d) mod M \<noteq> n" if "0 < d" "d < M" for n d M :: nat
  proof
    assume "(n + d) mod M = n"
    then have "(n + d) mod M = n mod M" by (metis mod_mod_trivial)
    then have "(n + d - n) mod M = 0" by (metis le_add1 mod_eq_dvd_iff_nat mod_eq_0_iff_dvd)
    with that show False by simp
  qed
  have "i < 160 \<Longrightarrow> (2 :: nat) ^ i < 2 ^ 160" by (rule power_strict_increasing) simp_all
  then show ?thesis
    using step [of "2 ^ i" "2 ^ 160" "nat_of_id a"] nat_of_add_id [OF assms, of a i]
    by (auto simp flip: nat_of_id_inject)
qed

theorem add_id_power_of_2_spec_witness:
  "nat_of_id (add_id_power_of_2 std_bignum (id_of_nat (2 ^ 160 - 1)) 3) = 7"
  using add_id_power_of_2_spec [OF std_bignum_ok, of "id_of_nat (2 ^ 160 - 1)" 3] by simp

text \<open>
  The two conversions: every identifier survives the trip through a big integer, and a big integer of any
  size keeps exactly its low 160 bits.
\<close>

theorem node_id_roundtrip:
  assumes "bignum_ok B"
  shows "biguint_to_node_id B (node_id_to_biguint B a) = a \<and>
    node_id_to_biguint B (biguint_to_node_id B n) = n mod 2 ^ 160"
  using nat_of_id_less [of a]
  by (simp add: nat_of_biguint_to_node_id [OF assms] node_id_to_biguint_eq [OF assms] flip: nat_of_id_inject)

theorem node_id_roundtrip_witness:
  "biguint_to_node_id std_bignum (node_id_to_biguint std_bignum (id_of_nat 5)) = id_of_nat 5 \<and>
   node_id_to_biguint std_bignum (biguint_to_node_id std_bignum (2 ^ 160 + 9)) = 9"
  using node_id_roundtrip [OF std_bignum_ok, of "id_of_nat 5" "2 ^ 160 + 9"] by simp

end
