(* ===== verification/Chord_State.thy ===== *)
theory Chord_State
  imports Complex_Main Node_Id Wasm
begin

text \<open>
  The state of a DHT node (\<open>ChordNode\<close> of \<open>node/src/node.rs\<close>), the messages nodes exchange
  (\<open>lib/src/dht_messages.rs\<close>) and what a node's code runs in: hashing, the iteration order of hash maps, and
  the network together with everything else that runs on the node while a call is awaited.
\<close>

section \<open>Messages\<close>

record node_info =
  ni_id :: node_id
  ni_address :: string
  ni_api_address :: string

text \<open>The metrics a message carries are a type parameter: routing and storage only hand them on.\<close>

datatype 'm dht_message =
    Error_message string
  | FindSuccessor node_id
  | FoundSuccessor node_id string string
  | FindPredecessor node_id
  | FoundPredecessor node_id string string
  | Notify node_id string string
  | GetPredecessor
  | Predecessor "node_id option" "string option" "string option"
  | Store node_id bytes
  | Retrieve node_id
  | Retrieved node_id "bytes list option"
  | ClosestPrecedingNode node_id
  | FoundClosestPrecedingNode node_id string string
  | GetSuccessor
  | Ping
  | Pong
  | GetDataRange node_id node_id
  | DataRange "(node_id \<times> bytes list) list"
  | ShareMetrics 'm
  | MetricsShared 'm
  | ReplicateData node_id "bytes list" "8 word"
  | ReplicationAck node_id bool
  | RequestReplicas node_id node_id
  | ReplicaData "(node_id \<times> bytes list) list"

section \<open>The node\<close>

text \<open>
  A mutex is poisoned when a thread panicked while it held it; \<open>safe_lock\<close> then yields nothing, and each
  operation has a branch for that. \<open>poisoned\<close> records it per field.
\<close>

datatype mutex =
    M_successor | M_successor_list | M_predecessor | M_finger_table | M_data | M_virtual_nodes
  | M_node_loads | M_metrics

text \<open>A 32-bit floating-point load: not a number, infinite, or finite.\<close>

datatype load = Load_NaN | Load_minus_inf | Load rat | Load_inf

record 'm chord_node =
  info :: node_info
  successor :: node_info
  successor_list :: "node_info list"
  predecessor :: "node_info option"
  finger_table :: "node_info list"
  data :: "node_id \<rightharpoonup> bytes list"
  virtual_nodes :: "node_id list"
  node_loads :: "node_id \<rightharpoonup> load"
  metrics :: 'm
  shutdown_signal :: bool
  active_connections :: "32 word"
  poisoned :: "mutex \<Rightarrow> bool"

definition safe_lock :: "mutex \<Rightarrow> ('m chord_node \<Rightarrow> 'v) \<Rightarrow> 'm chord_node \<Rightarrow> 'v option" where
  "safe_lock m field n = (if poisoned n m then None else Some (field n))"

definition safe_update :: "mutex \<Rightarrow> ('m chord_node \<Rightarrow> 'm chord_node) \<Rightarrow> 'm chord_node \<Rightarrow> bool \<times> 'm chord_node" where
  "safe_update m f n = (if poisoned n m then (False, n) else (True, f n))"

section \<open>The environment\<close>

text \<open>
  \<open>sha1\<close> is the crate's digest (20 bytes, hence an identifier). \<open>data_order\<close> is the order in which the
  standard library's \<open>HashMap\<close> iterates: some order of its keys, each once.
\<close>

record env = bignum +
  sha1 :: "bytes \<Rightarrow> node_id"
  data_order :: "(node_id \<rightharpoonup> bytes list) \<Rightarrow> node_id list"

definition env_ok :: "env \<Rightarrow> bool" where
  "env_ok E \<longleftrightarrow> bignum_ok E \<and>
     (\<forall>m. finite (dom m) \<longrightarrow> distinct (data_order E m) \<and> set (data_order E m) = dom m)"

definition data_iter :: "env \<Rightarrow> (node_id \<rightharpoonup> bytes list) \<Rightarrow> (node_id \<times> bytes list) list" where
  "data_iter E m = map (\<lambda>k. (k, case m k of None \<Rightarrow> [] | Some vs \<Rightarrow> vs)) (data_order E m)"

text \<open>
  \<open>call_node\<close>: given the address, the message, the node and the rest of the world, the answer or an error, the
  node as it is when the call returns (other tasks run meanwhile), and the new world.
\<close>

type_synonym ('m, 'w) dht =
  "string \<Rightarrow> 'm dht_message \<Rightarrow> 'm chord_node \<Rightarrow> 'w \<Rightarrow> (string + 'm dht_message) \<times> 'm chord_node \<times> 'w"

definition dht_rely :: "('m chord_node \<Rightarrow> 'm chord_node \<Rightarrow> bool) \<Rightarrow> ('m, 'w) dht \<Rightarrow> bool" where
  "dht_rely R net \<longleftrightarrow> (\<forall>a m n w. R n (fst (snd (net a m n w))))"

text \<open>The same for the node and the rest of the world together.\<close>

definition dht_along :: "('m chord_node \<times> 'w \<Rightarrow> 'm chord_node \<times> 'w \<Rightarrow> bool) \<Rightarrow> ('m, 'w) dht \<Rightarrow> bool" where
  "dht_along Q net \<longleftrightarrow> (\<forall>a m n w. Q (n, w) (snd (net a m n w)))"

lemma dht_alongD: "dht_along Q net \<Longrightarrow> net a m n w = (r, n', w') \<Longrightarrow> Q (n, w) (n', w')"
  unfolding dht_along_def by (metis snd_conv)

lemma rely_along: "dht_rely R net \<Longrightarrow> dht_along (\<lambda>x y. R (fst x) (fst y)) net"
  by (simp add: dht_rely_def dht_along_def)

lemma dht_relyD: "dht_rely R net \<Longrightarrow> net a m n w = (r, n', w') \<Longrightarrow> R n n'"
  unfolding dht_rely_def by (metis fst_conv snd_conv)

section \<open>Construction\<close>

definition M_bits :: nat where "M_bits = 160"
definition SUCCESSOR_LIST_SIZE :: nat where "SUCCESSOR_LIST_SIZE = 3"
definition REPLICATION_FACTOR :: nat where "REPLICATION_FACTOR = 3"
definition VIRTUAL_NODES_PER_NODE :: nat where "VIRTUAL_NODES_PER_NODE = 32"

definition generate_node_id :: "env \<Rightarrow> string \<Rightarrow> node_id" where
  "generate_node_id E address = sha1 E (js_to_utf8 address)"

definition generate_virtual_nodes :: "env \<Rightarrow> string \<Rightarrow> node_id list" where
  "generate_virtual_nodes E address =
     sort (map (\<lambda>i. sha1 E (js_to_utf8 (address @ '':'' @ js_show_nat i))) [0..<VIRTUAL_NODES_PER_NODE])"

definition new_node :: "env \<Rightarrow> 'm \<Rightarrow> string \<Rightarrow> string \<Rightarrow> 'm chord_node" where
  "new_node E default_metrics address api_address =
     (let i = \<lparr>ni_id = generate_node_id E address, ni_address = address, ni_api_address = api_address\<rparr>
      in \<lparr>info = i, successor = i, successor_list = replicate SUCCESSOR_LIST_SIZE i, predecessor = None,
          finger_table = replicate M_bits i, data = Map.empty,
          virtual_nodes = generate_virtual_nodes E address, node_loads = Map.empty,
          metrics = default_metrics, shutdown_signal = False, active_connections = 0,
          poisoned = (\<lambda>_. False)\<rparr>)"

end
