(* ===== verification/Routing.thy ===== *)
theory Routing
  imports Chord_State
begin

text \<open>
  Lookup in the ring (\<open>node/src/node.rs\<close>): \<open>closest_preceding_node\<close>, the iterative \<open>find_predecessor\<close> with its
  limit of ten hops, \<open>find_successor\<close> with its fallbacks, and the lookup with virtual nodes. Every remote
  call may fail or answer anything; the lemmas say what is returned then, and that in a ring whose nodes
  answer truthfully the node responsible for the identifier is found.
\<close>

section \<open>The code\<close>

text \<open>The answers a caller can use; anything else, and every error, is \<open>None\<close>.\<close>

fun found_successor :: "string + 'm dht_message \<Rightarrow> node_info option" where
  "found_successor (Inr (FoundSuccessor i a api)) = Some \<lparr>ni_id = i, ni_address = a, ni_api_address = api\<rparr>"
| "found_successor _ = None"

fun found_closest :: "string + 'm dht_message \<Rightarrow> node_info option" where
  "found_closest (Inr (FoundClosestPrecedingNode i a api)) = Some \<lparr>ni_id = i, ni_address = a, ni_api_address = api\<rparr>"
| "found_closest _ = None"

fun is_pong :: "string + 'm dht_message \<Rightarrow> bool" where
  "is_pong (Inr Pong) = True"
| "is_pong _ = False"

definition closest_preceding_node :: "env \<Rightarrow> node_id \<Rightarrow> 'm chord_node \<Rightarrow> node_info" where
  "closest_preceding_node E key n =
     (case safe_lock M_finger_table finger_table n of
        None \<Rightarrow> info n
      | Some table \<Rightarrow>
          (case List.find (\<lambda>f. is_between E (ni_id f) (ni_id (info n)) key) (rev (take M_bits table)) of
             None \<Rightarrow> info n
           | Some f \<Rightarrow> f))"

text \<open>The next hop of \<open>find_predecessor\<close> and the successor of a hop; \<open>None\<close> when there is no usable answer.\<close>

definition next_hop ::
  "env \<Rightarrow> ('m, 'w) dht \<Rightarrow> node_id \<Rightarrow> node_info \<Rightarrow> 'm chord_node \<Rightarrow> 'w \<Rightarrow> node_info option \<times> 'm chord_node \<times> 'w"
where
  "next_hop E net key p n w =
     (if ni_id p = ni_id (info n) then (Some (closest_preceding_node E key n), n, w)
      else (let (r, n1, w1) = net (ni_address p) (ClosestPrecedingNode key) n w in (found_closest r, n1, w1)))"

definition successor_of ::
  "('m, 'w) dht \<Rightarrow> node_info \<Rightarrow> 'm chord_node \<Rightarrow> 'w \<Rightarrow> node_info option \<times> 'm chord_node \<times> 'w"
where
  "successor_of net p n w =
     (if ni_id p = ni_id (info n) then (safe_lock M_successor successor n, n, w)
      else (let (r, n1, w1) = net (ni_address p) GetSuccessor n w in (found_successor r, n1, w1)))"

text \<open>The loop, with the retries left.\<close>

fun find_predecessor_loop ::
  "env \<Rightarrow> ('m, 'w) dht \<Rightarrow> node_id \<Rightarrow> nat \<Rightarrow> node_info \<Rightarrow> node_info \<Rightarrow> 'm chord_node \<Rightarrow> 'w \<Rightarrow>
   node_info \<times> 'm chord_node \<times> 'w"
where
  "find_predecessor_loop E net key retries n_prime current_successor n w =
     (if is_between E key (ni_id n_prime) (ni_id current_successor) then (n_prime, n, w)
      else (case retries of
              0 \<Rightarrow> (n_prime, n, w)
            | Suc k \<Rightarrow>
                (case next_hop E net key n_prime n w of
                   (None, n1, w1) \<Rightarrow> (n_prime, n1, w1)
                 | (Some next_node, n1, w1) \<Rightarrow>
                     if ni_id next_node = ni_id n_prime then (n_prime, n1, w1)
                     else (case successor_of net next_node n1 w1 of
                             (None, n2, w2) \<Rightarrow> (next_node, n2, w2)
                           | (Some s, n2, w2) \<Rightarrow> find_predecessor_loop E net key k next_node s n2 w2))))"

declare find_predecessor_loop.simps [simp del]

definition MAX_HOPS :: nat where "MAX_HOPS = 10"

definition find_predecessor ::
  "env \<Rightarrow> ('m, 'w) dht \<Rightarrow> node_id \<Rightarrow> 'm chord_node \<Rightarrow> 'w \<Rightarrow> node_info \<times> 'm chord_node \<times> 'w"
where
  "find_predecessor E net key n w =
     (case safe_lock M_successor successor n of
        None \<Rightarrow> (info n, n, w)
      | Some s \<Rightarrow> find_predecessor_loop E net key MAX_HOPS (info n) s n w)"

fun first_alive ::
  "('m, 'w) dht \<Rightarrow> node_info list \<Rightarrow> 'm chord_node \<Rightarrow> 'w \<Rightarrow> node_info option \<times> 'm chord_node \<times> 'w"
where
  "first_alive net [] n w = (None, n, w)"
| "first_alive net (s # ss) n w =
     (if ni_id s = ni_id (info n) then first_alive net ss n w
      else (let (r, n1, w1) = net (ni_address s) Ping n w
            in if is_pong r then (Some s, n1, w1) else first_alive net ss n1 w1))"

definition find_next_available_successor ::
  "('m, 'w) dht \<Rightarrow> 'm chord_node \<Rightarrow> 'w \<Rightarrow> node_info option \<times> 'm chord_node \<times> 'w"
where
  "find_next_available_successor net n w =
     (case safe_lock M_successor_list successor_list n of
        None \<Rightarrow> (None, n, w)
      | Some ss \<Rightarrow> first_alive net ss n w)"

definition own_successor :: "'m chord_node \<Rightarrow> node_info" where
  "own_successor n = (case safe_lock M_successor successor n of Some s \<Rightarrow> s | None \<Rightarrow> info n)"

definition find_successor ::
  "env \<Rightarrow> ('m, 'w) dht \<Rightarrow> node_id \<Rightarrow> 'm chord_node \<Rightarrow> 'w \<Rightarrow> node_info \<times> 'm chord_node \<times> 'w"
where
  "find_successor E net key n w =
     (let (p, n1, w1) = find_predecessor E net key n w
      in if ni_id p = ni_id (info n1) then (own_successor n1, n1, w1)
         else (let (r, n2, w2) = net (ni_address p) GetSuccessor n1 w1
               in case found_successor r of
                    Some s \<Rightarrow> (s, n2, w2)
                  | None \<Rightarrow>
                      (case find_next_available_successor net n2 w2 of
                         (Some next_available, n3, w3) \<Rightarrow> (next_available, n3, w3)
                       | (None, n3, w3) \<Rightarrow> (own_successor n3, n3, w3))))"

definition find_successor_with_virtual_nodes ::
  "env \<Rightarrow> ('m, 'w) dht \<Rightarrow> node_id \<Rightarrow> 'm chord_node \<Rightarrow> 'w \<Rightarrow> node_info \<times> 'm chord_node \<times> 'w"
where
  "find_successor_with_virtual_nodes E net key n w =
     (if (case safe_lock M_virtual_nodes virtual_nodes n of
            None \<Rightarrow> False
          | Some vs \<Rightarrow> List.find (\<lambda>v. is_between E key (ni_id (info n)) v \<or> key = v) vs \<noteq> None)
      then (info n, n, w)
      else find_successor E net key n w)"

section \<open>Relations kept across calls\<close>

text \<open>
  The interface of every operation that only asks other nodes: it moves the node and the world along any preorder
  along which the calls do.
\<close>

locale call_relation =
  fixes Q :: "'m chord_node \<times> 'w \<Rightarrow> 'm chord_node \<times> 'w \<Rightarrow> bool"
  assumes Q_refl: "Q x x"
    and Q_trans: "Q x y \<Longrightarrow> Q y z \<Longrightarrow> Q x z"
begin

lemma next_hop_Q: "dht_along Q net \<Longrightarrow> next_hop E net key p n w = (r, n', w') \<Longrightarrow> Q (n, w) (n', w')"
  by (auto simp: next_hop_def Q_refl dest!: dht_alongD split: if_splits prod.splits)

lemma successor_of_Q: "dht_along Q net \<Longrightarrow> successor_of net p n w = (r, n', w') \<Longrightarrow> Q (n, w) (n', w')"
  by (auto simp: successor_of_def Q_refl dest!: dht_alongD split: if_splits prod.splits)

lemma find_predecessor_loop_Q:
  "dht_along Q net \<Longrightarrow> find_predecessor_loop E net key k p s n w = (r, n', w') \<Longrightarrow> Q (n, w) (n', w')"
proof (induction k arbitrary: p s n w)
  case 0
  then show ?case by (simp add: find_predecessor_loop.simps [of _ _ _ 0] Q_refl split: if_splits)
next
  case (Suc k)
  from Suc.prems(2) show ?case
    by (subst (asm) find_predecessor_loop.simps)
       (auto split: if_splits prod.splits option.splits simp: Q_refl
         dest!: next_hop_Q [OF Suc.prems(1)] successor_of_Q [OF Suc.prems(1)] Suc.IH [OF Suc.prems(1)]
         intro: Q_trans)
qed

lemma find_predecessor_Q: "dht_along Q net \<Longrightarrow> find_predecessor E net key n w = (r, n', w') \<Longrightarrow> Q (n, w) (n', w')"
  by (auto simp: find_predecessor_def Q_refl split: option.splits intro: find_predecessor_loop_Q)

lemma first_alive_Q: "dht_along Q net \<Longrightarrow> first_alive net ss n w = (r, n', w') \<Longrightarrow> Q (n, w) (n', w')"
proof (induction ss arbitrary: n w)
  case (Cons s ss)
  obtain x n1 w1 where c: "net (ni_address s) Ping n w = (x, n1, w1)" by (cases "net (ni_address s) Ping n w") auto
  have "Q (n, w) (n1, w1)" using Cons.prems(1) c by (rule dht_alongD)
  with Cons c show ?case
    by (auto split: if_splits intro: Q_trans)
qed (simp add: Q_refl)

lemma find_next_available_successor_Q:
  "dht_along Q net \<Longrightarrow> find_next_available_successor net n w = (r, n', w') \<Longrightarrow> Q (n, w) (n', w')"
  by (auto simp: find_next_available_successor_def Q_refl split: option.splits intro: first_alive_Q)

lemma find_successor_Q:
  assumes "dht_along Q net" "find_successor E net key n w = (r, n', w')"
  shows "Q (n, w) (n', w')"
proof -
  obtain p n1 w1 where p: "find_predecessor E net key n w = (p, n1, w1)"
    by (cases "find_predecessor E net key n w") auto
  obtain x n2 w2 where c: "net (ni_address p) GetSuccessor n1 w1 = (x, n2, w2)"
    by (cases "net (ni_address p) GetSuccessor n1 w1") auto
  obtain y n3 w3 where a: "find_next_available_successor net n2 w2 = (y, n3, w3)"
    by (cases "find_next_available_successor net n2 w2") auto
  have "Q (n, w) (n1, w1)" "Q (n1, w1) (n2, w2)" "Q (n2, w2) (n3, w3)"
    using find_predecessor_Q [OF assms(1) p] dht_alongD [OF assms(1) c]
      find_next_available_successor_Q [OF assms(1) a] by blast+
  moreover have "(n', w') \<in> {(n1, w1), (n2, w2), (n3, w3)}"
    using assms(2) p c a
    by (auto simp: find_successor_def split: if_splits option.splits)
  ultimately show ?thesis by (blast intro: Q_trans)
qed

lemma find_successor_with_virtual_nodes_Q:
  "dht_along Q net \<Longrightarrow> find_successor_with_virtual_nodes E net key n w = (r, n', w') \<Longrightarrow> Q (n, w) (n', w')"
  by (auto simp: find_successor_with_virtual_nodes_def Q_refl
      split: if_splits option.splits intro: find_successor_Q)

end

text \<open>Relations on the node alone.\<close>

locale node_relation =
  fixes R :: "'m chord_node \<Rightarrow> 'm chord_node \<Rightarrow> bool"
  assumes R_refl: "R n n"
    and R_trans: "R n n' \<Longrightarrow> R n' n'' \<Longrightarrow> R n n''"
begin

end

sublocale node_relation \<subseteq> paired: call_relation "\<lambda>x y. R (fst x) (fst y)"
  by unfold_locales (auto intro: R_refl R_trans)

context node_relation
begin

lemma next_hop_R: "dht_rely R net \<Longrightarrow> next_hop E net key p n w = (r, n', w') \<Longrightarrow> R n n'"
  by (drule rely_along, drule (1) paired.next_hop_Q) simp

lemma successor_of_R: "dht_rely R net \<Longrightarrow> successor_of net p n w = (r, n', w') \<Longrightarrow> R n n'"
  by (drule rely_along, drule (1) paired.successor_of_Q) simp

lemma find_predecessor_loop_R: "dht_rely R net \<Longrightarrow> find_predecessor_loop E net key k p s n w = (r, n', w') \<Longrightarrow> R n n'"
  by (drule rely_along, drule (1) paired.find_predecessor_loop_Q) simp

lemma find_predecessor_R: "dht_rely R net \<Longrightarrow> find_predecessor E net key n w = (r, n', w') \<Longrightarrow> R n n'"
  by (drule rely_along, drule (1) paired.find_predecessor_Q) simp

lemma first_alive_R: "dht_rely R net \<Longrightarrow> first_alive net ss n w = (r, n', w') \<Longrightarrow> R n n'"
  by (drule rely_along, drule (1) paired.first_alive_Q) simp

lemma find_next_available_successor_R: "dht_rely R net \<Longrightarrow> find_next_available_successor net n w = (r, n', w') \<Longrightarrow> R n n'"
  by (drule rely_along, drule (1) paired.find_next_available_successor_Q) simp

lemma find_successor_R: "dht_rely R net \<Longrightarrow> find_successor E net key n w = (r, n', w') \<Longrightarrow> R n n'"
  by (drule rely_along, drule (1) paired.find_successor_Q) simp

lemma find_successor_with_virtual_nodes_R: "dht_rely R net \<Longrightarrow> find_successor_with_virtual_nodes E net key n w = (r, n', w') \<Longrightarrow> R n n'"
  by (drule rely_along, drule (1) paired.find_successor_with_virtual_nodes_Q) simp

end

section \<open>An ideal ring\<close>

text \<open>
  The specification of a ring: its members, with the successor of each. Successors are right when no member
  lies strictly inside an arc; the responsible node of an identifier is the one that ends the arc around it.
\<close>

definition ideal_ring :: "env \<Rightarrow> node_info set \<Rightarrow> (node_info \<Rightarrow> node_info) \<Rightarrow> bool" where
  "ideal_ring E N succ \<longleftrightarrow> finite N \<and> inj_on ni_id N \<and>
     (\<forall>p\<in>N. succ p \<in> N \<and> (\<forall>q\<in>N. is_between E (ni_id q) (ni_id p) (ni_id (succ p)) \<longrightarrow> q = succ p))"

definition responsible :: "env \<Rightarrow> node_info set \<Rightarrow> (node_info \<Rightarrow> node_info) \<Rightarrow> node_id \<Rightarrow> node_info \<Rightarrow> bool" where
  "responsible E N succ key r \<longleftrightarrow> (\<exists>p\<in>N. r = succ p \<and> is_between E key (ni_id p) (ni_id r))"

lemma responsible_unique:
  assumes "bignum_ok E" "ideal_ring E N succ" "responsible E N succ key r" "responsible E N succ key r'"
  shows "r = r'"
proof -
  have B: "is_between E = is_between std_bignum" using assms(1) by (rule is_between_std)
  define s where "s i = ni_id (succ (the_inv_into N ni_id i))" for i
  have inj: "inj_on ni_id N" using assms(2) by (simp add: ideal_ring_def)
  have s: "s (ni_id p) = ni_id (succ p)" if "p \<in> N" for p
    using that inj by (simp add: s_def the_inv_into_f_f)
  obtain p p' where p: "p \<in> N" "p' \<in> N" "r = succ p" "r' = succ p'"
    "is_between E key (ni_id p) (ni_id (succ p))" "is_between E key (ni_id p') (ni_id (succ p'))"
    using assms(3,4) by (auto simp: responsible_def)
  have "ni_id p = ni_id p'"
  proof (rule ring.owner_unique [where N = "ni_id ` N" and s = s and x = key])
    fix i t
    assume "i \<in> ni_id ` N" "t \<in> ni_id ` N" "is_between std_bignum t i (s i)"
    then obtain a b where "a \<in> N" "b \<in> N" "i = ni_id a" "t = ni_id b"
      "is_between E (ni_id b) (ni_id a) (ni_id (succ a))" by (auto simp: s B)
    moreover from this have "b = succ a" using assms(2) unfolding ideal_ring_def by blast
    ultimately show "t = s i" by (simp add: s)
  qed (use p in \<open>auto simp: s B\<close>)
  with inj p show ?thesis by (simp add: inj_on_eq_iff)
qed

text \<open>
  A network of members that answer truthfully: their successors are the ring's, and the closest preceding node
  a member names for an identifier beyond its successor is a member strictly between the two. What a node
  itself knows does not change while it waits.
\<close>

definition same_routing :: "'m chord_node \<Rightarrow> 'm chord_node \<Rightarrow> bool" where
  "same_routing n n' \<longleftrightarrow> info n' = info n \<and> successor n' = successor n \<and> finger_table n' = finger_table n \<and>
     poisoned n' = poisoned n"

interpretation routing_kept: node_relation same_routing
  by unfold_locales (auto simp: same_routing_def)

definition truthful ::
  "env \<Rightarrow> node_info set \<Rightarrow> (node_info \<Rightarrow> node_info) \<Rightarrow> (node_info \<Rightarrow> node_info) \<Rightarrow> node_id \<Rightarrow> 'm chord_node \<Rightarrow>
   ('m, 'w) dht \<Rightarrow> bool"
where
  "truthful E N succ hop key me net \<longleftrightarrow>
     (\<forall>q\<in>N. \<forall>n w. ni_id q \<noteq> ni_id (info me) \<longrightarrow>
        found_successor (fst (net (ni_address q) GetSuccessor n w)) = Some (succ q) \<and>
        found_closest (fst (net (ni_address q) (ClosestPrecedingNode key) n w)) = Some (hop q)) \<and>
     (\<forall>q\<in>N. \<not> is_between E key (ni_id q) (ni_id (succ q)) \<longrightarrow>
        hop q \<in> N \<and> ni_id (hop q) \<noteq> key \<and> is_between E (ni_id (hop q)) (ni_id q) key)"

definition member :: "env \<Rightarrow> node_info set \<Rightarrow> (node_info \<Rightarrow> node_info) \<Rightarrow> (node_info \<Rightarrow> node_info) \<Rightarrow> node_id \<Rightarrow>
  'm chord_node \<Rightarrow> bool"
where
  "member E N succ hop key n \<longleftrightarrow> info n \<in> N \<and> successor n = succ (info n) \<and> \<not> poisoned n M_successor \<and>
     closest_preceding_node E key n = hop (info n)"

lemma closest_same_routing:
  "same_routing n n' \<Longrightarrow> closest_preceding_node E key n' = closest_preceding_node E key n"
  by (simp add: same_routing_def closest_preceding_node_def safe_lock_def cong: option.case_cong)

lemma member_same_routing:
  "same_routing n n' \<Longrightarrow> member E N succ hop key n \<Longrightarrow> member E N succ hop key n'"
  using closest_same_routing [of n n' E key] by (simp add: same_routing_def member_def)

lemma next_hop_truthful:
  assumes "truthful E N succ hop key n net" "inj_on ni_id N" "member E N succ hop key n" "p \<in> N"
  shows "fst (next_hop E net key p n w) = Some (hop p)"
proof (cases "ni_id p = ni_id (info n)")
  case True
  with assms have "p = info n" by (auto simp: member_def dest: inj_onD)
  with assms(3) show ?thesis by (simp add: next_hop_def member_def)
next
  case False
  with assms(1,4) show ?thesis by (simp add: next_hop_def truthful_def split_beta)
qed

lemma successor_of_truthful:
  assumes "truthful E N succ hop key n net" "inj_on ni_id N" "member E N succ hop key n" "p \<in> N"
  shows "fst (successor_of net p n w) = Some (succ p)"
proof (cases "ni_id p = ni_id (info n)")
  case True
  with assms have "p = info n" by (auto simp: member_def dest: inj_onD)
  with assms(3) show ?thesis by (simp add: successor_of_def safe_lock_def member_def)
next
  case False
  with assms(1,4) show ?thesis by (simp add: successor_of_def truthful_def split_beta)
qed

text \<open>The number of members strictly between a node and the identifier, which every hop decreases.\<close>

definition nodes_before :: "env \<Rightarrow> node_info set \<Rightarrow> node_info \<Rightarrow> node_id \<Rightarrow> nat" where
  "nodes_before E N p key = card {i \<in> ni_id ` N. is_between E i (ni_id p) key \<and> i \<noteq> key}"

lemma truthful_same_routing: "same_routing n n' \<Longrightarrow> truthful E N succ hop key n' net = truthful E N succ hop key n net"
  by (simp add: same_routing_def truthful_def)

lemma find_predecessor_loop_truthful:
  assumes "bignum_ok E" "finite N" "inj_on ni_id N" "dht_rely same_routing net"
    and "truthful E N succ hop key n net" "member E N succ hop key n" "p \<in> N" "nodes_before E N p key \<le> k"
    and "find_predecessor_loop E net key k p (succ p) n w = (r, n', w')"
  shows "r \<in> N \<and> is_between E key (ni_id r) (ni_id (succ r))"
  using assms(5-)
proof (induction k arbitrary: p n w)
  case 0
  show ?case
  proof (cases "is_between E key (ni_id p) (ni_id (succ p))")
    case False
    with 0 have "hop p \<in> N" "ni_id (hop p) \<noteq> key" "is_between E (ni_id (hop p)) (ni_id p) key"
      by (auto simp: truthful_def)
    then have "ni_id (hop p) \<in> {i \<in> ni_id ` N. is_between E i (ni_id p) key \<and> i \<noteq> key}" by simp
    with assms(2) 0(4) show ?thesis by (auto simp: nodes_before_def card_eq_0_iff)
  qed (use 0 in \<open>simp add: find_predecessor_loop.simps [of _ _ _ 0]\<close>)
next
  case (Suc k)
  show ?case
  proof (cases "is_between E key (ni_id p) (ni_id (succ p))")
    case False
    with Suc.prems have hop: "hop p \<in> N" "ni_id (hop p) \<noteq> key" "is_between E (ni_id (hop p)) (ni_id p) key"
      by (auto simp: truthful_def)
    have less: "nodes_before E N (hop p) key < nodes_before E N p key"
      unfolding nodes_before_def
      using ring_interval.hop_closer [OF ring_interval_is_between [OF assms(1)], of "ni_id ` N"] assms(2) hop by simp
    have ne: "ni_id (hop p) \<noteq> ni_id p" using hop(3) by (auto simp: is_between_iff [OF assms(1)])
    obtain n1 w1 where h: "next_hop E net key p n w = (Some (hop p), n1, w1)"
      using next_hop_truthful [OF Suc.prems(1) assms(3) Suc.prems(2,3), of w]
      by (cases "next_hop E net key p n w") auto
    have s1: "same_routing n n1" using routing_kept.next_hop_R [OF assms(4) h] .
    note t1 = truthful_same_routing [OF s1, THEN iffD2, OF Suc.prems(1)]
      and m1 = member_same_routing [OF s1 Suc.prems(2)]
    obtain n2 w2 where c: "successor_of net (hop p) n1 w1 = (Some (succ (hop p)), n2, w2)"
      using successor_of_truthful [OF t1 assms(3) m1 hop(1), of w1]
      by (cases "successor_of net (hop p) n1 w1") auto
    have s2: "same_routing n1 n2" using routing_kept.successor_of_R [OF assms(4) c] .
    have "find_predecessor_loop E net key k (hop p) (succ (hop p)) n2 w2 = (r, n', w')"
      using Suc.prems(5) False h c ne by (simp add: find_predecessor_loop.simps [of _ _ _ "Suc k"])
    moreover have "nodes_before E N (hop p) key \<le> k" using less Suc.prems(4) by simp
    ultimately show ?thesis
      using Suc.IH [OF truthful_same_routing [OF s2, THEN iffD2, OF t1] member_same_routing [OF s2 m1] hop(1)]
      by blast
  qed (use Suc.prems in \<open>simp add: find_predecessor_loop.simps [of _ _ _ "Suc k"]\<close>)
qed

lemma nodes_before_le:
  assumes "bignum_ok E" "finite N" "inj_on ni_id N" "p \<in> N"
  shows "nodes_before E N p key < card N"
proof -
  have "card {i \<in> ni_id ` N. is_between E i (ni_id p) key \<and> i \<noteq> key} < card (ni_id ` N)"
    using assms(2,4) by (intro psubset_card_mono) (auto simp: is_between_iff [OF assms(1)])
  then show ?thesis using assms(3) by (simp add: nodes_before_def card_image)
qed

section \<open>Properties of lookup\<close>

lemma find_predecessor_truthful:
  assumes "bignum_ok E" "ideal_ring E N succ" "dht_rely same_routing net"
    and "truthful E N succ hop key n net" "member E N succ hop key n" "card N \<le> Suc MAX_HOPS"
    and "find_predecessor E net key n w = (r, n', w')"
  shows "r \<in> N \<and> is_between E key (ni_id r) (ni_id (succ r)) \<and> same_routing n n'"
proof -
  have N: "finite N" "inj_on ni_id N" and me: "info n \<in> N" using assms(2,5) by (auto simp: ideal_ring_def member_def)
  have "find_predecessor_loop E net key MAX_HOPS (info n) (succ (info n)) n w = (r, n', w')"
    using assms(5,7) by (simp add: find_predecessor_def safe_lock_def member_def)
  moreover have "nodes_before E N (info n) key \<le> MAX_HOPS"
    using nodes_before_le [OF assms(1) N me, of key] assms(6) by simp
  ultimately show ?thesis
    using find_predecessor_loop_truthful [OF assms(1) N assms(3-5) me]
      routing_kept.find_predecessor_R [OF assms(3,7)] by blast
qed

text \<open>
  C16. In a ring of at most eleven members (the hop limit and one) that answer truthfully, every member finds for
  every identifier the one node responsible for it: the node that ends the arc around the identifier. The
  lookup ends before its limit, and none of its fallbacks is used.
\<close>

theorem find_successor_correct:
  assumes "bignum_ok E" "ideal_ring E N succ" "dht_rely same_routing net"
    and "truthful E N succ hop key n net" "member E N succ hop key n" "card N \<le> Suc MAX_HOPS"
  shows "responsible E N succ key (fst (find_successor E net key n w)) \<and>
    (\<forall>r. responsible E N succ key r \<longrightarrow> r = fst (find_successor E net key n w))"
proof -
  obtain p n1 w1 where p: "find_predecessor E net key n w = (p, n1, w1)"
    by (cases "find_predecessor E net key n w") auto
  have r: "p \<in> N" "is_between E key (ni_id p) (ni_id (succ p))" "same_routing n n1"
    using find_predecessor_truthful [OF assms p] by auto
  have m1: "member E N succ hop key n1" and t1: "truthful E N succ hop key n1 net"
    using member_same_routing [OF r(3) assms(5)] truthful_same_routing [OF r(3), THEN iffD2, OF assms(4)] by auto
  have "fst (find_successor E net key n w) = succ p"
  proof (cases "ni_id p = ni_id (info n1)")
    case True
    then have "p = info n1" using r(1) m1 assms(2) by (auto simp: ideal_ring_def member_def dest: inj_onD)
    then show ?thesis using m1 p by (simp add: find_successor_def own_successor_def safe_lock_def member_def)
  next
    case False
    then show ?thesis using t1 p r(1) by (simp add: find_successor_def truthful_def split_beta)
  qed
  then have "responsible E N succ key (fst (find_successor E net key n w))"
    using r by (auto simp: responsible_def)
  then show ?thesis using responsible_unique [OF assms(1,2)] by blast
qed

text \<open>A ring of three nodes, used by the closed examples.\<close>

definition example_env :: env where
  "example_env = \<lparr>from_bytes_be = be_value, to_bytes_be = be_digits, sha1 = (\<lambda>_. id_of_nat 25),
     data_order = (\<lambda>m. sorted_list_of_set (dom m))\<rparr>"

definition peer :: "nat \<Rightarrow> string \<Rightarrow> node_info" where
  "peer i a = \<lparr>ni_id = id_of_nat i, ni_address = a, ni_api_address = a\<rparr>"

definition peer_a :: node_info where "peer_a = peer 10 ''a''"
definition peer_b :: node_info where "peer_b = peer 20 ''b''"
definition peer_c :: node_info where "peer_c = peer 30 ''c''"

definition next_peer :: "node_info \<Rightarrow> node_info" where
  "next_peer p = (if p = peer_a then peer_b else if p = peer_b then peer_c else peer_a)"

definition peer_at :: "string \<Rightarrow> node_info" where
  "peer_at a = (if a = ''a'' then peer_a else if a = ''b'' then peer_b else peer_c)"

text \<open>Every node answers with its successor, also when asked for the closest preceding node.\<close>

definition ring_net :: "(unit, unit) dht" where
  "ring_net a m n w =
     (let s = next_peer (peer_at a)
      in (case m of
            GetSuccessor \<Rightarrow> Inr (FoundSuccessor (ni_id s) (ni_address s) (ni_api_address s))
          | ClosestPrecedingNode _ \<Rightarrow> Inr (FoundClosestPrecedingNode (ni_id s) (ni_address s) (ni_api_address s))
          | Ping \<Rightarrow> Inr Pong
          | _ \<Rightarrow> Inl ''refused'', n, w))"

definition node_a :: "unit chord_node" where
  "node_a =
     \<lparr>info = peer_a, successor = peer_b, successor_list = [peer_b, peer_c], predecessor = Some peer_c,
      finger_table = [peer_b], data = Map.empty, virtual_nodes = [], node_loads = Map.empty, metrics = (),
      shutdown_signal = False, active_connections = 0, poisoned = (\<lambda>_. False)\<rparr>"

lemma node_a_fields [simp]:
  "info node_a = peer_a" "successor node_a = peer_b" "predecessor node_a = Some peer_c"
  "successor_list node_a = [peer_b, peer_c]" "data node_a = Map.empty" "\<not> poisoned node_a m"
  by (simp_all add: node_a_def)

lemma example_env_ok: "env_ok example_env"
  using std_bignum_ok by (auto simp: env_ok_def bignum_ok_def example_env_def std_bignum_def)

lemma example_bignum_ok: "bignum_ok example_env"
  using example_env_ok by (simp add: env_ok_def)

lemma example_between:
  "is_between example_env (id_of_nat x) (id_of_nat a) (id_of_nat b) \<longleftrightarrow>
   id_of_nat a \<noteq> id_of_nat b \<and> id_of_nat x \<noteq> id_of_nat a \<and>
   (x mod 2 ^ 160 + 2 ^ 160 - a mod 2 ^ 160) mod 2 ^ 160 \<le> (b mod 2 ^ 160 + 2 ^ 160 - a mod 2 ^ 160) mod 2 ^ 160"
  by (simp add: is_between_iff [OF example_bignum_ok] ring_dist_def)

lemmas peers = peer_a_def peer_b_def peer_c_def peer_def

lemma peers_distinct [simp]: "peer_a \<noteq> peer_b" "peer_b \<noteq> peer_a" "peer_a \<noteq> peer_c" "peer_c \<noteq> peer_a"
  "peer_b \<noteq> peer_c" "peer_c \<noteq> peer_b"
  by (simp_all add: peers)

lemma next_peer_simps [simp]: "next_peer peer_a = peer_b" "next_peer peer_b = peer_c" "next_peer peer_c = peer_a"
  by (simp_all add: next_peer_def)

lemma peer_fields [simp]:
  "ni_id peer_a = id_of_nat 10" "ni_id peer_b = id_of_nat 20" "ni_id peer_c = id_of_nat 30"
  "ni_address peer_a = ''a''" "ni_address peer_b = ''b''" "ni_address peer_c = ''c''"
  by (simp_all add: peers)

lemma example_ring: "ideal_ring example_env {peer_a, peer_b, peer_c} next_peer"
  by (simp add: ideal_ring_def id_of_nat_eq_iff example_between inj_on_def)

lemma ring_net_answers [simp]:
  "found_successor (fst (ring_net a GetSuccessor n w)) = Some (next_peer (peer_at a))"
  "found_closest (fst (ring_net a (ClosestPrecedingNode k) n w)) = Some (next_peer (peer_at a))"
  by (simp_all add: ring_net_def Let_def)

theorem find_successor_correct_witness:
  "fst (find_successor example_env ring_net (id_of_nat 25) node_a ()) = peer_c"
proof -
  let ?N = "{peer_a, peer_b, peer_c}"
  have t: "truthful example_env ?N next_peer next_peer (id_of_nat 25) node_a ring_net"
    by (simp add: truthful_def id_of_nat_eq_iff example_between peer_at_def)
  have m: "member example_env ?N next_peer next_peer (id_of_nat 25) node_a"
    by (simp add: member_def node_a_def closest_preceding_node_def safe_lock_def M_bits_def id_of_nat_eq_iff
        example_between)
  have r: "dht_rely same_routing ring_net"
    by (simp add: dht_rely_def ring_net_def same_routing_def Let_def)
  have "responsible example_env ?N next_peer (id_of_nat 25) peer_c"
    unfolding responsible_def by (rule bexI [of _ peer_b]) (simp_all add: id_of_nat_eq_iff example_between)
  with find_successor_correct [OF example_bignum_ok example_ring r t m, of "()"]
  show ?thesis by (simp add: MAX_HOPS_def)
qed

lemma lookup_unfixed:
  assumes "bignum_ok E" "\<forall>f\<in>set (finger_table n). ni_id f = ni_id (info n)"
  shows "find_successor E net key n w = (own_successor n, n, w)"
proof -
  have self: "\<not> is_between E (ni_id f) (ni_id (info n)) key" if "f \<in> set (finger_table n)" for f
    using assms that by (simp add: is_between_iff)
  have "closest_preceding_node E key n = info n"
    using self by (auto simp: closest_preceding_node_def safe_lock_def dest!: find_Some_D in_set_takeD
        split: option.split)
  then have "find_predecessor_loop E net key k (info n) s n w = (info n, n, w)" for k s
    by (subst find_predecessor_loop.simps) (simp add: next_hop_def split: nat.split)
  then show ?thesis by (simp add: find_successor_def find_predecessor_def split: option.split)
qed

text \<open>
  A node whose finger table still holds only itself, as after start-up and until \<open>fix_fingers\<close> has replaced
  an entry, answers every lookup with its own successor, without asking any other node: the search for a
  preceding node looks at the fingers only, not at the successor. In a ring of three, most such answers
  are wrong.
\<close>

theorem unfixed_fingers_misroute:
  assumes "bignum_ok E" "\<forall>f\<in>set (finger_table n). ni_id f = ni_id (info n)"
  shows "find_successor E net key n w = (own_successor n, n, w) \<and>
    (\<forall>N succ r. responsible E N succ key r \<and> r \<noteq> own_successor n \<longrightarrow>
       \<not> (\<exists>w'. find_successor E net key n w = (r, n, w')))"
  by (auto simp: lookup_unfixed [OF assms])

theorem unfixed_fingers_misroute_witness:
  "fst (find_successor example_env ring_net (id_of_nat 25) (node_a\<lparr>finger_table := replicate 160 peer_a\<rparr>) ()) = peer_b \<and>
   responsible example_env {peer_a, peer_b, peer_c} next_peer (id_of_nat 25) peer_c"
proof -
  let ?n = "node_a\<lparr>finger_table := replicate 160 peer_a\<rparr>"
  have "\<forall>f\<in>set (finger_table ?n). ni_id f = ni_id (info ?n)" by (simp add: node_a_def)
  from unfixed_fingers_misroute [OF example_bignum_ok this, of ring_net "id_of_nat 25" "()"]
  have "fst (find_successor example_env ring_net (id_of_nat 25) ?n ()) = own_successor ?n" by simp
  moreover have "responsible example_env {peer_a, peer_b, peer_c} next_peer (id_of_nat 25) peer_c"
    unfolding responsible_def by (rule bexI [of _ peer_b]) (simp_all add: id_of_nat_eq_iff example_between)
  ultimately show ?thesis by (simp add: own_successor_def safe_lock_def node_a_def)
qed

lemma closest_preceding_self:
  assumes "bignum_ok E"
  shows "closest_preceding_node E (ni_id (info n)) n = info n"
  by (auto simp: closest_preceding_node_def is_between_iff [OF assms] dest!: find_Some_D split: option.split)

text \<open>
  C39. The arc test of \<open>closest_preceding_node\<close> includes the identifier itself (its comment says exclusive). So when
  a lookup for the identifier of a node reaches that node, it goes one step too far: the answer is the node's
  successor, although the node itself is the one responsible for its own identifier.
\<close>

theorem lookup_of_node_id_overshoots:
  assumes "bignum_ok E" "ideal_ring E N succ" "dht_rely same_routing net"
    and "info n \<in> N" "successor n = succ (info n)" "\<not> poisoned n M_successor"
    and "q \<in> N" "q \<noteq> info n" "q \<noteq> succ (info n)" "closest_preceding_node E (ni_id q) n = q"
    and "\<And>n w. found_successor (fst (net (ni_address q) GetSuccessor n w)) = Some (succ q)"
    and "\<And>n w. found_closest (fst (net (ni_address q) (ClosestPrecedingNode (ni_id q)) n w)) = Some q"
  shows "fst (find_successor E net (ni_id q) n w) = succ q"
proof -
  have inj: "inj_on ni_id N" using assms(2) by (simp add: ideal_ring_def)
  then have ne: "ni_id q \<noteq> ni_id (info n)" using assms(4,7,8) by (auto dest: inj_onD)
  have "\<not> is_between E (ni_id q) (ni_id (info n)) (ni_id (succ (info n)))"
    using assms(2,4,7,9) unfolding ideal_ring_def by blast
  moreover obtain n1 w1 where s: "successor_of net q n w = (Some (succ q), n1, w1)" "same_routing n n1"
  proof -
    obtain r n1 w1 where r: "successor_of net q n w = (r, n1, w1)" by (cases "successor_of net q n w") auto
    have "r = Some (succ q)" using r assms(11) [of n w] ne by (auto simp: successor_of_def split_beta)
    with r that routing_kept.successor_of_R [OF assms(3) r] show ?thesis by blast
  qed
  moreover have "\<not> is_between E (ni_id q) (ni_id q) (ni_id (succ q))" by (simp add: is_between_iff [OF assms(1)])
  moreover obtain n2 w2 where h: "next_hop E net (ni_id q) q n1 w1 = (Some q, n2, w2)" "same_routing n1 n2"
  proof -
    obtain r n2 w2 where r: "next_hop E net (ni_id q) q n1 w1 = (r, n2, w2)"
      by (cases "next_hop E net (ni_id q) q n1 w1") auto
    have "r = Some q" using r assms(12) [of n1 w1] ne s(2) by (auto simp: next_hop_def split_beta same_routing_def)
    with r that routing_kept.next_hop_R [OF assms(3) r] show ?thesis by blast
  qed
  ultimately have "find_predecessor_loop E net (ni_id q) (Suc (Suc k)) (info n) (succ (info n)) n w = (q, n2, w2)" for k
    using assms(10) ne
    by (simp add: find_predecessor_loop.simps [of _ _ _ "Suc j" for j] next_hop_def [of _ _ _ "info n"])
  from this [of 8] have "find_predecessor E net (ni_id q) n w = (q, n2, w2)"
    using assms(5,6) by (simp add: find_predecessor_def safe_lock_def MAX_HOPS_def)
  then show ?thesis
    using assms(11) [of n2 w2] ne s(2) h(2) by (simp add: find_successor_def split_beta same_routing_def)
qed

text \<open>A network that answers as above, with the node asked as its own closest preceding node.\<close>

definition exact_net :: "(unit, unit) dht" where
  "exact_net a m n w =
     (case m of
        ClosestPrecedingNode k \<Rightarrow>
          (let p = peer_at a in (Inr (FoundClosestPrecedingNode (ni_id p) (ni_address p) (ni_api_address p)), n, w))
      | _ \<Rightarrow> ring_net a m n w)"

theorem lookup_of_node_id_overshoots_witness:
  "fst (find_successor example_env exact_net (id_of_nat 30) (node_a\<lparr>finger_table := [peer_c]\<rparr>) ()) = peer_a \<and>
   responsible example_env {peer_a, peer_b, peer_c} next_peer (id_of_nat 30) peer_c"
proof
  let ?n = "node_a\<lparr>finger_table := [peer_c]\<rparr>"
  have r: "dht_rely same_routing exact_net"
    by (simp add: dht_rely_def exact_net_def ring_net_def same_routing_def Let_def split: dht_message.split)
  have "fst (find_successor example_env exact_net (ni_id peer_c) ?n ()) = next_peer peer_c"
  proof (rule lookup_of_node_id_overshoots [OF example_bignum_ok example_ring r])
    show "closest_preceding_node example_env (ni_id peer_c) ?n = peer_c"
      by (simp add: closest_preceding_node_def safe_lock_def node_a_def M_bits_def id_of_nat_eq_iff example_between)
  qed (simp_all add: node_a_def exact_net_def peer_at_def Let_def)
  then show "fst (find_successor example_env exact_net (id_of_nat 30) ?n ()) = peer_a" by simp
  show "responsible example_env {peer_a, peer_b, peer_c} next_peer (id_of_nat 30) peer_c"
    unfolding responsible_def by (rule bexI [of _ peer_b]) (simp_all add: id_of_nat_eq_iff example_between)
qed

end
