(* ===== verification/Node_Storage.thy ===== *)
theory Node_Storage
  imports Routing "HOL-Library.Multiset"
begin

text \<open>
  The data of a DHT node (\<open>node/src/node.rs\<close>): storing with replication, the choice of replicas, retrieving
  locally and from replicas, range queries, and the handlers of the replication messages.
\<close>

section \<open>The code\<close>

text \<open>\<open>entry(key).or_default()\<close>, extended by some values.\<close>

definition extend_entry :: "node_id \<Rightarrow> bytes list \<Rightarrow> 'm chord_node \<Rightarrow> 'm chord_node" where
  "extend_entry key vs n =
     n\<lparr>data := (data n)(key \<mapsto> (case data n key of None \<Rightarrow> [] | Some old \<Rightarrow> old) @ vs)\<rparr>"

fun dedup_by_key :: "('a \<Rightarrow> 'k) \<Rightarrow> 'a list \<Rightarrow> 'a list" where
  "dedup_by_key f (x # y # xs) =
     (if f y = f x then dedup_by_key f (x # xs) else x # dedup_by_key f (y # xs))"
| "dedup_by_key f xs = xs"

definition every_nth :: "nat \<Rightarrow> 'a list \<Rightarrow> 'a list" where
  "every_nth k xs = map snd (filter (\<lambda>(i, _). i mod k = 0) (enumerate 0 xs))"

text \<open>
  \<open>partial_cmp\<close> on loads, as "strictly less"; a load that is not a number compares equal to everything. The
  stable sort is the standard library's for loads that are numbers (its order is unspecified otherwise).
\<close>

fun load_less :: "load \<Rightarrow> load \<Rightarrow> bool" where
  "load_less Load_minus_inf (Load _) = True"
| "load_less Load_minus_inf Load_inf = True"
| "load_less (Load a) (Load b) = (a < b)"
| "load_less (Load _) Load_inf = True"
| "load_less _ _ = False"

fun insert_by :: "('a \<Rightarrow> 'a \<Rightarrow> bool) \<Rightarrow> 'a \<Rightarrow> 'a list \<Rightarrow> 'a list" where
  "insert_by lt x [] = [x]"
| "insert_by lt x (y # ys) = (if lt y x then y # insert_by lt x ys else x # y # ys)"

definition sort_by :: "('a \<Rightarrow> 'a \<Rightarrow> bool) \<Rightarrow> 'a list \<Rightarrow> 'a list" where
  "sort_by lt xs = foldr (insert_by lt) xs []"

definition load_of :: "(node_id \<rightharpoonup> load) \<Rightarrow> load \<Rightarrow> node_info \<Rightarrow> load" where
  "load_of loads d i = (case loads (ni_id i) of None \<Rightarrow> d | Some l \<Rightarrow> l)"

definition sort_by_load :: "'m chord_node \<Rightarrow> node_info list \<Rightarrow> node_info list" where
  "sort_by_load n nodes =
     (case safe_lock M_node_loads node_loads n of
        None \<Rightarrow> nodes
      | Some loads \<Rightarrow> sort_by (\<lambda>a b. load_less (load_of loads (Load 0) a) (load_of loads (Load 0) b)) nodes)"

definition locked_list :: "mutex \<Rightarrow> ('m chord_node \<Rightarrow> 'a list) \<Rightarrow> 'm chord_node \<Rightarrow> 'a list" where
  "locked_list m field n = (case safe_lock m field n of None \<Rightarrow> [] | Some xs \<Rightarrow> xs)"

text \<open>The candidates beside the primary node.\<close>

definition replica_candidates :: "node_info \<Rightarrow> 'm chord_node \<Rightarrow> node_info list" where
  "replica_candidates primary n =
     (let candidates = locked_list M_successor_list successor_list n
            @ every_nth 3 (locked_list M_finger_table finger_table n);
          unique = dedup_by_key ni_id (sort_key ni_id candidates)
      in sort_by_load n (filter (\<lambda>c. ni_id c \<noteq> ni_id (info n) \<and> ni_id c \<noteq> ni_id primary) unique))"

definition get_replica_nodes ::
  "env \<Rightarrow> ('m, 'w) dht \<Rightarrow> node_id \<Rightarrow> 'm chord_node \<Rightarrow> 'w \<Rightarrow> node_info list \<times> 'm chord_node \<times> 'w"
where
  "get_replica_nodes E net key n w =
     (let (primary, n1, w1) = find_successor_with_virtual_nodes E net key n w
      in (primary # take (REPLICATION_FACTOR - 1) (replica_candidates primary n1), n1, w1))"

text \<open>One message per replica other than the node itself, numbered from 1; the answers are only logged.\<close>

fun replicate_to ::
  "('m, 'w) dht \<Rightarrow> node_id \<Rightarrow> bytes list \<Rightarrow> nat \<Rightarrow> node_info list \<Rightarrow> 'm chord_node \<Rightarrow> 'w \<Rightarrow> 'm chord_node \<times> 'w"
where
  "replicate_to net key vs i [] n w = (n, w)"
| "replicate_to net key vs i (r # rs) n w =
     (if ni_id r = ni_id (info n) then replicate_to net key vs (Suc i) rs n w
      else (let (_, n1, w1) = net (ni_address r) (ReplicateData key vs (of_nat (i + 1))) n w
            in replicate_to net key vs (Suc i) rs n1 w1))"

definition replicate_data ::
  "env \<Rightarrow> ('m, 'w) dht \<Rightarrow> node_id \<Rightarrow> bytes list \<Rightarrow> 'm chord_node \<Rightarrow> 'w \<Rightarrow> 'm chord_node \<times> 'w"
where
  "replicate_data E net key vs n w =
     (let (replica_nodes, n1, w1) = get_replica_nodes E net key n w
      in replicate_to net key vs 0 replica_nodes n1 w1)"

definition store_value ::
  "env \<Rightarrow> ('m, 'w) dht \<Rightarrow> node_id \<Rightarrow> bytes \<Rightarrow> 'm chord_node \<Rightarrow> 'w \<Rightarrow> 'm chord_node \<times> 'w"
where
  "store_value E net key value n w =
     (case safe_update M_data (extend_entry key [value]) n of
        (False, n1) \<Rightarrow> (n1, w)
      | (True, n1) \<Rightarrow> replicate_data E net key [value] n1 w)"

definition handle_replicate_data ::
  "node_id \<Rightarrow> bytes list \<Rightarrow> 8 word \<Rightarrow> 'm chord_node \<Rightarrow> bool \<times> 'm chord_node"
where
  "handle_replicate_data key vs replica_id n = safe_update M_data (extend_entry key vs) n"

text \<open>The keys of a range, in the order of iteration; both range queries use the same test.\<close>

definition in_range_to :: "env \<Rightarrow> node_id \<Rightarrow> node_id \<Rightarrow> node_id \<Rightarrow> bool" where
  "in_range_to E start stop key \<longleftrightarrow> is_between E key start stop \<or> key = stop"

definition handle_request_replicas ::
  "env \<Rightarrow> node_id \<Rightarrow> node_id \<Rightarrow> 'm chord_node \<Rightarrow> (node_id \<times> bytes list) list"
where
  "handle_request_replicas E start stop n =
     (case safe_lock M_data data n of
        None \<Rightarrow> []
      | Some m \<Rightarrow> filter (\<lambda>(key, _). in_range_to E start stop key) (data_iter E m))"

definition get_data_range ::
  "env \<Rightarrow> node_id \<Rightarrow> node_id \<Rightarrow> 'm chord_node \<Rightarrow> (node_id \<times> bytes list) list"
where
  "get_data_range E start stop n =
     (case safe_lock M_data data n of
        None \<Rightarrow> []
      | Some m \<Rightarrow> filter (\<lambda>(key, _). in_range_to E start stop key) (data_iter E m))"

fun retrieved_value :: "string + 'm dht_message \<Rightarrow> bytes list option" where
  "retrieved_value (Inr (Retrieved _ v)) = v"
| "retrieved_value _ = None"

fun first_retrieved ::
  "('m, 'w) dht \<Rightarrow> node_id \<Rightarrow> node_info list \<Rightarrow> 'm chord_node \<Rightarrow> 'w \<Rightarrow> bytes list option \<times> 'm chord_node \<times> 'w"
where
  "first_retrieved net key [] n w = (None, n, w)"
| "first_retrieved net key (r # rs) n w =
     (if ni_id r = ni_id (info n) then first_retrieved net key rs n w
      else (let (x, n1, w1) = net (ni_address r) (Retrieve key) n w
            in case retrieved_value x of
                 Some v \<Rightarrow> (Some v, n1, w1)
               | None \<Rightarrow> first_retrieved net key rs n1 w1))"

definition retrieve_from_replicas ::
  "env \<Rightarrow> ('m, 'w) dht \<Rightarrow> node_id \<Rightarrow> 'm chord_node \<Rightarrow> 'w \<Rightarrow> bytes list option \<times> 'm chord_node \<times> 'w"
where
  "retrieve_from_replicas E net key n w =
     (let (replica_nodes, n1, w1) = get_replica_nodes E net key n w
      in first_retrieved net key (sort_by_load n1 replica_nodes) n1 w1)"

definition retrieve_value ::
  "env \<Rightarrow> ('m, 'w) dht \<Rightarrow> node_id \<Rightarrow> 'm chord_node \<Rightarrow> 'w \<Rightarrow> bytes list option \<times> 'm chord_node \<times> 'w"
where
  "retrieve_value E net key n w =
     (case safe_lock M_data data n of
        None \<Rightarrow> retrieve_from_replicas E net key n w
      | Some m \<Rightarrow>
          (case m key of
             Some vs \<Rightarrow> (Some vs, n, w)
           | None \<Rightarrow> retrieve_from_replicas E net key n w))"

section \<open>Relations kept across calls\<close>

context call_relation
begin

lemma get_replica_nodes_Q: "dht_along Q net \<Longrightarrow> get_replica_nodes E net key n w = (r, n', w') \<Longrightarrow> Q (n, w) (n', w')"
  by (auto simp: get_replica_nodes_def split: prod.splits dest: find_successor_with_virtual_nodes_Q)

lemma replicate_to_Q: "dht_along Q net \<Longrightarrow> replicate_to net key vs i rs n w = (n', w') \<Longrightarrow> Q (n, w) (n', w')"
proof (induction rs arbitrary: i n w)
  case (Cons r rs)
  obtain x n1 w1 where c: "net (ni_address r) (ReplicateData key vs (of_nat (i + 1))) n w = (x, n1, w1)"
    by (cases "net (ni_address r) (ReplicateData key vs (of_nat (i + 1))) n w") auto
  have "Q (n, w) (n1, w1)" using Cons.prems(1) c by (rule dht_alongD)
  with Cons c show ?case by (auto split: if_splits intro: Q_trans)
qed (simp add: Q_refl)

lemma replicate_data_Q:
  assumes "dht_along Q net" "replicate_data E net key vs n w = (n', w')"
  shows "Q (n, w) (n', w')"
  using assms(2)
  by (auto simp: replicate_data_def split: prod.splits
      dest!: get_replica_nodes_Q [OF assms(1)] replicate_to_Q [OF assms(1)] intro: Q_trans)

lemma first_retrieved_Q: "dht_along Q net \<Longrightarrow> first_retrieved net key rs n w = (x, n', w') \<Longrightarrow> Q (n, w) (n', w')"
proof (induction rs arbitrary: n w)
  case (Cons r rs)
  obtain y n1 w1 where c: "net (ni_address r) (Retrieve key) n w = (y, n1, w1)"
    by (cases "net (ni_address r) (Retrieve key) n w") auto
  have "Q (n, w) (n1, w1)" using Cons.prems(1) c by (rule dht_alongD)
  with Cons c show ?case by (auto split: if_splits option.splits intro: Q_trans)
qed (simp add: Q_refl)

lemma retrieve_from_replicas_Q:
  assumes "dht_along Q net" "retrieve_from_replicas E net key n w = (x, n', w')"
  shows "Q (n, w) (n', w')"
  using assms(2)
  by (auto simp: retrieve_from_replicas_def split: prod.splits
      dest!: get_replica_nodes_Q [OF assms(1)] first_retrieved_Q [OF assms(1)] intro: Q_trans)

lemma retrieve_value_Q:
  assumes "dht_along Q net" "retrieve_value E net key n w = (x, n', w')"
  shows "Q (n, w) (n', w')"
  using assms(2)
  by (auto simp: retrieve_value_def Q_refl split: option.splits dest!: retrieve_from_replicas_Q [OF assms(1)])

end

context node_relation
begin

lemma get_replica_nodes_R: "dht_rely R net \<Longrightarrow> get_replica_nodes E net key n w = (r, n', w') \<Longrightarrow> R n n'"
  by (drule rely_along, drule (1) paired.get_replica_nodes_Q) simp

lemma replicate_to_R: "dht_rely R net \<Longrightarrow> replicate_to net key vs i rs n w = (n', w') \<Longrightarrow> R n n'"
  by (drule rely_along, drule (1) paired.replicate_to_Q) simp

lemma replicate_data_R: "dht_rely R net \<Longrightarrow> replicate_data E net key vs n w = (n', w') \<Longrightarrow> R n n'"
  by (drule rely_along, drule (1) paired.replicate_data_Q) simp

lemma retrieve_value_R: "dht_rely R net \<Longrightarrow> retrieve_value E net key n w = (x, n', w') \<Longrightarrow> R n n'"
  by (drule rely_along, drule (1) paired.retrieve_value_Q) simp

end

text \<open>Operations that write data keep a relation that writing data keeps.\<close>

locale write_relation = call_relation +
  assumes Q_extend: "\<not> poisoned n M_data \<Longrightarrow> Q (n, w) (extend_entry key vs n, w)"
begin

lemma store_value_Q:
  assumes "dht_along Q net" "store_value E net key value n w = (n', w')"
  shows "Q (n, w) (n', w')"
proof (cases "poisoned n M_data")
  case False
  have "Q (extend_entry key [value] n, w) (n', w')"
    using assms False by (auto simp: store_value_def safe_update_def dest: replicate_data_Q)
  with Q_extend [OF False] show ?thesis by (rule Q_trans)
qed (use assms in \<open>simp add: store_value_def safe_update_def Q_refl\<close>)

lemma handle_replicate_data_Q: "handle_replicate_data key vs i n = (b, n') \<Longrightarrow> Q (n, w) (n', w)"
  by (auto simp: handle_replicate_data_def safe_update_def Q_refl Q_extend split: if_splits)

end

locale storage_relation = node_relation +
  assumes R_extend: "\<not> poisoned n M_data \<Longrightarrow> R n (extend_entry key vs n)"

sublocale storage_relation \<subseteq> paired: write_relation "\<lambda>x y. R (fst x) (fst y)"
  by unfold_locales (simp add: R_extend)

context storage_relation
begin

lemma store_value_R: "dht_rely R net \<Longrightarrow> store_value E net key value n w = (n', w') \<Longrightarrow> R n n'"
  by (drule rely_along, drule (1) paired.store_value_Q) simp

lemma handle_replicate_data_R: "handle_replicate_data key vs i n = (b, n') \<Longrightarrow> R n n'"
  by (drule paired.handle_replicate_data_Q) simp

end

section \<open>Data only grows\<close>

definition data_grows :: "'m chord_node \<Rightarrow> 'm chord_node \<Rightarrow> bool" where
  "data_grows n n' \<longleftrightarrow> info n' = info n \<and> poisoned n' M_data = poisoned n M_data \<and>
     (\<forall>k vs. data n k = Some vs \<longrightarrow> (\<exists>vs'. data n' k = Some vs' \<and> prefix vs vs'))"

lemma data_grows_extend: "data_grows n (extend_entry key vs n)"
  unfolding data_grows_def extend_entry_def by simp

lemma data_grows_trans: "data_grows n n' \<Longrightarrow> data_grows n' n'' \<Longrightarrow> data_grows n n''"
proof -
  assume a: "data_grows n n'" "data_grows n' n''"
  have "\<exists>vs''. data n'' k = Some vs'' \<and> prefix vs vs''" if "data n k = Some vs" for k vs
  proof -
    obtain vs' where 1: "data n' k = Some vs'" "prefix vs vs'" using a(1) \<open>data n k = Some vs\<close> by (auto simp: data_grows_def)
    obtain vs'' where "data n'' k = Some vs''" "prefix vs' vs''" using a(2) 1(1) by (auto simp: data_grows_def)
    with 1(2) show ?thesis by (blast intro: prefix_order.trans)
  qed
  with a show ?thesis by (simp add: data_grows_def)
qed

lemma data_grows_refl: "data_grows n n"
  by (simp add: data_grows_def)

interpretation growing: storage_relation data_grows
proof unfold_locales
  show "data_grows n n''" if "data_grows n n'" "data_grows n' n''" for n n' n'' :: "'a chord_node"
    using that by (rule data_grows_trans)
qed (rule data_grows_refl data_grows_extend)+

lemma data_growsD:
  "data_grows n n' \<Longrightarrow> data n k = Some vs \<Longrightarrow> \<exists>vs'. data n' k = Some vs' \<and> prefix vs vs'"
  by (simp add: data_grows_def)

lemma store_value_stored:
  assumes "dht_rely data_grows net" "\<not> poisoned n M_data" "store_value E net key value n w = (n1, w1)"
  shows "\<exists>vs. data n1 key = Some vs \<and> prefix ((case data n key of None \<Rightarrow> [] | Some old \<Rightarrow> old) @ [value]) vs \<and>
    data_grows n n1"
proof -
  have "data_grows (extend_entry key [value] n) n1"
    using assms by (auto simp: store_value_def safe_update_def dest: growing.replicate_data_R)
  moreover have "data (extend_entry key [value] n) key = Some ((case data n key of None \<Rightarrow> [] | Some old \<Rightarrow> old) @ [value])"
    by (simp add: extend_entry_def)
  ultimately show ?thesis using data_growsD growing.store_value_R [OF assms(1,3)] by blast
qed

section \<open>Sorting and duplicates\<close>

lemma mset_insert_by [simp]: "mset (insert_by lt x xs) = add_mset x (mset xs)"
  by (induction xs) auto

lemma mset_sort_by [simp]: "mset (sort_by lt xs) = mset xs"
  unfolding sort_by_def by (induction xs) auto

lemma mset_sort_by_load [simp]: "mset (sort_by_load n xs) = mset xs"
  by (simp add: sort_by_load_def split: option.split)

lemma set_sort_by_load [simp]: "set (sort_by_load n xs) = set xs"
  using mset_sort_by_load by (rule mset_eq_setD)

lemma length_sort_by_load [simp]: "length (sort_by_load n xs) = length xs"
  using mset_sort_by_load by (rule mset_eq_length)

lemma distinct_sort_by_load: "distinct (map f (sort_by_load n xs)) = distinct (map f xs)"
proof -
  have "mset (map f (sort_by_load n xs)) = mset (map f xs)" by simp
  then show ?thesis by (rule mset_eq_imp_distinct_iff)
qed

lemma dedup_by_key_keys: "f ` set (dedup_by_key f xs) = f ` set xs"
  by (induction f xs rule: dedup_by_key.induct) (auto split: if_splits)

lemma distinct_dedup_by_key: "sorted (map f xs) \<Longrightarrow> distinct (map f (dedup_by_key f xs))"
proof (induction f xs rule: dedup_by_key.induct)
  case (1 f x y xs)
  show ?case
  proof (cases "f y = f x")
    case False
    with 1 have "f x \<notin> f ` set (y # xs)" by auto
    with False 1 show ?thesis using dedup_by_key_keys [of f "y # xs"] by auto
  qed (use 1 in auto)
qed auto

lemma candidates_distinct: "distinct (map ni_id (replica_candidates p n))"
proof -
  have "distinct (map ni_id (filter Q (dedup_by_key ni_id (sort_key ni_id xs))))" for Q xs
    by (rule distinct_map_filter) (rule distinct_dedup_by_key, simp)
  then show ?thesis by (simp add: replica_candidates_def Let_def distinct_sort_by_load)
qed

lemma candidates_ids:
  "ni_id ` set (replica_candidates p n) =
   ni_id ` set (locked_list M_successor_list successor_list n @ every_nth 3 (locked_list M_finger_table finger_table n))
     - {ni_id (info n), ni_id p}" (is "_ = ni_id ` set ?xs - _")
proof -
  have "ni_id ` {c \<in> set (dedup_by_key ni_id (sort_key ni_id ?xs)). ni_id c \<noteq> ni_id (info n) \<and> ni_id c \<noteq> ni_id p} =
      ni_id ` set (dedup_by_key ni_id (sort_key ni_id ?xs)) - {ni_id (info n), ni_id p}" by auto
  then show ?thesis by (simp add: replica_candidates_def Let_def dedup_by_key_keys)
qed

section \<open>Properties\<close>

text \<open>
  C23. What a node has stored it finds: after \<open>store\<close> returned, and after anything else that only adds data, a
  retrieval at the node returns all values it held for the key before, in order, then the new value, then
  later ones; it is answered from the node's own data, without a call.
\<close>

theorem store_then_retrieve:
  assumes "dht_rely data_grows net" "\<not> poisoned n M_data"
    and "store_value E net key value n w = (n1, w1)" "data_grows n1 n2"
  shows "\<exists>vs. retrieve_value E net' key n2 w2 = (Some vs, n2, w2) \<and>
    prefix ((case data n key of None \<Rightarrow> [] | Some old \<Rightarrow> old) @ [value]) vs"
proof -
  obtain vs where vs: "data n1 key = Some vs" "data_grows n n1"
    "prefix ((case data n key of None \<Rightarrow> [] | Some old \<Rightarrow> old) @ [value]) vs"
    using store_value_stored [OF assms(1-3)] by blast
  obtain vs' where "data n2 key = Some vs'" "prefix vs vs'" using data_growsD [OF assms(4) vs(1)] by blast
  moreover from vs(2) assms(2,4) have "\<not> poisoned n2 M_data" by (simp add: data_grows_def)
  ultimately show ?thesis
    using vs(3) by (auto simp: retrieve_value_def safe_lock_def intro: prefix_order.trans)
qed

lemma ring_net_rely: "(\<And>n. R n n) \<Longrightarrow> dht_rely R ring_net"
  by (simp add: dht_rely_def ring_net_def Let_def)

theorem store_then_retrieve_witness:
  "\<exists>vs. retrieve_value example_env ring_net (id_of_nat 5)
      (fst (store_value example_env ring_net (id_of_nat 5) [1, 2] node_a ())) () =
     (Some vs, fst (store_value example_env ring_net (id_of_nat 5) [1, 2] node_a ()), ()) \<and> prefix [[1, 2]] vs"
proof -
  let ?r = "store_value example_env ring_net (id_of_nat 5) [1, 2] node_a ()"
  have "\<not> poisoned node_a M_data" by (simp add: node_a_def)
  from store_then_retrieve [OF ring_net_rely [OF data_grows_refl] this, of example_env "id_of_nat 5" "[1, 2]" "()"
      "fst ?r" "snd ?r" "fst ?r" ring_net "()"]
  moreover have "data node_a (id_of_nat 5) = None" by (simp add: node_a_def)
  ultimately show ?thesis by (simp only: prod.collapse data_grows_refl option.case append_Nil simp_thms)
qed

text \<open>
  The replica set of a key: first the node responsible for it, then at most two further nodes, none of them the
  node itself, all with different identifiers; and when there are fewer than two, every node of the successor
  list is already in the set (or is the node itself).
\<close>

theorem replica_nodes_spec:
  assumes "get_replica_nodes E net key n w = (rs, n', w')"
  shows "\<exists>primary others. rs = primary # others \<and>
    primary = fst (find_successor_with_virtual_nodes E net key n w) \<and>
    length others \<le> 2 \<and> distinct (map ni_id rs) \<and> ni_id (info n') \<notin> ni_id ` set others \<and>
    (length others < 2 \<longrightarrow> \<not> poisoned n' M_successor_list \<longrightarrow>
       ni_id ` set (successor_list n') \<subseteq> insert (ni_id (info n')) (ni_id ` set rs))"
proof -
  obtain p where f: "find_successor_with_virtual_nodes E net key n w = (p, n', w')"
    and rs: "rs = p # take 2 (replica_candidates p n')"
    using assms by (auto simp: get_replica_nodes_def REPLICATION_FACTOR_def split: prod.splits)
  let ?c = "replica_candidates p n'"
  have sub: "ni_id ` set (take 2 ?c) \<subseteq> ni_id ` set ?c" using set_take_subset by (rule image_mono)
  have "distinct (map ni_id (take 2 ?c))"
    using candidates_distinct [of p n'] by (metis distinct_take take_map)
  moreover have "ni_id p \<notin> ni_id ` set (take 2 ?c)" "ni_id (info n') \<notin> ni_id ` set (take 2 ?c)"
    using sub candidates_ids [of p n'] by auto
  moreover have "ni_id ` set (successor_list n') \<subseteq> insert (ni_id (info n')) (ni_id ` set rs)"
    if "length (take 2 ?c) < 2" "\<not> poisoned n' M_successor_list"
  proof -
    have "set ?c \<subseteq> set rs" using that(1) rs by (auto simp: min_def split: if_splits)
    then show ?thesis
      using candidates_ids [of p n'] that(2) rs by (auto simp: locked_list_def safe_lock_def)
  qed
  ultimately show ?thesis using f rs by (auto simp: image_iff)
qed

text \<open>
  A range query returns exactly the entries of the node's data whose key lies on the clockwise arc \<open>(start, end]\<close>,
  each once; when the ends are equal, that is the key \<open>end\<close> alone and not the whole circle.
\<close>

theorem get_data_range_spec:
  assumes "env_ok E" "finite (dom (data n))" "\<not> poisoned n M_data"
  shows "distinct (map fst (get_data_range E start stop n)) \<and>
    (\<forall>k vs. (k, vs) \<in> set (get_data_range E start stop n) \<longleftrightarrow>
       data n k = Some vs \<and>
       (if start = stop then k = stop else k \<noteq> start \<and> ring_dist start k \<le> ring_dist start stop))"
proof -
  have B: "bignum_ok E" using assms(1) by (simp add: env_ok_def)
  have o: "distinct (data_order E (data n))" "set (data_order E (data n)) = dom (data n)"
    using assms(1,2) by (simp_all add: env_ok_def)
  have r: "get_data_range E start stop n = filter (\<lambda>(k, _). in_range_to E start stop k) (data_iter E (data n))"
    using assms(3) by (simp add: get_data_range_def safe_lock_def)
  have "map fst (data_iter E (data n)) = data_order E (data n)" by (simp add: data_iter_def o_def)
  then have "distinct (map fst (get_data_range E start stop n))"
    unfolding r using o(1) by (simp add: distinct_map_filter)
  moreover have "in_range_to E start stop k \<longleftrightarrow>
      (if start = stop then k = stop else k \<noteq> start \<and> ring_dist start k \<le> ring_dist start stop)" for k
    by (auto simp: in_range_to_def is_between_iff [OF B])
  moreover have "(k, vs) \<in> set (data_iter E (data n)) \<longleftrightarrow> data n k = Some vs" for k vs
    using o(2) by (auto simp: data_iter_def image_iff split: option.split)
  ultimately show ?thesis by (auto simp: r)
qed

theorem get_data_range_spec_witness:
  "let n = node_a\<lparr>data := [id_of_nat 5 \<mapsto> [[1]], id_of_nat 12 \<mapsto> [[2]]]\<rparr>
   in (id_of_nat 12, [[2]]) \<in> set (get_data_range example_env (id_of_nat 10) (id_of_nat 20) n) \<and>
      (id_of_nat 5, [[1]]) \<notin> set (get_data_range example_env (id_of_nat 10) (id_of_nat 20) n)"
proof -
  let ?n = "node_a\<lparr>data := [id_of_nat 5 \<mapsto> [[1]], id_of_nat 12 \<mapsto> [[2]]]\<rparr>"
  have "finite (dom (data ?n))" "\<not> poisoned ?n M_data" by (simp_all add: node_a_def)
  from get_data_range_spec [OF example_env_ok this, of "id_of_nat 10" "id_of_nat 20"]
  show ?thesis by (simp add: Let_def id_of_nat_eq_iff ring_dist_def)
qed

theorem replica_nodes_spec_witness:
  "\<exists>rs n' w'. get_replica_nodes example_env ring_net (id_of_nat 25) node_a () = (rs, n', w') \<and>
     length rs \<le> 3 \<and> distinct (map ni_id rs)"
proof -
  obtain rs n' w' where r: "get_replica_nodes example_env ring_net (id_of_nat 25) node_a () = (rs, n', w')"
    by (cases "get_replica_nodes example_env ring_net (id_of_nat 25) node_a ()") auto
  from replica_nodes_spec [OF r] have "length rs \<le> 3 \<and> distinct (map ni_id rs)" by auto
  with r show ?thesis by blast
qed

end
