(* ===== verification/Node_Api.thy ===== *)
theory Node_Api
  imports Node_Storage
begin

text \<open>
  The HTTP interface of a node (\<open>node/src/api.rs\<close>): \<open>/connect\<close>, the challenge and the signed poll, and the
  reception of messages. JSON (\<open>serde_json\<close>) and \<open>bincode\<close> are third-party code: their parsers and serializers are
  the fields of \<open>codecs\<close>, with their documented behaviour in \<open>codecs_ok\<close>. Random bytes and the clocks are
  arguments. Instants are in nanoseconds.
\<close>

section \<open>Payloads\<close>

record message_payload =
  mp_to :: string
  mp_from :: string
  mp_ciphertext :: bytes
  mp_nonce :: bytes

record stored_message =
  sm_from :: string
  sm_ciphertext :: bytes
  sm_nonce :: bytes
  sm_timestamp :: nat

record poll_message =
  pl_from :: string
  pl_ciphertext :: bytes
  pl_nonce :: bytes
  pl_timestamp :: nat

record poll_request =
  pr_public_key :: string
  pr_nonce :: bytes
  pr_signature :: bytes

record codecs =
  parse_message :: "bytes \<Rightarrow> message_payload option"
  parse_poll :: "bytes \<Rightarrow> poll_request option"
  serialize_stored :: "stored_message \<Rightarrow> string + bytes"
  deserialize_stored :: "bytes \<Rightarrow> stored_message option"

definition codecs_ok :: "codecs \<Rightarrow> bool" where
  "codecs_ok K \<longleftrightarrow> (\<forall>m. \<exists>bs. serialize_stored K m = Inr bs \<and> deserialize_stored K bs = Some m)"

section \<open>Responses\<close>

datatype 'm reply =
    Reply_error string
  | Reply_pong
  | Reply_node string
  | Reply_nonce string
  | Reply_status string
  | Reply_messages "poll_message list"
  | Reply_metrics 'm
  | Reply_empty

record 'm http_response =
  hr_status :: nat
  hr_reply :: "'m reply"

definition format_response :: "nat \<Rightarrow> 'm reply \<Rightarrow> 'm http_response" where
  "format_response status body = \<lparr>hr_status = status, hr_reply = body\<rparr>"

definition not_found :: "'m http_response" where
  "not_found = format_response 404 (Reply_error ''Not Found'')"

definition ping_handler :: "'m http_response" where
  "ping_handler = format_response 200 Reply_pong"

definition generate_key :: "env \<Rightarrow> string \<Rightarrow> node_id" where
  "generate_key E pk = sha1 E (js_to_utf8 pk)"

section \<open>Connecting\<close>

text \<open>Each attempt looks up a random key (the digest of 20 random bytes) and pings the node found.\<close>

fun connect_attempts ::
  "env \<Rightarrow> ('m, 'w) dht \<Rightarrow> bytes list \<Rightarrow> 'm chord_node \<Rightarrow> 'w \<Rightarrow> 'm http_response \<times> 'm chord_node \<times> 'w"
where
  "connect_attempts E net [] n w =
     (format_response 503 (Reply_error ''Could not find a reachable node in the network''), n, w)"
| "connect_attempts E net (buf # bufs) n w =
     (let (r, n1, w1) = find_successor E net (sha1 E buf) n w
      in if ni_id r = ni_id (info n1) then (format_response 200 (Reply_node (ni_api_address r)), n1, w1)
         else (let (x, n2, w2) = net (ni_address r) Ping n1 w1
               in if is_pong x then (format_response 200 (Reply_node (ni_api_address r)), n2, w2)
                  else connect_attempts E net bufs n2 w2))"

definition MAX_ATTEMPTS :: nat where "MAX_ATTEMPTS = 10"

definition connect_handler ::
  "env \<Rightarrow> ('m, 'w) dht \<Rightarrow> (nat \<Rightarrow> bytes) \<Rightarrow> 'm chord_node \<Rightarrow> 'w \<Rightarrow> 'm http_response \<times> 'm chord_node \<times> 'w"
where
  "connect_handler E net random n w = connect_attempts E net (map random [0..<MAX_ATTEMPTS]) n w"

section \<open>Challenges\<close>

record challenge =
  ch_nonce :: bytes
  ch_timestamp :: nat

text \<open>The static map of challenges; \<open>None\<close> when its mutex is poisoned.\<close>

type_synonym challenges = "(string \<rightharpoonup> challenge) option"

definition CHALLENGE_EXPIRATION :: nat where "CHALLENGE_EXPIRATION = 60 * 10 ^ 9"

definition expired :: "nat \<Rightarrow> challenge \<Rightarrow> bool" where
  "expired now c \<longleftrightarrow> \<not> now - ch_timestamp c < CHALLENGE_EXPIRATION"

text \<open>\<open>str::split\<close> on a character: the pieces between its occurrences, at least one.\<close>

fun split_on :: "char \<Rightarrow> string \<Rightarrow> string list" where
  "split_on d [] = [[]]"
| "split_on d (c # cs) =
     (if c = d then [] # split_on d cs
      else (case split_on d cs of p # ps \<Rightarrow> (c # p) # ps | [] \<Rightarrow> [[c]]))"

definition starts_with :: "string \<Rightarrow> string \<Rightarrow> bool" where
  "starts_with p s \<longleftrightarrow> take (length p) s = p"

definition nth_opt :: "'a list \<Rightarrow> nat \<Rightarrow> 'a option" where
  "nth_opt xs i = (if i < length xs then Some (xs ! i) else None)"

definition query_public_key :: "string option \<Rightarrow> string option" where
  "query_public_key query =
     Option.bind query (\<lambda>q.
     Option.bind (List.find (starts_with ''public_key='') (split_on CHR ''&'' q)) (\<lambda>p.
       nth_opt (split_on CHR ''='' p) 1))"

definition get_challenge_handler ::
  "crypto \<Rightarrow> string option \<Rightarrow> nat \<Rightarrow> bytes \<Rightarrow> challenges \<Rightarrow> 'm http_response \<times> challenges"
where
  "get_challenge_handler P query now random st =
     (case query_public_key query of
        None \<Rightarrow> (format_response 400 (Reply_error ''Missing public_key parameter''), st)
      | Some pk \<Rightarrow>
          (case st of
             None \<Rightarrow> (format_response 500 (Reply_error ''Internal server error''), st)
           | Some challenges \<Rightarrow>
               (let kept = (\<lambda>k. case challenges k of None \<Rightarrow> None
                                | Some c \<Rightarrow> if expired now c then None else Some c);
                    c = \<lparr>ch_nonce = random, ch_timestamp = now\<rparr>
                in (format_response 200 (Reply_nonce (hex_encode P random)), Some (kept(pk \<mapsto> c))))))"

section \<open>Messages\<close>

text \<open>\<open>body\<close> is \<open>None\<close> when reading the request fails; \<open>unix_now\<close> is the time in seconds.\<close>

definition stored_of :: "nat \<Rightarrow> message_payload \<Rightarrow> stored_message" where
  "stored_of unix_now p =
     \<lparr>sm_from = mp_from p, sm_ciphertext = mp_ciphertext p, sm_nonce = mp_nonce p, sm_timestamp = unix_now\<rparr>"

definition message_handler ::
  "codecs \<Rightarrow> env \<Rightarrow> ('m, 'w) dht \<Rightarrow> nat \<Rightarrow> bytes option \<Rightarrow> 'm chord_node \<Rightarrow> 'w \<Rightarrow>
   'm http_response \<times> 'm chord_node \<times> 'w"
where
  "message_handler K E net unix_now body n w =
     (case body of
        None \<Rightarrow> (format_response 400 (Reply_error ''Failed to read request body''), n, w)
      | Some bs \<Rightarrow>
          (case parse_message K bs of
             None \<Rightarrow> (format_response 400 (Reply_error ''Invalid JSON payload''), n, w)
           | Some p \<Rightarrow>
               (let key = generate_key E (mp_to p)
                in case serialize_stored K (stored_of unix_now p) of
                     Inl _ \<Rightarrow> (format_response 500 (Reply_error ''Failed to serialize message''), n, w)
                   | Inr serialized \<Rightarrow>
                       (let (r, n1, w1) = find_successor E net key n w
                        in if ni_id r = ni_id (info n1) then
                             (let (n2, w2) = store_value E net key serialized n1 w1
                              in (format_response 200 (Reply_status ''message received''), n2, w2))
                           else
                             (case net (ni_address r) (Store key serialized) n1 w1 of
                                (Inr _, n2, w2) \<Rightarrow> (format_response 200 (Reply_status ''message received''), n2, w2)
                              | (Inl _, n2, w2) \<Rightarrow>
                                  (format_response 500 (Reply_error ''Failed to store message''), n2, w2))))))"

section \<open>Polling\<close>

text \<open>The locked section: whether the answer to the challenge is valid, and the map without a used challenge.\<close>

definition check_challenge :: "crypto \<Rightarrow> poll_request \<Rightarrow> (string \<rightharpoonup> challenge) \<Rightarrow> bool \<times> (string \<rightharpoonup> challenge)" where
  "check_challenge P p challenges =
     (case challenges (pr_public_key p) of
        None \<Rightarrow> (False, challenges)
      | Some c \<Rightarrow>
          if ch_nonce c = pr_nonce p then
            (if verify P (pr_public_key p) (pr_nonce p) (pr_signature p)
             then (True, challenges(pr_public_key p := None)) else (False, challenges))
          else (False, challenges))"

definition poll_message_of :: "stored_message \<Rightarrow> poll_message" where
  "poll_message_of m =
     \<lparr>pl_from = sm_from m, pl_ciphertext = sm_ciphertext m, pl_nonce = sm_nonce m, pl_timestamp = sm_timestamp m\<rparr>"

definition decode_messages :: "codecs \<Rightarrow> bytes list option \<Rightarrow> poll_message list" where
  "decode_messages K messages_data =
     (case messages_data of
        None \<Rightarrow> []
      | Some vs \<Rightarrow> List.map_filter (\<lambda>v. map_option poll_message_of (deserialize_stored K v)) vs)"

definition fetch_messages ::
  "env \<Rightarrow> ('m, 'w) dht \<Rightarrow> node_id \<Rightarrow> 'm chord_node \<Rightarrow> 'w \<Rightarrow> bytes list option \<times> 'm chord_node \<times> 'w"
where
  "fetch_messages E net key n w =
     (let (r, n1, w1) = find_successor E net key n w
      in if ni_id r = ni_id (info n1) then retrieve_value E net key n1 w1
         else (let (x, n2, w2) = net (ni_address r) (Retrieve key) n1 w1 in (retrieved_value x, n2, w2)))"

definition poll_handler ::
  "crypto \<Rightarrow> codecs \<Rightarrow> env \<Rightarrow> ('m, 'w) dht \<Rightarrow> bytes option \<Rightarrow> challenges \<Rightarrow> 'm chord_node \<Rightarrow> 'w \<Rightarrow>
   'm http_response \<times> challenges \<times> 'm chord_node \<times> 'w"
where
  "poll_handler P K E net body st n w =
     (case body of
        None \<Rightarrow> (format_response 400 (Reply_error ''Failed to read request body''), st, n, w)
      | Some bs \<Rightarrow>
          (case parse_poll K bs of
             None \<Rightarrow> (format_response 400 (Reply_error ''Invalid JSON payload''), st, n, w)
           | Some p \<Rightarrow>
               (case st of
                  None \<Rightarrow> (format_response 500 (Reply_error ''Internal server error''), st, n, w)
                | Some challenges \<Rightarrow>
                    (let (is_valid, challenges') = check_challenge P p challenges
                     in if \<not> is_valid then
                          (format_response 401 (Reply_error ''Invalid challenge response''), Some challenges', n, w)
                        else
                          (let (d, n1, w1) = fetch_messages E net (generate_key E (pr_public_key p)) n w
                           in (format_response 200 (Reply_messages (decode_messages K d)), Some challenges', n1, w1))))))"

definition metrics_handler :: "'m chord_node \<Rightarrow> 'm http_response" where
  "metrics_handler n =
     (case safe_lock M_metrics metrics n of
        None \<Rightarrow> format_response 500 (Reply_error ''Failed to get metrics'')
      | Some m \<Rightarrow> format_response 200 (Reply_metrics m))"

section \<open>The service\<close>

text \<open>
  Everything a node's HTTP side keeps: the challenges and the node. The requests are those the handler
  dispatches on, with what they draw; any other request is answered without touching the state.
\<close>

datatype api_request =
    Get_ping
  | Get_connect "nat \<Rightarrow> bytes"
  | Get_challenge "string option" nat bytes
  | Post_message nat "bytes option"
  | Post_poll "bytes option"
  | Get_metrics
  | Options_request
  | Other_request

definition handle_request ::
  "crypto \<Rightarrow> codecs \<Rightarrow> env \<Rightarrow> ('m, 'w) dht \<Rightarrow> api_request \<Rightarrow> challenges \<Rightarrow> 'm chord_node \<Rightarrow> 'w \<Rightarrow>
   'm http_response \<times> challenges \<times> 'm chord_node \<times> 'w"
where
  "handle_request P K E net req st n w =
     (case req of
        Get_ping \<Rightarrow> (ping_handler, st, n, w)
      | Get_connect random \<Rightarrow> (let (r, n1, w1) = connect_handler E net random n w in (r, st, n1, w1))
      | Get_challenge query now random \<Rightarrow>
          (let (r, st1) = get_challenge_handler P query now random st in (r, st1, n, w))
      | Post_message unix_now body \<Rightarrow>
          (let (r, n1, w1) = message_handler K E net unix_now body n w in (r, st, n1, w1))
      | Post_poll body \<Rightarrow> poll_handler P K E net body st n w
      | Get_metrics \<Rightarrow> (metrics_handler n, st, n, w)
      | Options_request \<Rightarrow> (format_response 200 Reply_empty, st, n, w)
      | Other_request \<Rightarrow> (not_found, st, n, w))"

text \<open>The dispatch on method and path; the draws are those of one request.\<close>

datatype http_method = GET | POST | OPTIONS | Method_other

record http_request =
  rq_method :: http_method
  rq_path :: string
  rq_query :: "string option"
  rq_body :: "bytes option"

record draws =
  dr_now :: nat
  dr_unix_now :: nat
  dr_challenge :: bytes
  dr_connect :: "nat \<Rightarrow> bytes"

definition dispatch :: "draws \<Rightarrow> http_request \<Rightarrow> api_request" where
  "dispatch D r =
     (if rq_method r = GET \<and> rq_path r = ''/ping'' then Get_ping
      else if rq_method r = GET \<and> rq_path r = ''/connect'' then Get_connect (dr_connect D)
      else if rq_method r = GET \<and> rq_path r = ''/poll/challenge'' then
        Get_challenge (rq_query r) (dr_now D) (dr_challenge D)
      else if rq_method r = POST \<and> rq_path r = ''/message'' then Post_message (dr_unix_now D) (rq_body r)
      else if rq_method r = POST \<and> rq_path r = ''/poll'' then Post_poll (rq_body r)
      else if rq_method r = GET \<and> rq_path r = ''/metrics'' then Get_metrics
      else if rq_method r = OPTIONS then Options_request
      else Other_request)"

section \<open>The poll handshake\<close>

lemma check_challenge_True:
  "check_challenge P p m = (True, m') \<longleftrightarrow>
   (\<exists>c. m (pr_public_key p) = Some c \<and> ch_nonce c = pr_nonce p \<and>
      verify P (pr_public_key p) (pr_nonce p) (pr_signature p) \<and> m' = m(pr_public_key p := None))"
  by (auto simp: check_challenge_def split: option.splits if_splits)

lemma check_challenge_False: "check_challenge P p m = (False, m') \<Longrightarrow> m' = m"
  by (auto simp: check_challenge_def split: option.splits if_splits)

lemma poll_handler_valid:
  assumes "parse_poll K bs = Some p" "check_challenge P p m = (True, m')"
    and "fetch_messages E net (generate_key E (pr_public_key p)) n w = (d, n1, w1)"
  shows "poll_handler P K E net (Some bs) (Some m) n w =
    (format_response 200 (Reply_messages (decode_messages K d)), Some m', n1, w1)"
  using assms by (simp add: poll_handler_def)

lemma poll_handler_invalid:
  assumes "parse_poll K bs = Some p" "check_challenge P p m = (False, m')"
  shows "poll_handler P K E net (Some bs) (Some m) n w =
    (format_response 401 (Reply_error ''Invalid challenge response''), Some m, n, w)"
  using assms check_challenge_False [OF assms(2)] by (simp add: poll_handler_def)

text \<open>
  Runs of the service: requests, and between them anything the ring does to the node. The events that matter to
  a key are: a challenge issued for it, and a poll for it answered with messages.
\<close>

datatype api_event = Issued string bytes | Polled string bytes

definition events_of :: "codecs \<Rightarrow> api_request \<Rightarrow> 'm http_response \<Rightarrow> api_event list" where
  "events_of K req resp =
     (if hr_status resp \<noteq> 200 then []
      else (case req of
              Get_challenge query _ random \<Rightarrow>
                (case query_public_key query of None \<Rightarrow> [] | Some pk \<Rightarrow> [Issued pk random])
            | Post_poll (Some bs) \<Rightarrow>
                (case parse_poll K bs of None \<Rightarrow> [] | Some p \<Rightarrow> [Polled (pr_public_key p) (pr_nonce p)])
            | _ \<Rightarrow> []))"

inductive api_run ::
  "crypto \<Rightarrow> codecs \<Rightarrow> env \<Rightarrow> challenges \<times> 'm chord_node \<times> 'w \<Rightarrow> api_event list \<Rightarrow> bool" for P K E
where
  run_start: "api_run P K E (Some Map.empty, n, w) []"
| run_request: "api_run P K E (st, n, w) l \<Longrightarrow> handle_request P K E net req st n w = (resp, st', n', w') \<Longrightarrow>
     api_run P K E (st', n', w') (l @ events_of K req resp)"
| run_ring: "api_run P K E (st, n, w) l \<Longrightarrow> api_run P K E (st, n', w') l"

text \<open>Issues and polls of one key and nonce balance.\<close>

definition open_challenge :: "challenges \<Rightarrow> string \<Rightarrow> bytes \<Rightarrow> nat" where
  "open_challenge st pk nonce =
     (case st of None \<Rightarrow> 0
      | Some m \<Rightarrow> (case m pk of None \<Rightarrow> 0 | Some c \<Rightarrow> if ch_nonce c = nonce then 1 else 0))"

lemma challenge_step:
  assumes "handle_request P K E net req st n w = (resp, st', n', w')"
  shows "count_list (events_of K req resp) (Polled pk nonce) + open_challenge st' pk nonce
       \<le> count_list (events_of K req resp) (Issued pk nonce) + open_challenge st pk nonce"
proof (cases req)
  case (Get_challenge query now random)
  then show ?thesis
    using assms
    by (auto simp: handle_request_def get_challenge_handler_def events_of_def open_challenge_def format_response_def
        Let_def split: prod.splits option.splits if_splits)
next
  case (Post_poll body)
  show ?thesis
  proof (cases "\<exists>bs p m. body = Some bs \<and> parse_poll K bs = Some p \<and> st = Some m")
    case True
    then obtain bs p m where b: "body = Some bs" "parse_poll K bs = Some p" "st = Some m" by blast
    obtain ok m' where c: "check_challenge P p m = (ok, m')" by (cases "check_challenge P p m") auto
    obtain d n1 w1 where f: "fetch_messages E net (generate_key E (pr_public_key p)) n w = (d, n1, w1)"
      by (cases "fetch_messages E net (generate_key E (pr_public_key p)) n w") auto
    show ?thesis
    proof (cases ok)
      case True
      with c have "check_challenge P p m = (True, m')" by simp
      from poll_handler_valid [OF b(2) this f] this[unfolded check_challenge_True] assms Post_poll b
      show ?thesis by (auto simp: handle_request_def events_of_def open_challenge_def format_response_def)
    next
      case False
      with c have "check_challenge P p m = (False, m')" by simp
      from poll_handler_invalid [OF b(2) this, of E net n w] assms Post_poll b
      show ?thesis by (auto simp: handle_request_def events_of_def format_response_def)
    qed
  next
    case False
    then show ?thesis
      using assms Post_poll
      by (auto simp: handle_request_def poll_handler_def events_of_def format_response_def split: option.splits)
  qed
qed (use assms in \<open>auto simp: handle_request_def events_of_def split: prod.splits\<close>)

lemma api_run_balance:
  "api_run P K E x l \<Longrightarrow>
   count_list l (Polled pk nonce) + open_challenge (fst x) pk nonce \<le> count_list l (Issued pk nonce)"
proof (induction rule: api_run.induct)
  case (run_request st n w l net req resp st' n' w')
  from run_request.IH challenge_step [OF run_request.hyps(2), of pk nonce] show ?case by simp
qed (simp_all add: open_challenge_def)

section \<open>Properties\<close>

text \<open>
  C18. Challenges are single-use: in every run of a node's service, whatever requests arrive and however the ring
  answers, a nonce is accepted for a key at most as often as it was issued for that key; with nonces that do
  not repeat, no poll can be replayed.
\<close>

theorem challenge_single_use:
  assumes "api_run P K E (st, n, w) l"
  shows "count_list l (Polled pk nonce) \<le> count_list l (Issued pk nonce)"
  using api_run_balance [OF assms, of pk nonce] by simp

text \<open>
  C20. Messages are handed out only against a signature: a poll is answered with status 200 exactly when it can be
  read, a challenge for its key is open with the very nonce it presents, and the signature verifies under
  that key; then the challenge is used up, so sending the same poll again is answered with 401. Every
  refused poll leaves the challenges, the node and the ring as they were.
\<close>

theorem poll_authenticated:
  assumes "poll_handler P K E net body st n w = (resp, st', n', w')"
  shows "(hr_status resp = 200 \<longleftrightarrow>
      (\<exists>bs p m c. body = Some bs \<and> parse_poll K bs = Some p \<and> st = Some m \<and> m (pr_public_key p) = Some c \<and>
         ch_nonce c = pr_nonce p \<and> verify P (pr_public_key p) (pr_nonce p) (pr_signature p) \<and>
         st' = Some (m(pr_public_key p := None)))) \<and>
    (hr_status resp = 200 \<longrightarrow> hr_status (fst (poll_handler P K E net' body st' n2 w2)) = 401) \<and>
    (hr_status resp \<noteq> 200 \<longrightarrow> st' = st \<and> n' = n \<and> w' = w)"
proof (cases "\<exists>bs p m. body = Some bs \<and> parse_poll K bs = Some p \<and> st = Some m")
  case True
  then obtain bs p m where b: "body = Some bs" "parse_poll K bs = Some p" "st = Some m" by blast
  show ?thesis
  proof (cases "check_challenge P p m")
    case (Pair ok m')
    show ?thesis
    proof (cases ok)
      case True
      with Pair have c: "check_challenge P p m = (True, m')" by simp
      then have "m' (pr_public_key p) = None" unfolding check_challenge_True by auto
      then have "check_challenge P p m' = (False, m')" by (simp add: check_challenge_def)
      then have again: "hr_status (fst (poll_handler P K E net' body (Some m') n2 w2)) = 401"
        by (simp add: poll_handler_def b format_response_def)
      obtain d n1 w1 where f: "fetch_messages E net (generate_key E (pr_public_key p)) n w = (d, n1, w1)"
        by (cases "fetch_messages E net (generate_key E (pr_public_key p)) n w") auto
      have "hr_status resp = 200" "st' = Some m'"
        using assms poll_handler_valid [OF b(2) c f] b by (auto simp: format_response_def)
      with again b c [unfolded check_challenge_True] show ?thesis by auto
    next
      case False
      with Pair have c: "check_challenge P p m = (False, m')" by simp
      then have "\<not> (\<exists>c. m (pr_public_key p) = Some c \<and> ch_nonce c = pr_nonce p \<and>
          verify P (pr_public_key p) (pr_nonce p) (pr_signature p))"
        using check_challenge_True [of P p m "m(pr_public_key p := None)"] by auto
      with assms b poll_handler_invalid [OF b(2) c, of E net n w] show ?thesis by (auto simp: format_response_def)
    qed
  qed
next
  case False
  then show ?thesis
    using assms by (auto simp: poll_handler_def format_response_def split: option.splits)
qed

text \<open>A concrete exchange: the toy cryptography, and codecs that pass one poll and one message.\<close>

definition example_poll :: poll_request where
  "example_poll = \<lparr>pr_public_key = lower_hex [1], pr_nonce = [9], pr_signature = ecdsa_sign toy_crypto [1] [9]\<rparr>"

definition example_codecs :: codecs where
  "example_codecs =
     \<lparr>parse_message = (\<lambda>_. None), parse_poll = (\<lambda>bs. if bs = [0] then Some example_poll else None),
      serialize_stored = (\<lambda>_. Inr []), deserialize_stored = (\<lambda>_. None)\<rparr>"

lemma example_poll_verifies:
  "verify toy_crypto (pr_public_key example_poll) (pr_nonce example_poll) (pr_signature example_poll)"
proof -
  have "verify toy_crypto (hex_encode toy_crypto (public_of toy_crypto [1])) [9] (ecdsa_sign toy_crypto [1] [9])"
    using sign_verify [OF toy_crypto_ok toy_valid] by blast
  then show ?thesis by (simp add: example_poll_def toy_crypto_def)
qed

definition example_challenges :: challenges where
  "example_challenges = Some [pr_public_key example_poll \<mapsto> \<lparr>ch_nonce = [9], ch_timestamp = 0\<rparr>]"

theorem poll_authenticated_witness:
  "hr_status (fst (poll_handler toy_crypto example_codecs example_env ring_net (Some [0]) example_challenges node_a ())) = 200 \<and>
   hr_status (fst (poll_handler toy_crypto example_codecs example_env ring_net (Some [0])
     (fst (snd (poll_handler toy_crypto example_codecs example_env ring_net (Some [0]) example_challenges node_a ())))
     node_a ())) = 401"
proof -
  obtain resp st' n' w' where e:
    "poll_handler toy_crypto example_codecs example_env ring_net (Some [0]) example_challenges node_a () = (resp, st', n', w')"
    by (cases "poll_handler toy_crypto example_codecs example_env ring_net (Some [0]) example_challenges node_a ()") auto
  have "check_challenge toy_crypto example_poll (the example_challenges) =
      (True, (the example_challenges)(pr_public_key example_poll := None))"
    by (simp add: check_challenge_True example_challenges_def example_poll_verifies) (simp add: example_poll_def)
  then have "hr_status resp = 200"
    using e by (auto simp: poll_handler_def example_codecs_def example_challenges_def format_response_def split: prod.splits)
  with poll_authenticated [OF e, of ring_net node_a "()"] show ?thesis by (simp add: e)
qed

theorem challenge_single_use_witness:
  "let (resp, st, n, w) = handle_request toy_crypto example_codecs example_env ring_net
         (Get_challenge (Some ''a=b&public_key=k'') 0 [9]) (Some Map.empty) node_a ();
       l = events_of example_codecs (Get_challenge (Some ''a=b&public_key=k'') 0 [9]) resp
   in l = [Issued ''k'' [9]] \<and> count_list l (Polled ''k'' [9]) \<le> count_list l (Issued ''k'' [9])"
proof -
  let ?q = "Get_challenge (Some ''a=b&public_key=k'') 0 [9]"
  obtain resp st n w where h: "handle_request toy_crypto example_codecs example_env ring_net ?q (Some Map.empty) node_a () =
      (resp, st, n, w)"
    by (cases "handle_request toy_crypto example_codecs example_env ring_net ?q (Some Map.empty) node_a ()") auto
  from run_request [OF run_start h]
  have r: "api_run toy_crypto example_codecs example_env (st, n, w) (events_of example_codecs ?q resp)" by simp
  have "query_public_key (Some ''a=b&public_key=k'') = Some ''k''"
    by (simp add: query_public_key_def starts_with_def nth_opt_def)
  then have "events_of example_codecs ?q resp = [Issued ''k'' [9]]"
    using h by (auto simp: handle_request_def get_challenge_handler_def events_of_def format_response_def)
  with challenge_single_use [OF r, of "''k''" "[9]"] show ?thesis by (simp add: h)
qed

text \<open>
  The age of a challenge is looked at only when another challenge is requested: a poll accepts a challenge
  however long ago it was issued.
\<close>

lemma expired_challenge_accepted:
  assumes "m (pr_public_key p) = Some c" "ch_nonce c = pr_nonce p" "expired now c"
    and "verify P (pr_public_key p) (pr_nonce p) (pr_signature p)"
  shows "fst (check_challenge P p m)"
  using assms by (simp add: check_challenge_def)

end
