(* ===== verification/Lone_Node.thy ===== *)
theory Lone_Node
  imports Node_Api
begin

text \<open>
  A node that is alone in its ring, as after its start: lookups end at it, a stored value stays on it, and its HTTP
  interface is a mailbox service. The mailbox service is an abstract specification of \<open>node/src/api.rs\<close>: a box of
  messages for every key and the open challenges; the node with its data, fingers and lookups refines it.
\<close>

section \<open>A node alone\<close>

definition alone :: "'m chord_node \<Rightarrow> bool" where
  "alone n \<longleftrightarrow> ni_id (successor n) = ni_id (info n) \<and>
     (\<forall>s\<in>set (successor_list n) \<union> set (finger_table n). ni_id s = ni_id (info n)) \<and> \<not> poisoned n M_data"

lemma alone_find_successor:
  assumes "bignum_ok E" "alone n"
  shows "\<exists>r. find_successor E net key n w = (r, n, w) \<and> ni_id r = ni_id (info n)"
proof -
  have "\<forall>f\<in>set (finger_table n). ni_id f = ni_id (info n)" using assms(2) by (simp add: alone_def)
  then have "closest_preceding_node E key n = info n"
    by (auto simp: closest_preceding_node_def safe_lock_def is_between_iff [OF assms(1)]
        dest!: find_Some_D in_set_takeD split: option.split)
  then have "find_predecessor_loop E net key k (info n) s n w = (info n, n, w)" for k s
    by (subst find_predecessor_loop.simps) (simp add: next_hop_def split: nat.split)
  then have "find_successor E net key n w = (own_successor n, n, w)"
    by (simp add: find_successor_def find_predecessor_def split: option.split)
  moreover have "ni_id (own_successor n) = ni_id (info n)"
    using assms(2) by (simp add: own_successor_def safe_lock_def alone_def)
  ultimately show ?thesis by blast
qed

lemma alone_find_virtual:
  assumes "bignum_ok E" "alone n"
  shows "\<exists>p. find_successor_with_virtual_nodes E net key n w = (p, n, w) \<and> ni_id p = ni_id (info n)"
proof -
  obtain r where r: "find_successor E net key n w = (r, n, w)" "ni_id r = ni_id (info n)"
    using alone_find_successor [OF assms, of net key w] by blast
  have "find_successor_with_virtual_nodes E net key n w \<in> {(info n, n, w), (r, n, w)}"
    unfolding find_successor_with_virtual_nodes_def r(1) by (simp only: split: if_split) simp
  with r(2) show ?thesis by auto
qed

lemma set_every_nth: "set (every_nth k xs) \<subseteq> set xs"
  by (auto simp: every_nth_def in_set_enumerate_eq)

lemma alone_candidates: "alone n \<Longrightarrow> replica_candidates p n = []"
proof -
  assume "alone n"
  then have "ni_id ` set (replica_candidates p n) = {}"
    unfolding candidates_ids using set_every_nth
    by (fastforce simp: alone_def locked_list_def safe_lock_def split: if_splits)
  then show ?thesis by simp
qed

lemma alone_store_value:
  assumes "bignum_ok E" "alone n"
  shows "store_value E net key v n w = (extend_entry key [v] n, w)"
proof -
  let ?n = "extend_entry key [v] n"
  have al: "alone ?n" using assms(2) by (simp add: alone_def extend_entry_def)
  obtain p where p: "find_successor_with_virtual_nodes E net key ?n w = (p, ?n, w)" "ni_id p = ni_id (info ?n)"
    using alone_find_virtual [OF assms(1) al, of net key w] by blast
  have "replica_candidates p ?n = []" using al by (rule alone_candidates)
  with p have "replicate_data E net key [v] ?n w = (?n, w)" by (simp add: replicate_data_def get_replica_nodes_def)
  moreover have "\<not> poisoned n M_data" using assms(2) by (simp add: alone_def)
  ultimately show ?thesis by (simp add: store_value_def safe_update_def)
qed

lemma decode_messages_snoc:
  assumes "deserialize_stored K ser = Some m"
  shows "decode_messages K (Some ((case d of None \<Rightarrow> [] | Some vs \<Rightarrow> vs) @ [ser])) =
    decode_messages K d @ [poll_message_of m]"
  using assms by (simp add: decode_messages_def map_filter_def split: option.split)

section \<open>A concrete encoding\<close>

text \<open>An encoding of the bodies and of the stored messages: lists of byte strings, with a mark before each byte.\<close>

definition bytes_of_string :: "string \<Rightarrow> bytes" where
  "bytes_of_string s = map (\<lambda>c. of_nat (of_char c)) s"

definition string_of_bytes :: "bytes \<Rightarrow> string" where
  "string_of_bytes bs = map (\<lambda>b. char_of (unat b)) bs"

definition enc_fields :: "bytes list \<Rightarrow> bytes" where
  "enc_fields fs = concat (map (\<lambda>f. concat (map (\<lambda>b. [1, b]) f) @ [0]) fs)"

fun dec_fields :: "bytes \<Rightarrow> bytes \<Rightarrow> bytes list" where
  "dec_fields acc [] = []"
| "dec_fields acc [t] = (if t = 0 then [acc] else [])"
| "dec_fields acc (t # b # r) = (if t = 0 then acc # dec_fields [] (b # r) else dec_fields (acc @ [b]) r)"

definition toy_codecs :: codecs where
  "toy_codecs =
     \<lparr>parse_message = (\<lambda>bs. case dec_fields [] bs of
          [t, f, c, n] \<Rightarrow> Some \<lparr>mp_to = string_of_bytes t, mp_from = string_of_bytes f, mp_ciphertext = c, mp_nonce = n\<rparr>
        | _ \<Rightarrow> None),
      parse_poll = (\<lambda>bs. case dec_fields [] bs of
          [k, n, g] \<Rightarrow> Some \<lparr>pr_public_key = string_of_bytes k, pr_nonce = n, pr_signature = g\<rparr>
        | _ \<Rightarrow> None),
      serialize_stored = (\<lambda>m. Inr (enc_fields
        [bytes_of_string (sm_from m), sm_ciphertext m, sm_nonce m, replicate (sm_timestamp m) 0])),
      deserialize_stored = (\<lambda>bs. case dec_fields [] bs of
          [f, c, n, t] \<Rightarrow> Some \<lparr>sm_from = string_of_bytes f, sm_ciphertext = c, sm_nonce = n, sm_timestamp = length t\<rparr>
        | _ \<Rightarrow> None)\<rparr>"

lemma string_bytes [simp]: "string_of_bytes (bytes_of_string s) = s"
proof (induction s)
  case (Cons c s)
  have "(of_char c :: nat) < 256" by simp
  then have "unat (of_nat (of_char c) :: 8 word) = of_char c" by (simp add: unsigned_of_nat take_bit_nat_eq_self)
  with Cons show ?case by (simp add: string_of_bytes_def bytes_of_string_def)
qed (simp add: string_of_bytes_def bytes_of_string_def)

lemma dec_field: "dec_fields acc (concat (map (\<lambda>b. [1, b]) f) @ 0 # rest) = (acc @ f) # dec_fields [] rest"
  by (induction f arbitrary: acc) (simp, cases rest, simp_all)

lemma dec_enc_fields [simp]: "dec_fields [] (enc_fields fs) = fs"
  by (induction fs) (simp_all add: enc_fields_def dec_field)

lemma toy_codecs_ok: "codecs_ok toy_codecs"
  by (simp add: codecs_ok_def toy_codecs_def)

section \<open>The mailbox service\<close>

text \<open>
  The specification: messages wait in the box of their receiver (the digest of its key) in the order they came;
  a challenge is open until it is answered or replaced. \<open>h\<close> is the digest, \<open>K\<close> reads and writes the bodies.
\<close>

record 'm mailbox =
  mb_open :: "string \<rightharpoonup> challenge"
  mb_box :: "node_id \<Rightarrow> poll_message list"
  mb_api :: string
  mb_metrics :: "'m option"

definition received_at :: "nat \<Rightarrow> message_payload \<Rightarrow> poll_message" where
  "received_at now p =
     \<lparr>pl_from = mp_from p, pl_ciphertext = mp_ciphertext p, pl_nonce = mp_nonce p, pl_timestamp = now\<rparr>"

definition proves :: "crypto \<Rightarrow> poll_request \<Rightarrow> 'm mailbox \<Rightarrow> bool" where
  "proves P p mb \<longleftrightarrow>
     (\<exists>c. mb_open mb (pr_public_key p) = Some c \<and> ch_nonce c = pr_nonce p \<and>
        verify P (pr_public_key p) (pr_nonce p) (pr_signature p))"

fun mailbox_request ::
  "crypto \<Rightarrow> codecs \<Rightarrow> (string \<Rightarrow> node_id) \<Rightarrow> api_request \<Rightarrow> 'm mailbox \<Rightarrow> 'm http_response \<times> 'm mailbox"
where
  "mailbox_request P K h Get_ping mb = (format_response 200 Reply_pong, mb)"
| "mailbox_request P K h (Get_connect random) mb = (format_response 200 (Reply_node (mb_api mb)), mb)"
| "mailbox_request P K h (Get_challenge query now random) mb =
     (case query_public_key query of
        None \<Rightarrow> (format_response 400 (Reply_error ''Missing public_key parameter''), mb)
      | Some pk \<Rightarrow>
          (format_response 200 (Reply_nonce (hex_encode P random)),
           mb\<lparr>mb_open := (\<lambda>k. if k = pk then Some \<lparr>ch_nonce = random, ch_timestamp = now\<rparr>
                             else Option.bind (mb_open mb k)
                               (\<lambda>c. if now - ch_timestamp c < 60 * 10 ^ 9 then Some c else None))\<rparr>))"
| "mailbox_request P K h (Post_message now None) mb =
     (format_response 400 (Reply_error ''Failed to read request body''), mb)"
| "mailbox_request P K h (Post_message now (Some bs)) mb =
     (case parse_message K bs of
        None \<Rightarrow> (format_response 400 (Reply_error ''Invalid JSON payload''), mb)
      | Some p \<Rightarrow>
          (format_response 200 (Reply_status ''message received''),
           mb\<lparr>mb_box := (mb_box mb)(h (mp_to p) := mb_box mb (h (mp_to p)) @ [received_at now p])\<rparr>))"
| "mailbox_request P K h (Post_poll None) mb =
     (format_response 400 (Reply_error ''Failed to read request body''), mb)"
| "mailbox_request P K h (Post_poll (Some bs)) mb =
     (case parse_poll K bs of
        None \<Rightarrow> (format_response 400 (Reply_error ''Invalid JSON payload''), mb)
      | Some p \<Rightarrow>
          if proves P p mb
          then (format_response 200 (Reply_messages (mb_box mb (h (pr_public_key p)))),
                mb\<lparr>mb_open := (mb_open mb)(pr_public_key p := None)\<rparr>)
          else (format_response 401 (Reply_error ''Invalid challenge response''), mb))"
| "mailbox_request P K h Get_metrics mb =
     (case mb_metrics mb of
        None \<Rightarrow> (format_response 500 (Reply_error ''Failed to get metrics''), mb)
      | Some m \<Rightarrow> (format_response 200 (Reply_metrics m), mb))"
| "mailbox_request P K h Options_request mb = (format_response 200 Reply_empty, mb)"
| "mailbox_request P K h Other_request mb = (format_response 404 (Reply_error ''Not Found''), mb)"

text \<open>What a node's state means as a mailbox.\<close>

definition mailbox_of :: "codecs \<Rightarrow> (string \<rightharpoonup> challenge) \<Rightarrow> 'm chord_node \<Rightarrow> 'm mailbox" where
  "mailbox_of K m n =
     \<lparr>mb_open = m, mb_box = (\<lambda>k. decode_messages K (data n k)), mb_api = ni_api_address (info n),
      mb_metrics = safe_lock M_metrics metrics n\<rparr>"

definition lone :: "'m chord_node \<Rightarrow> bool" where
  "lone n \<longleftrightarrow> alone n \<and> successor n = info n"

lemma lone_find_successor: "bignum_ok E \<Longrightarrow> lone n \<Longrightarrow> find_successor E net key n w = (info n, n, w)"
  using lookup_unfixed [of E n net key w]
  by (simp add: lone_def alone_def own_successor_def safe_lock_def)

lemma lone_extend: "lone n \<Longrightarrow> lone (extend_entry key vs n)"
  by (simp add: lone_def alone_def extend_entry_def)

lemma lone_retrieve:
  assumes "bignum_ok E" "lone n"
  shows "decode_messages K (fst (retrieve_value E net key n w)) = decode_messages K (data n key) \<and>
    snd (retrieve_value E net key n w) = (n, w)"
proof -
  have a: "alone n" "\<not> poisoned n M_data" using assms(2) by (simp_all add: lone_def alone_def)
  obtain p where p: "find_successor_with_virtual_nodes E net key n w = (p, n, w)" "ni_id p = ni_id (info n)"
    using alone_find_virtual [OF assms(1) a(1), of net key w] by blast
  have "retrieve_from_replicas E net key n w = (None, n, w)"
    using p by (simp add: retrieve_from_replicas_def get_replica_nodes_def alone_candidates [OF a(1)] sort_by_load_def
        sort_by_def split: option.split)
  then show ?thesis using a(2) by (simp add: retrieve_value_def safe_lock_def decode_messages_def split: option.split)
qed

lemma lone_message:
  assumes "bignum_ok E" "codecs_ok K" "lone n" "parse_message K bs = Some p"
  shows "\<exists>ser. message_handler K E net now (Some bs) n w =
      (format_response 200 (Reply_status ''message received''), extend_entry (generate_key E (mp_to p)) [ser] n, w) \<and>
    deserialize_stored K ser = Some (stored_of now p)"
proof -
  obtain ser where ser: "serialize_stored K (stored_of now p) = Inr ser" "deserialize_stored K ser = Some (stored_of now p)"
    using assms(2) unfolding codecs_ok_def by blast
  have "alone n" using assms(3) by (simp add: lone_def)
  with ser assms show ?thesis
    by (auto simp: message_handler_def lone_find_successor alone_store_value)
qed

lemma check_challenge_proves:
  "check_challenge P p m = (if proves P p (mailbox_of K m n) then (True, m(pr_public_key p := None)) else (False, m))"
  by (auto simp: check_challenge_def proves_def mailbox_of_def split: option.split)

lemma mailbox_extend:
  assumes "deserialize_stored K ser = Some (stored_of now p)"
  shows "mailbox_of K m (extend_entry k [ser] n) =
    (mailbox_of K m n)\<lparr>mb_box := (mb_box (mailbox_of K m n))(k := mb_box (mailbox_of K m n) k @ [received_at now p])\<rparr>"
proof -
  have "decode_messages K (data (extend_entry k [ser] n) k') =
      ((\<lambda>k. decode_messages K (data n k))(k := decode_messages K (data n k) @ [received_at now p])) k'" for k'
    using decode_messages_snoc [OF assms, of "data n k"]
    by (simp add: extend_entry_def poll_message_of_def stored_of_def received_at_def)
  then show ?thesis by (simp add: mailbox_of_def fun_eq_iff) (simp add: extend_entry_def safe_lock_def)
qed

text \<open>One request: the answer is the mailbox's, and the new state means the mailbox's new state.\<close>

lemma lone_request:
  assumes "bignum_ok E" "codecs_ok K" "lone n"
  shows "\<exists>m' n'. handle_request P K E net req (Some m) n w =
      (fst (mailbox_request P K (generate_key E) req (mailbox_of K m n)), Some m', n', w) \<and> lone n' \<and>
    mailbox_of K m' n' = snd (mailbox_request P K (generate_key E) req (mailbox_of K m n))"
proof (cases req)
  case (Get_connect random)
  have "connect_handler E net random n w = (format_response 200 (Reply_node (ni_api_address (info n))), n, w)"
    by (simp add: connect_handler_def MAX_ATTEMPTS_def upt_conv_Cons lone_find_successor [OF assms(1,3)])
  then show ?thesis using Get_connect assms(3) by (auto simp: handle_request_def mailbox_of_def)
next
  case (Get_challenge query now random)
  have "(case m k of None \<Rightarrow> None | Some c \<Rightarrow> if expired now c then None else Some c) =
      Option.bind (m k) (\<lambda>c. if now - ch_timestamp c < 60 * 10 ^ 9 then Some c else None)" for k
    by (simp add: expired_def CHALLENGE_EXPIRATION_def split: option.split)
  then show ?thesis using Get_challenge assms(3)
    by (auto simp: handle_request_def get_challenge_handler_def mailbox_of_def fun_upd_def Let_def split: option.split)
next
  case (Post_message now body)
  show ?thesis
  proof (cases "Option.bind body (parse_message K)")
    case None
    then show ?thesis using Post_message assms(3)
      by (cases body) (auto simp: handle_request_def message_handler_def)
  next
    case (Some p)
    then obtain bs where bs: "body = Some bs" "parse_message K bs = Some p" by (cases body) auto
    obtain ser where "message_handler K E net now (Some bs) n w =
        (format_response 200 (Reply_status ''message received''), extend_entry (generate_key E (mp_to p)) [ser] n, w)"
      "deserialize_stored K ser = Some (stored_of now p)"
      using lone_message [where net = net and now = now and w = w, OF assms bs(2)] by blast
    then show ?thesis using Post_message bs lone_extend [OF assms(3)]
      by (auto simp: handle_request_def mailbox_extend)
  qed
next
  case (Post_poll body)
  show ?thesis
  proof (cases "Option.bind body (parse_poll K)")
    case None
    then show ?thesis using Post_poll assms(3)
      by (cases body) (auto simp: handle_request_def poll_handler_def)
  next
    case (Some p)
    then obtain bs where bs: "body = Some bs" "parse_poll K bs = Some p" by (cases body) auto
    let ?k = "generate_key E (pr_public_key p)"
    obtain d where d: "fetch_messages E net ?k n w = (d, n, w)" "decode_messages K d = decode_messages K (data n ?k)"
      using lone_retrieve [OF assms(1,3), of K net ?k w] lone_find_successor [OF assms(1,3), of net ?k w]
      by (cases "retrieve_value E net ?k n w") (auto simp: fetch_messages_def)
    have "mailbox_of K (m(pr_public_key p := None)) n =
        (mailbox_of K m n)\<lparr>mb_open := (mb_open (mailbox_of K m n))(pr_public_key p := None)\<rparr>"
      by (simp add: mailbox_of_def)
    moreover have "mb_box (mailbox_of K m n) ?k = decode_messages K d" using d(2) by (simp add: mailbox_of_def)
    ultimately show ?thesis
      using Post_poll bs d(1) assms(3)
      by (auto simp: handle_request_def poll_handler_def check_challenge_proves [where K = K and n = n])
  qed
qed (use assms(3) in \<open>auto simp: handle_request_def ping_handler_def metrics_handler_def not_found_def mailbox_of_def
    split: option.split\<close>)

section \<open>Property\<close>

text \<open>Requests in turn, and their answers.\<close>

fun serve_requests ::
  "crypto \<Rightarrow> codecs \<Rightarrow> env \<Rightarrow> ('m, 'w) dht \<Rightarrow> api_request list \<Rightarrow> challenges \<Rightarrow> 'm chord_node \<Rightarrow> 'w \<Rightarrow>
   'm http_response list \<times> challenges \<times> 'm chord_node \<times> 'w"
where
  "serve_requests P K E net [] st n w = ([], st, n, w)"
| "serve_requests P K E net (req # reqs) st n w =
     (let (r, st1, n1, w1) = handle_request P K E net req st n w;
          (rs, x) = serve_requests P K E net reqs st1 n1 w1
      in (r # rs, x))"

fun mailbox_requests ::
  "crypto \<Rightarrow> codecs \<Rightarrow> (string \<Rightarrow> node_id) \<Rightarrow> api_request list \<Rightarrow> 'm mailbox \<Rightarrow> 'm http_response list \<times> 'm mailbox"
where
  "mailbox_requests P K h [] mb = ([], mb)"
| "mailbox_requests P K h (req # reqs) mb =
     (let (r, mb1) = mailbox_request P K h req mb; (rs, mb2) = mailbox_requests P K h reqs mb1 in (r # rs, mb2))"

text \<open>
  C4. A node alone refines the mailbox service: from any state of the node, every sequence of requests gets exactly the
  answers, codes and bodies, that the mailbox gives from the state the node's stands for, and the states
  correspond at the end. Lookup, replication, replicas and serialization do not show through the interface.
\<close>

theorem lone_node_is_mailbox:
  assumes "bignum_ok E" "codecs_ok K" "lone n"
  shows "\<exists>m' n'. serve_requests P K E net reqs (Some m) n w =
      (fst (mailbox_requests P K (generate_key E) reqs (mailbox_of K m n)), Some m', n', w) \<and> lone n' \<and>
    mailbox_of K m' n' = snd (mailbox_requests P K (generate_key E) reqs (mailbox_of K m n))"
  using assms(3)
proof (induction reqs arbitrary: m n)
  case (Cons req reqs)
  obtain m1 n1 where r: "handle_request P K E net req (Some m) n w =
      (fst (mailbox_request P K (generate_key E) req (mailbox_of K m n)), Some m1, n1, w)" "lone n1"
    "mailbox_of K m1 n1 = snd (mailbox_request P K (generate_key E) req (mailbox_of K m n))"
    using lone_request [where net = net and w = w and P = P and req = req and m = m, OF assms(1,2) Cons.prems] by blast
  from Cons.IH [OF r(2), of m1] r show ?case by (auto simp: split_beta)
qed simp

lemma new_node_lone: "lone (new_node E d a api)"
  by (auto simp: lone_def alone_def new_node_def Let_def set_replicate_conv_if)

theorem lone_node_is_mailbox_witness:
  "map hr_status (fst (serve_requests toy_crypto toy_codecs example_env ring_net
     [Get_ping, Post_message 7 (Some (enc_fields [[1], [2], [3], [4]])), Post_poll (Some [9]), Post_message 8 None]
     (Some Map.empty) (new_node example_env () ''n'' ''n'') ())) = [200, 200, 400, 400]"
proof -
  let ?reqs = "[Get_ping, Post_message 7 (Some (enc_fields [[1], [2], [3], [4]])), Post_poll (Some [9]), Post_message 8 None]"
  have p: "parse_message toy_codecs (enc_fields [[1], [2], [3], [4]]) =
      Some \<lparr>mp_to = string_of_bytes [1], mp_from = string_of_bytes [2], mp_ciphertext = [3], mp_nonce = [4]\<rparr>"
    "parse_poll toy_codecs [9] = None"
    by (simp_all add: toy_codecs_def)
  have "map hr_status (fst (mailbox_requests toy_crypto toy_codecs h ?reqs mb)) = [200, 200, 400, 400]"
    for h and mb :: "unit mailbox"
    by (simp add: p format_response_def)
  then show ?thesis
    using lone_node_is_mailbox [where P = toy_crypto and net = ring_net and reqs = ?reqs and m = Map.empty and w = "()",
        OF example_bignum_ok toy_codecs_ok new_node_lone [of example_env "()" "''n''" "''n''"]] by auto
qed

end
