(* ===== verification/End_To_End.thy ===== *)
theory End_To_End
  imports Polling Lone_Node
begin

text \<open>
  The browser client and a node together: the network of the client's model is instantiated with the HTTP
  interface of a node that is alone in its ring, and a message is followed from the page of its sender to the
  page of its receiver. What lies between the two is third-party code: the text of a URL and the JSON of the
  bodies, the latter a parameter.
\<close>

section \<open>Requests as the node sees them\<close>

record ('m, 'r) server =
  sv_challenges :: challenges
  sv_node :: "'m chord_node"
  sv_ring :: 'r

definition strip_base :: "string \<Rightarrow> string \<Rightarrow> string option" where
  "strip_base p s = (if take (length p) s = p then Some (drop (length p) s) else None)"

definition http_of :: "(payload \<Rightarrow> bytes) \<Rightarrow> string \<Rightarrow> fetch_options \<Rightarrow> http_request" where
  "http_of enc rest opts =
     (let path = takeWhile (\<lambda>c. c \<noteq> CHR ''?'') rest
      in \<lparr>rq_method = (case opts of Get \<Rightarrow> GET | Post _ \<Rightarrow> POST), rq_path = path,
          rq_query = (if length path < length rest then Some (drop (Suc (length path)) rest) else None),
          rq_body = (case opts of Get \<Rightarrow> Some [] | Post p \<Rightarrow> Some (enc p))\<rparr>)"

definition poll_msg_of :: "poll_message \<Rightarrow> poll_msg" where
  "poll_msg_of m =
     \<lparr>pm_from = pl_from m, pm_ciphertext = pl_ciphertext m, pm_nonce = pl_nonce m, pm_timestamp = int (pl_timestamp m)\<rparr>"

definition body_of :: "'m reply \<Rightarrow> body" where
  "body_of r =
     (case r of
        Reply_empty \<Rightarrow> Empty_text
      | Reply_error e \<Rightarrow> Json_text (JObject (empty_object\<lparr>d_error := Some e\<rparr>))
      | Reply_node a \<Rightarrow> Json_text (JObject (empty_object\<lparr>d_node := Some a\<rparr>))
      | Reply_nonce h \<Rightarrow> Json_text (JObject (empty_object\<lparr>d_nonce := Some h\<rparr>))
      | Reply_messages ms \<Rightarrow> Json_text (JObject (empty_object\<lparr>d_messages := Some (map poll_msg_of ms)\<rparr>))
      | _ \<Rightarrow> Json_text (JObject empty_object))"

text \<open>A node reachable under a base URL; every other address fails.\<close>

definition serve ::
  "crypto \<Rightarrow> codecs \<Rightarrow> env \<Rightarrow> ('m, 'r) dht \<Rightarrow> (payload \<Rightarrow> bytes) \<Rightarrow> string \<Rightarrow> draws \<Rightarrow> ('m, 'r) server net"
where
  "serve P K E dnet enc base D r s v =
     (case strip_base base (req_url r) of
        None \<Rightarrow> (Network_failure, s, v)
      | Some rest \<Rightarrow>
          (let (resp, st, n, w) = handle_request P K E dnet (dispatch D (http_of enc rest (req_options r)))
                 (sv_challenges v) (sv_node v) (sv_ring v)
           in (Response (hr_status resp) (body_of (hr_reply resp)), s,
               v\<lparr>sv_challenges := st, sv_node := n, sv_ring := w\<rparr>)))"

text \<open>JSON: what the client's \<open>JSON.stringify\<close> writes, the node's parser reads.\<close>

definition json_ok :: "codecs \<Rightarrow> (payload \<Rightarrow> bytes) \<Rightarrow> bool" where
  "json_ok K enc \<longleftrightarrow>
     (\<forall>t f c n. parse_message K (enc (Message_payload t f c n)) =
        Some \<lparr>mp_to = t, mp_from = f, mp_ciphertext = c, mp_nonce = n\<rparr>) \<and>
     (\<forall>k n g. parse_poll K (enc (Poll_payload k n g)) =
        Some \<lparr>pr_public_key = k, pr_nonce = n, pr_signature = g\<rparr>)"

lemma serve_base:
  "serve P K E dnet enc base D (Request (base @ rest) opts) s v =
     (let (resp, st, n, w) = handle_request P K E dnet (dispatch D (http_of enc rest opts))
            (sv_challenges v) (sv_node v) (sv_ring v)
      in (Response (hr_status resp) (body_of (hr_reply resp)), s,
          v\<lparr>sv_challenges := st, sv_node := n, sv_ring := w\<rparr>))"
  by (simp add: serve_def strip_base_def)

lemma serve_good: "(\<And>s. R s s) \<Longrightarrow> net_rely R (serve P K E dnet enc base D)"
  by (simp add: net_rely_def serve_def split_beta Let_def split: option.split)

text \<open>The characters of a key need no escape in a query, and separate no parameter.\<close>

lemma hex_digit_cases: "n < 16 \<Longrightarrow> hex_digit n \<in> set ''0123456789abcdef''"
proof -
  assume "n < 16"
  then have "n \<in> set [0..<16]" by simp
  moreover have "\<forall>n\<in>set [0..<16]. hex_digit n \<in> set ''0123456789abcdef''" by code_simp
  ultimately show ?thesis by blast
qed

lemma set_lower_hex: "set (lower_hex bs) \<subseteq> set ''0123456789abcdef''"
proof -
  have "unat b div 16 < 16" for b :: "8 word" using unat_word8_lt [of b] by linarith
  then have "hex_digit (unat b div 16) \<in> set ''0123456789abcdef''" "hex_digit (unat b mod 16) \<in> set ''0123456789abcdef''"
    for b :: "8 word"
    by (intro hex_digit_cases; simp)+
  then show ?thesis unfolding lower_hex_def by auto
qed

lemma encode_lower_hex: "encodeURIComponent (lower_hex bs) = lower_hex bs"
proof -
  have "\<forall>c\<in>set ''0123456789abcdef''. url_unreserved c" by code_simp
  then have "\<forall>c\<in>set (lower_hex bs). url_unreserved c" using set_lower_hex by blast
  then have e: "map (\<lambda>c. if url_unreserved c then [c] else concat (map percent_byte (js_to_utf8 [c]))) (lower_hex bs) =
      map (\<lambda>c. [c]) (lower_hex bs)" by simp
  show ?thesis unfolding encodeURIComponent_def e by (simp add: concat_map_singleton)
qed

lemma split_on_none: "d \<notin> set s \<Longrightarrow> split_on d s = [s]"
  by (induction s) auto

lemma split_on_append: "d \<notin> set a \<Longrightarrow> split_on d (a @ d # b) = a # split_on d b"
  by (induction a) auto

lemma query_lower_hex: "query_public_key (Some (''public_key='' @ lower_hex bs)) = Some (lower_hex bs)"
proof -
  have "CHR ''&'' \<notin> set (lower_hex bs)" "CHR ''='' \<notin> set (lower_hex bs)"
    using set_lower_hex [of bs] by auto
  then have "split_on CHR ''&'' (''public_key='' @ lower_hex bs) = [''public_key='' @ lower_hex bs]"
    and "split_on CHR ''='' (''public_key='' @ lower_hex bs) = [''public_key'', lower_hex bs]"
    using split_on_append [of "CHR ''=''" "''public_key''" "lower_hex bs"]
    by (simp_all add: split_on_none)
  then show ?thesis by (simp add: query_public_key_def starts_with_def nth_opt_def)
qed

section \<open>The three requests\<close>

definition base_of :: "config \<Rightarrow> app \<Rightarrow> string" where
  "base_of C s = apiProtocol C @ ''://'' @ node s"

lemma getUrl_base: "getUrl C s path None = base_of C s @ path"
  by (simp add: getUrl_def base_of_def)

lemma apiRequest_answered:
  assumes "net (Request (base_of C s @ path) opts) s w = (Response 200 (Json_text j), s1, w1)"
  shows "apiRequest C net path opts n s w = (Inr j, s1, w1)"
  using assms by (subst apiRequest.simps) (simp add: getUrl_base read_response_def)

lemma message_request:
  assumes "bignum_ok E" "codecs_ok K" "json_ok K enc" "alone (sv_node v)"
  shows "\<exists>ser. apiRequest C (serve P K E dnet enc (base_of C s) D) ''/message'' (Post (Message_payload t f c x)) n s v =
      (Inr (JObject empty_object), s, v\<lparr>sv_node := extend_entry (generate_key E t) [ser] (sv_node v)\<rparr>) \<and>
    deserialize_stored K ser =
      Some \<lparr>sm_from = f, sm_ciphertext = c, sm_nonce = x, sm_timestamp = dr_unix_now D\<rparr>"
proof -
  let ?m = "\<lparr>sm_from = f, sm_ciphertext = c, sm_nonce = x, sm_timestamp = dr_unix_now D\<rparr>"
  obtain ser where ser: "serialize_stored K ?m = Inr ser" "deserialize_stored K ser = Some ?m"
    using assms(2) unfolding codecs_ok_def by blast
  obtain r where r: "find_successor E dnet (generate_key E t) (sv_node v) (sv_ring v) = (r, sv_node v, sv_ring v)"
    "ni_id r = ni_id (info (sv_node v))"
    using alone_find_successor [OF assms(1,4), of dnet "generate_key E t" "sv_ring v"] by blast
  have parse: "parse_message K (enc (Message_payload t f c x)) =
      Some \<lparr>mp_to = t, mp_from = f, mp_ciphertext = c, mp_nonce = x\<rparr>"
    using assms(3) by (simp add: json_ok_def)
  have "message_handler K E dnet (dr_unix_now D) (Some (enc (Message_payload t f c x))) (sv_node v) (sv_ring v) =
      (format_response 200 (Reply_status ''message received''),
       extend_entry (generate_key E t) [ser] (sv_node v), sv_ring v)"
    using ser(1) r by (simp add: message_handler_def parse stored_of_def alone_store_value [OF assms(1,4)])
  then have "serve P K E dnet enc (base_of C s) D (Request (base_of C s @ ''/message'') (Post (Message_payload t f c x))) s v =
      (Response 200 (Json_text (JObject empty_object)), s,
       v\<lparr>sv_node := extend_entry (generate_key E t) [ser] (sv_node v)\<rparr>)"
    by (simp add: serve_base http_of_def dispatch_def handle_request_def format_response_def body_of_def)
  with ser(2) show ?thesis by (blast intro: apiRequest_answered)
qed

lemma challenge_issued:
  "query_public_key q = Some pk \<Longrightarrow>
   get_challenge_handler P q now random (Some m) =
     (format_response 200 (Reply_nonce (hex_encode P random)),
      Some ((\<lambda>k. case m k of None \<Rightarrow> None | Some c \<Rightarrow> if expired now c then None else Some c)
              (pk \<mapsto> \<lparr>ch_nonce = random, ch_timestamp = now\<rparr>)))"
  by (simp add: get_challenge_handler_def)

lemma challenge_request:
  assumes "sv_challenges v = Some m"
  shows "\<exists>m'. apiRequest C (serve P K E dnet enc (base_of C s) D) (challenge_path (lower_hex pk)) Get n s v =
      (Inr (JObject (empty_object\<lparr>d_nonce := Some (hex_encode P (dr_challenge D))\<rparr>)), s, v\<lparr>sv_challenges := Some m'\<rparr>) \<and>
    (\<exists>c. m' (lower_hex pk) = Some c \<and> ch_nonce c = dr_challenge D)"
proof -
  define rest where "rest = challenge_path (lower_hex pk)"
  have rest: "rest = ''/poll/challenge'' @ CHR ''?'' # (''public_key='' @ lower_hex pk)"
    by (simp add: rest_def challenge_path_def encode_lower_hex)
  have req: "dispatch D (http_of enc rest Get) = Get_challenge (Some (''public_key='' @ lower_hex pk)) (dr_now D) (dr_challenge D)"
    unfolding rest by (simp add: http_of_def dispatch_def)
  define kept where "kept = (\<lambda>k. case m k of None \<Rightarrow> None | Some c \<Rightarrow> if expired (dr_now D) c then None else Some c)"
  define m' where "m' = kept(lower_hex pk \<mapsto> \<lparr>ch_nonce = dr_challenge D, ch_timestamp = dr_now D\<rparr>)"
  have "serve P K E dnet enc (base_of C s) D (Request (base_of C s @ rest) Get) s v =
      (Response 200 (Json_text (JObject (empty_object\<lparr>d_nonce := Some (hex_encode P (dr_challenge D))\<rparr>))), s,
       v\<lparr>sv_challenges := Some m', sv_node := sv_node v, sv_ring := sv_ring v\<rparr>)"
    unfolding serve_base req assms
    by (simp add: handle_request_def challenge_issued [OF query_lower_hex [unfolded append.simps]] kept_def m'_def
        format_response_def body_of_def)
  then have "apiRequest C (serve P K E dnet enc (base_of C s) D) rest Get n s v =
      (Inr (JObject (empty_object\<lparr>d_nonce := Some (hex_encode P (dr_challenge D))\<rparr>)), s,
       v\<lparr>sv_challenges := Some m', sv_node := sv_node v, sv_ring := sv_ring v\<rparr>)"
    by (rule apiRequest_answered)
  then show ?thesis by (intro exI [of _ m'] conjI) (simp_all add: rest_def m'_def)
qed

lemma poll_request:
  assumes "bignum_ok E" "json_ok K enc" "alone (sv_node v)"
    and "sv_challenges v = Some m" "m k = Some c" "ch_nonce c = x" "verify P k x g"
    and "data (sv_node v) (generate_key E k) = Some vs"
  shows "\<exists>v'. apiRequest C (serve P K E dnet enc (base_of C s) D) ''/poll'' (Post (Poll_payload k x g)) n s v =
      (Inr (JObject (empty_object\<lparr>d_messages := Some (map poll_msg_of (decode_messages K (Some vs)))\<rparr>)), s, v')"
proof -
  obtain r where r: "find_successor E dnet (generate_key E k) (sv_node v) (sv_ring v) = (r, sv_node v, sv_ring v)"
    "ni_id r = ni_id (info (sv_node v))"
    using alone_find_successor [OF assms(1,3), of dnet "generate_key E k" "sv_ring v"] by blast
  let ?p = "\<lparr>pr_public_key = k, pr_nonce = x, pr_signature = g\<rparr>"
  have "parse_poll K (enc (Poll_payload k x g)) = Some ?p" using assms(2) by (simp add: json_ok_def)
  moreover have "check_challenge P ?p m = (True, m(k := None))"
    using assms(5-7) by (simp add: check_challenge_True)
  moreover have "\<not> poisoned (sv_node v) M_data" using assms(3) by (simp add: alone_def)
  then have "fetch_messages E dnet (generate_key E k) (sv_node v) (sv_ring v) = (Some vs, sv_node v, sv_ring v)"
    using r assms(8) by (simp add: fetch_messages_def retrieve_value_def safe_lock_def)
  ultimately have "poll_handler P K E dnet (Some (enc (Poll_payload k x g))) (sv_challenges v) (sv_node v) (sv_ring v) =
      (format_response 200 (Reply_messages (decode_messages K (Some vs))), Some (m(k := None)), sv_node v, sv_ring v)"
    using poll_handler_valid [of K "enc (Poll_payload k x g)" ?p P m "m(k := None)" E dnet "sv_node v" "sv_ring v"]
    by (simp add: assms(4))
  then have "serve P K E dnet enc (base_of C s) D (Request (base_of C s @ ''/poll'') (Post (Poll_payload k x g))) s v =
      (Response 200 (Json_text (JObject (empty_object\<lparr>d_messages := Some (map poll_msg_of (decode_messages K (Some vs)))\<rparr>))), s,
       v\<lparr>sv_challenges := Some (m(k := None)), sv_node := sv_node v, sv_ring := sv_ring v\<rparr>)"
    by (simp add: serve_base http_of_def dispatch_def handle_request_def format_response_def body_of_def)
  then show ?thesis by (blast intro: apiRequest_answered)
qed

section \<open>Sending and receiving\<close>

lemma serve_send:
  assumes "bignum_ok E" "codecs_ok K" "json_ok K enc" "alone (sv_node v)"
    and "key_peers P (k_private_key (keys s)) (k_public_key (keys s)) priv' (c_publicKey c)"
    and "activeContact s = Some c" "c_id c \<noteq> []"
    and "length (e_nonce env) = 12" "js_trim (newMessage s) \<noteq> []" "length (js_to_utf8 (newMessage s)) \<le> max_plaintext"
  shows "\<exists>em ser. sendMessage P C env (serve P K E dnet enc (base_of C s) D) s v =
      ((push_message (c_id c) (sent_message env em) s)\<lparr>newMessage := []\<rparr>,
       v\<lparr>sv_node := extend_entry (generate_key E (c_publicKey c)) [ser] (sv_node v)\<rparr>) \<and>
    deserialize_stored K ser =
      Some \<lparr>sm_from = k_public_key (keys s), sm_ciphertext = em_ciphertext em, sm_nonce = em_nonce em,
            sm_timestamp = dr_unix_now D\<rparr> \<and>
    wasm_decrypt P priv' (k_public_key (keys s)) (em_ciphertext em) (em_nonce em) = Ok (js_to_utf8 (newMessage s))"
proof -
  from wasm.seal_unseal [OF assms(5,8,10)] obtain em where
    em: "wasm_encrypt P (e_nonce env) (k_private_key (keys s)) (c_publicKey c) (newMessage s) = Ok em"
      "em_nonce em = e_nonce env"
      "wasm_decrypt P priv' (k_public_key (keys s)) (em_ciphertext em) (e_nonce env) = Ok (js_to_utf8 (newMessage s))"
    by blast
  from message_request [OF assms(1-4), of C P dnet s D "c_publicKey c" "k_public_key (keys s)" "em_ciphertext em"
      "em_nonce em" 1]
  obtain ser where ser:
    "apiRequest C (serve P K E dnet enc (base_of C s) D) ''/message''
       (Post (Message_payload (c_publicKey c) (k_public_key (keys s)) (em_ciphertext em) (em_nonce em))) 1 s v =
      (Inr (JObject empty_object), s, v\<lparr>sv_node := extend_entry (generate_key E (c_publicKey c)) [ser] (sv_node v)\<rparr>)"
    "deserialize_stored K ser = Some \<lparr>sm_from = k_public_key (keys s), sm_ciphertext = em_ciphertext em,
        sm_nonce = em_nonce em, sm_timestamp = dr_unix_now D\<rparr>" by blast
  have sel: "activeContactId s = Some (c_id c)"
    using assms(6) find_Some_D unfolding activeContact_def by fastforce
  have "sendMessage P C env (serve P K E dnet enc (base_of C s) D) s v =
      ((push_message (c_id c) (sent_message env em) s)\<lparr>newMessage := []\<rparr>,
       v\<lparr>sv_node := extend_entry (generate_key E (c_publicKey c)) [ser] (sv_node v)\<rparr>)"
    using assms(6,7,9) sel em(1) ser(1) by (simp add: sendMessage_def prop_key_def)
  with ser(2) em(2,3) show ?thesis by (intro exI [of _ em] exI [of _ ser]) simp
qed

lemma receive_new:
  assumes "\<not> stored s msg" "opens P s msg" "\<bar>pm_timestamp msg * 1000\<bar> \<le> max_time"
    and "messages s (c_id (unknown_contact e (pm_from msg))) = None"
  shows "\<exists>c s'. receive_msg P e msg s = (None, s') \<and>
    List.find (\<lambda>c. c_publicKey c = pm_from msg) (contacts s') = Some c \<and>
    received_message e msg (ISO (pm_timestamp msg * 1000)) \<in> set (conversation s' (c_id c))"
proof -
  let ?t = "ISO (pm_timestamp msg * 1000)"
  let ?find = "\<lambda>s. List.find (\<lambda>c. c_publicKey c = pm_from msg) (contacts s)"
  have t: "js_toISOString (pm_timestamp msg * 1000) = Some ?t" using assms(3) by (simp add: js_toISOString_Some_iff)
  have "\<exists>c s1. sender_contact P e msg s = (Some c, s1) \<and> ?find s1 = Some c \<and>
      \<not> list_ex (\<lambda>m. m_timestamp m = ?t \<and> m_sender m = ''them'') (conversation s1 (c_id c))"
  proof (cases "?find s")
    case None
    have "conversation s (c_id (unknown_contact e (pm_from msg))) = []" using assms(4) by (simp add: conversation_def)
    with None assms(2) show ?thesis
      by (auto simp: sender_contact_def opens_def is_ok_wasm_throws Let_def find_append conversation_def push_contact_def
          unknown_contact_def)
  next
    case (Some c)
    with t assms(1) show ?thesis by (auto simp: sender_contact_def stored_def)
  qed
  then obtain c s1 where c: "sender_contact P e msg s = (Some c, s1)" "?find s1 = Some c"
    "\<not> list_ex (\<lambda>m. m_timestamp m = ?t \<and> m_sender m = ''them'') (conversation s1 (c_id c))" by blast
  let ?s' = "push_message (c_id c) (received_message e msg ?t) (ensure_conversation (c_id c) s1)"
  have "receive_msg P e msg s = (None, ?s')" using c t by (simp add: receive_msg_def Let_def)
  moreover have "?find ?s' = Some c" using c(2) by simp
  moreover have "received_message e msg ?t \<in> set (conversation ?s' (c_id c))"
    by (simp add: conversation_def push_message_def)
  ultimately show ?thesis by blast
qed

lemma receive_all_append:
  "receive_all P smp i (xs @ ys) s =
     (case receive_all P smp i xs s of
        (Some e, s1) \<Rightarrow> (Some e, s1)
      | (None, s1) \<Rightarrow> receive_all P smp (i + length xs) ys s1)"
  by (induction xs arbitrary: i s) (auto split: prod.split option.split)

lemma receive_last_new:
  assumes "\<forall>m\<in>set olds. stored s m"
    and "\<not> stored s msg" "opens P s msg" "\<bar>pm_timestamp msg * 1000\<bar> \<le> max_time"
    and "\<And>i. messages s (c_id (unknown_contact (smp i) (pm_from msg))) = None"
  shows "\<exists>c s' e. receive_all P smp 0 (olds @ [msg]) s = (None, s') \<and>
    List.find (\<lambda>c. c_publicKey c = pm_from msg) (contacts s') = Some c \<and>
    received_message e msg (ISO (pm_timestamp msg * 1000)) \<in> set (conversation s' (c_id c))"
proof -
  obtain c s' where "receive_msg P (smp (length olds)) msg s = (None, s')"
    "List.find (\<lambda>c. c_publicKey c = pm_from msg) (contacts s') = Some c"
    "received_message (smp (length olds)) msg (ISO (pm_timestamp msg * 1000)) \<in> set (conversation s' (c_id c))"
    using receive_new [OF assms(2-5)] by blast
  with receive_all_all_stored [OF assms(1), of P smp 0] show ?thesis
    by (intro exI [of _ c] exI [of _ s'] exI [of _ "smp (length olds)"]) (simp add: receive_all_append)
qed

lemma serve_poll:
  assumes "bignum_ok E" "json_ok K enc" "alone (sv_node v)" "hex_encode_spec (hex_encode P)"
    and "crypto_ok P" "valid_secret P sk" "keys s = \<lparr>k_private_key = hex_encode P sk, k_public_key = hex_encode P (public_of P sk)\<rparr>"
    and "\<not> isPolling s" "k_public_key (keys s) \<noteq> []" "sv_challenges v = Some m" "dr_challenge D \<noteq> []"
    and "data (sv_node v) (generate_key E (k_public_key (keys s))) = Some vs"
  shows "fst (pollMessages P C smp (serve P K E dnet enc (base_of C s) D) s v) =
    (snd (receive_all P smp 0 (map poll_msg_of (decode_messages K (Some vs))) (s\<lparr>isPolling := True\<rparr>)))\<lparr>isPolling := False\<rparr>"
proof -
  let ?pk = "hex_encode P (public_of P sk)" and ?x = "dr_challenge D"
  let ?s = "s\<lparr>isPolling := True\<rparr>" and ?net = "serve P K E dnet enc (base_of C s) D"
  have hex: "hex_encode P bs = lower_hex bs" for bs using assms(4) by (simp add: hex_encode_spec_def)
  have base: "base_of C ?s = base_of C s" by (simp add: base_of_def)
  obtain m' c where ch: "apiRequest C ?net (challenge_path ?pk) Get 1 ?s v =
      (Inr (JObject (empty_object\<lparr>d_nonce := Some (hex_encode P ?x)\<rparr>)), ?s, v\<lparr>sv_challenges := Some m'\<rparr>)"
    "m' ?pk = Some c" "ch_nonce c = ?x"
    using challenge_request [OF assms(10), of C P K E dnet enc ?s D "public_of P sk" 1] unfolding base hex by blast
  have "lower_hex ?x \<noteq> []" using assms(11) length_lower_hex [of ?x] by fastforce
  then have nonce: "challenge_nonce (JObject (empty_object\<lparr>d_nonce := Some (hex_encode P ?x)\<rparr>)) = Inr ?x"
    by (simp add: challenge_nonce_def hex)
  have sv: "wasm_sign P (hex_encode P sk) ?x = Ok (ecdsa_sign P sk ?x)" "verify P ?pk ?x (ecdsa_sign P sk ?x)"
    using sign_verify [OF assms(5,6), of ?x] by (simp_all add: wasm_sign_def)
  have data: "data (sv_node (v\<lparr>sv_challenges := Some m'\<rparr>)) (generate_key E ?pk) = Some vs"
    using assms(12) by (simp add: assms(7))
  obtain v' where po: "apiRequest C ?net ''/poll'' (Post (Poll_payload ?pk ?x (ecdsa_sign P sk ?x))) 1 ?s (v\<lparr>sv_challenges := Some m'\<rparr>) =
      (Inr (JObject (empty_object\<lparr>d_messages := Some (map poll_msg_of (decode_messages K (Some vs)))\<rparr>)), ?s, v')"
    using poll_request [where v = "v\<lparr>sv_challenges := Some m'\<rparr>" and s = ?s and C = C and dnet = dnet and D = D and n = 1
          and m = m' and k = ?pk, OF assms(1,2) _ _ ch(2,3) sv(2) data] assms(3) unfolding base by auto
  have "poll_try P C smp ?net ?s v =
      (let (err, s3) = receive_all P smp 0 (map poll_msg_of (decode_messages K (Some vs))) ?s in (err, s3, v'))"
    unfolding poll_try_def using ch(1) nonce sv(1) po by (simp add: assms(7) poll_result_def)
  with assms(8,9) show ?thesis by (simp add: pollMessages_def Let_def split_beta)
qed

lemma stored_polling [simp]: "stored (s\<lparr>isPolling := x\<rparr>) m = stored s m"
  by (simp add: stored_def conversation_def)

lemma keys_receive_all: "receive_all P smp i msgs s = (err, s') \<Longrightarrow> keys s' = keys s"
proof (induction msgs arbitrary: i s)
  case (Cons msg msgs)
  obtain e s1 where r: "receive_msg P (smp i) msg s = (e, s1)" by (cases "receive_msg P (smp i) msg s") auto
  with Cons keys_receive_msg [OF r] show ?case by (cases e) auto
qed simp

lemma received_opens:
  assumes "List.find (\<lambda>c. c_publicKey c = pk) (contacts s) = Some c" "distinct (map c_id (contacts s))"
    and "m_from m = Some pk"
    and "wasm_decrypt P (k_private_key (keys s)) pk (as_uint8 (m_ciphertext m)) (as_uint8 (m_nonce m)) = Ok t"
  shows "decryptMessage P (selectContact (c_id c) s) m = t"
proof -
  let ?Q = "\<lambda>d. Some (c_publicKey d) = m_from m \<or> c_id d = c_id c"
  have c: "c \<in> set (contacts s)" "c_publicKey c = pk" using assms(1) find_Some_D by fastforce+
  then obtain d where d: "List.find ?Q (contacts s) = Some d"
    by (cases "List.find ?Q (contacts s)") (auto simp: find_None_iff)
  then have "d \<in> set (contacts s)" "?Q d" using find_Some_D by fastforce+
  with assms(2,3) c have "c_publicKey d = pk" by (auto simp: distinct_map inj_on_def)
  moreover have "activeContact (selectContact (c_id c) s) \<noteq> None"
    using c(1) by (auto simp: activeContact_def selectContact_def find_None_iff)
  ultimately show ?thesis using d assms(4) by (simp add: decryptMessage_def) (simp add: selectContact_def)
qed

section \<open>A concrete exchange\<close>

definition toy_enc :: "payload \<Rightarrow> bytes" where
  "toy_enc p =
     (case p of
        Message_payload t f c n \<Rightarrow> enc_fields [bytes_of_string t, bytes_of_string f, c, n]
      | Poll_payload k n g \<Rightarrow> enc_fields [bytes_of_string k, n, g])"

lemma toy_json_ok: "json_ok toy_codecs toy_enc"
  by (simp add: json_ok_def toy_codecs_def toy_enc_def)

definition bob :: app where
  "bob = fresh_app\<lparr>keys := \<lparr>k_private_key = lower_hex [2], k_public_key = lower_hex [2]\<rparr>\<rparr>"

definition lone_server :: "(unit, unit) server" where
  "lone_server = \<lparr>sv_challenges = Some Map.empty, sv_node = new_node example_env () ''n'' ''n'', sv_ring = ()\<rparr>"

definition example_draws :: draws where
  "example_draws = \<lparr>dr_now = 0, dr_unix_now = 1700000000, dr_challenge = [9], dr_connect = (\<lambda>_. [])\<rparr>"

lemma lone_server_alone: "alone (sv_node lone_server)"
  by (auto simp: alone_def lone_server_def new_node_def Let_def set_replicate_conv_if)

section \<open>Property\<close>

text \<open>
  C1. A message reaches its receiver. Two clients with generated keys use a node that is alone in its ring; one
  sends a text to the contact that is the other, the other polls afterwards. Then the sender's input is
  cleared, and the receiver has a contact with the sender's key whose conversation, when opened, shows the
  text that was typed. What the node held for the receiver before must already be stored at the receiver, and
  no message of the sender of the same second.
\<close>

theorem message_reaches_receiver:
  assumes env: "bignum_ok E" "codecs_ok K" "json_ok K enc" "hex_encode_spec (hex_encode P)"
    and node: "alone (sv_node v)" "sv_challenges v = Some m" "base_of C b = base_of C a"
    and peers: "key_peers P (k_private_key (keys a)) (k_public_key (keys a)) (k_private_key (keys b)) (k_public_key (keys b))"
    and sender: "activeContact a = Some c" "c_id c \<noteq> []" "c_publicKey c = k_public_key (keys b)"
    and typed: "length (e_nonce env) = 12" "js_trim (newMessage a) \<noteq> []" "length (js_to_utf8 (newMessage a)) \<le> max_plaintext"
    and receiver: "\<not> isPolling b" "k_public_key (keys b) \<noteq> []" "dr_challenge D' \<noteq> []"
    and old: "\<forall>x\<in>set (decode_messages K (data (sv_node v) (generate_key E (k_public_key (keys b))))). stored b (poll_msg_of x)"
    and new: "\<And>x. pm_from x = k_public_key (keys a) \<Longrightarrow> pm_timestamp x = int (dr_unix_now D) \<Longrightarrow> \<not> stored b x"
      "\<And>i. messages b (c_id (unknown_contact (smp i) (k_public_key (keys a)))) = None"
      "int (dr_unix_now D) * 1000 \<le> max_time"
  shows "let (a', v') = sendMessage P C env (serve P K E dnet enc (base_of C a) D) a v;
             b' = fst (pollMessages P C smp (serve P K E dnet enc (base_of C a) D') b v')
         in newMessage a' = [] \<and>
            (\<exists>c' x. List.find (\<lambda>c. c_publicKey c = k_public_key (keys a)) (contacts b') = Some c' \<and>
               x \<in> set (conversation b' (c_id c')) \<and> m_sender x = ''them'' \<and>
               m_timestamp x = ISO (int (dr_unix_now D) * 1000) \<and>
               (distinct (map c_id (contacts b')) \<longrightarrow>
                  decryptMessage P (selectContact (c_id c') b') x = js_to_utf8 (newMessage a)))"
proof -
  let ?pk = "k_public_key (keys b)" and ?b = "b\<lparr>isPolling := True\<rparr>"
  obtain em ser where send: "sendMessage P C env (serve P K E dnet enc (base_of C a) D) a v =
      ((push_message (c_id c) (sent_message env em) a)\<lparr>newMessage := []\<rparr>,
       v\<lparr>sv_node := extend_entry (generate_key E ?pk) [ser] (sv_node v)\<rparr>)"
    and ser: "deserialize_stored K ser = Some \<lparr>sm_from = k_public_key (keys a), sm_ciphertext = em_ciphertext em,
        sm_nonce = em_nonce em, sm_timestamp = dr_unix_now D\<rparr>"
    and dec: "wasm_decrypt P (k_private_key (keys b)) (k_public_key (keys a)) (em_ciphertext em) (em_nonce em) =
        Ok (js_to_utf8 (newMessage a))"
    using serve_send [OF env(1-3) node(1) _ sender(1,2) typed, where C = C and dnet = dnet and D = D and P = P
        and priv' = "k_private_key (keys b)"] peers
    by (auto simp: sender(3))
  define msg where "msg = \<lparr>pm_from = k_public_key (keys a), pm_ciphertext = em_ciphertext em, pm_nonce = em_nonce em,
      pm_timestamp = int (dr_unix_now D)\<rparr>"
  define v' where "v' = v\<lparr>sv_node := extend_entry (generate_key E ?pk) [ser] (sv_node v)\<rparr>"
  define olds where "olds = map poll_msg_of (decode_messages K (data (sv_node v) (generate_key E ?pk)))"
  obtain sk where sk: "crypto_ok P" "valid_secret P sk"
    "keys b = \<lparr>k_private_key = hex_encode P sk, k_public_key = hex_encode P (public_of P sk)\<rparr>"
    using peers unfolding key_peers_def by (cases "keys b") auto
  have v': "alone (sv_node v')" "sv_challenges v' = Some m"
    "data (sv_node v') (generate_key E ?pk) =
       Some ((case data (sv_node v) (generate_key E ?pk) of None \<Rightarrow> [] | Some vs \<Rightarrow> vs) @ [ser])"
    using node by (simp_all add: v'_def alone_def extend_entry_def)
  have batch: "map poll_msg_of (decode_messages K (data (sv_node v') (generate_key E ?pk))) = olds @ [msg]"
    unfolding v'(3) decode_messages_snoc [OF ser] by (simp add: olds_def msg_def poll_msg_of_def poll_message_of_def)
  have "opens P ?b msg" using dec by (simp add: opens_def msg_def)
  moreover have "\<not> stored ?b msg" "\<forall>x\<in>set olds. stored ?b x" using new(1) old by (simp_all add: msg_def olds_def)
  moreover have "\<bar>pm_timestamp msg * 1000\<bar> \<le> max_time" using new(3) by (simp add: msg_def)
  moreover have "messages ?b (c_id (unknown_contact (smp i) (pm_from msg))) = None" for i using new(2) by (simp add: msg_def)
  ultimately obtain c' s' e where r: "receive_all P smp 0 (olds @ [msg]) ?b = (None, s')"
    "List.find (\<lambda>c. c_publicKey c = k_public_key (keys a)) (contacts s') = Some c'"
    "received_message e msg (ISO (int (dr_unix_now D) * 1000)) \<in> set (conversation s' (c_id c'))"
    using receive_last_new [of olds ?b msg P smp] by (auto simp: msg_def)
  have poll: "fst (pollMessages P C smp (serve P K E dnet enc (base_of C a) D') b v') = s'\<lparr>isPolling := False\<rparr>"
    using serve_poll [where C = C and dnet = dnet and smp = smp, OF env(1,3) v'(1) env(4) sk receiver(1,2) v'(2) receiver(3) v'(3)]
      r(1) unfolding batch v'(3)[symmetric] node(3) by simp
  let ?x = "received_message e msg (ISO (int (dr_unix_now D) * 1000))"
  have "keys s' = keys b" using keys_receive_all [OF r(1)] by simp
  then have "decryptMessage P (selectContact (c_id c') (s'\<lparr>isPolling := False\<rparr>)) ?x = js_to_utf8 (newMessage a)"
    if "distinct (map c_id (contacts s'))"
    using that r(2) dec by (intro received_opens [where pk = "k_public_key (keys a)"]) (simp_all add: received_message_def msg_def)
  moreover have "conversation (s'\<lparr>isPolling := False\<rparr>) k = conversation s' k" for k by (simp add: conversation_def)
  ultimately show ?thesis
    unfolding send v'_def [symmetric] Let_def prod.case poll using r(2,3)
    by (intro conjI exI [of _ c'] exI [of _ ?x]) (simp_all add: received_message_def)
qed

theorem message_reaches_receiver_witness:
  "let serve' = serve toy_crypto toy_codecs example_env ring_net toy_enc (base_of example_config alice) example_draws;
       v' = snd (sendMessage toy_crypto example_config alice_env serve' alice lone_server);
       b' = fst (pollMessages toy_crypto example_config samples serve' bob v')
   in \<exists>(c' :: contact) x. x \<in> set (conversation b' (c_id c')) \<and>
        (distinct (map c_id (contacts b')) \<longrightarrow>
           decryptMessage toy_crypto (selectContact (c_id c') b') x = js_to_utf8 ''hi'')"
proof -
  have bases: "base_of example_config bob = base_of example_config alice" by (simp add: base_of_def bob_def alice_def)
  have unstored: "\<not> stored bob x" for x by (simp add: stored_def bob_def)
  have nothing: "data (sv_node lone_server) = Map.empty" by (simp add: lone_server_def new_node_def Let_def)
  have peers: "key_peers toy_crypto (k_private_key (keys alice)) (k_public_key (keys alice)) (k_private_key (keys bob)) (k_public_key (keys bob))"
    using alice_facts(3) by (simp add: alice_def bob_def)
  have bob: "\<not> isPolling bob" "k_public_key (keys bob) \<noteq> []" "messages bob k = None" for k
    by (simp_all add: bob_def lower_hex_eq)
  have hi: "newMessage alice = ''hi''" by (simp add: alice_def)
  note exchange = message_reaches_receiver [where v = lone_server and P = toy_crypto and K = toy_codecs and enc = toy_enc
      and C = example_config and dnet = ring_net and D = example_draws and smp = samples, OF example_bignum_ok toy_codecs_ok toy_json_ok _
      lone_server_alone _ bases peers alice_facts(6), of Map.empty alice_env example_draws]
  define S where "S = serve toy_crypto toy_codecs example_env ring_net toy_enc (base_of example_config alice) example_draws"
  define R where "R = sendMessage toy_crypto example_config alice_env S alice lone_server"
  define b' where "b' = fst (pollMessages toy_crypto example_config samples S bob (snd R))"
  have "case R of (a', v') \<Rightarrow> let b' = fst (pollMessages toy_crypto example_config samples S bob v')
     in newMessage a' = [] \<and>
      (\<exists>c' x. List.find (\<lambda>c. c_publicKey c = k_public_key (keys alice)) (contacts b') = Some c' \<and>
         x \<in> set (conversation b' (c_id c')) \<and> m_sender x = ''them'' \<and>
         m_timestamp x = ISO (int (dr_unix_now example_draws) * 1000) \<and>
         (distinct (map c_id (contacts b')) \<longrightarrow>
            decryptMessage toy_crypto (selectContact (c_id c') b') x = js_to_utf8 (newMessage alice)))"
    unfolding R_def S_def
    by (rule exchange [unfolded Let_def [of "sendMessage a b c d e f" for a b c d e f]])
       (simp_all add: hex_encode_spec_def toy_crypto_def lone_server_def bob unstored hi nothing alice_facts(4,5)
         alice_env_def example_draws_def max_time_def decode_messages_def new_node_def Let_def, simp_all add: bob_def)
  then obtain c' :: contact and x where "x \<in> set (conversation b' (c_id c'))"
    "distinct (map c_id (contacts b')) \<longrightarrow>
       decryptMessage toy_crypto (selectContact (c_id c') b') x = js_to_utf8 ''hi''"
    by (auto simp: split_beta Let_def hi b'_def)
  then show ?thesis unfolding Let_def S_def [symmetric] R_def [symmetric] b'_def [symmetric] by blast
qed

end
