(* ===== verification/Node_Ring.thy ===== *)
theory Node_Ring
  imports Node_Storage
begin

text \<open>
  Ring maintenance of a DHT node (\<open>node/src/node.rs\<close>): joining, \<open>stabilize\<close>, \<open>notify\<close> with its data transfer,
  the successor list, \<open>fix_fingers\<close>, and the recovery after a predecessor failed. All operations together are a
  transition relation, with what holds in every state a node can reach.
\<close>

section \<open>The code\<close>

definition set_successor :: "node_info \<Rightarrow> 'm chord_node \<Rightarrow> 'm chord_node" where
  "set_successor s n = n\<lparr>successor := s\<rparr>"

definition set_predecessor :: "node_info option \<Rightarrow> 'm chord_node \<Rightarrow> 'm chord_node" where
  "set_predecessor p n = n\<lparr>predecessor := p\<rparr>"

definition set_successor_list :: "node_info list \<Rightarrow> 'm chord_node \<Rightarrow> 'm chord_node" where
  "set_successor_list ss n = n\<lparr>successor_list := ss\<rparr>"

definition start_new_network :: "'m chord_node \<Rightarrow> 'm chord_node" where
  "start_new_network n =
     (case safe_update M_successor (set_successor (info n)) n of
        (False, n1) \<Rightarrow> n1
      | (True, n1) \<Rightarrow>
          (case safe_update M_successor_list (set_successor_list (replicate SUCCESSOR_LIST_SIZE (info n))) n1 of
             (False, n2) \<Rightarrow> n2
           | (True, n2) \<Rightarrow> snd (safe_update M_predecessor (set_predecessor None) n2)))"

fun store_all ::
  "env \<Rightarrow> ('m, 'w) dht \<Rightarrow> (node_id \<times> bytes) list \<Rightarrow> 'm chord_node \<Rightarrow> 'w \<Rightarrow> 'm chord_node \<times> 'w"
where
  "store_all E net [] n w = (n, w)"
| "store_all E net ((key, value) # kvs) n w =
     (let (n1, w1) = store_value E net key value n w in store_all E net kvs n1 w1)"

text \<open>The nested loops over keys and their values.\<close>

definition flat_entries :: "(node_id \<times> bytes list) list \<Rightarrow> (node_id \<times> bytes) list" where
  "flat_entries entries = concat (map (\<lambda>(key, values). map (Pair key) values) entries)"

fun data_range :: "string + 'm dht_message \<Rightarrow> (node_id \<times> bytes list) list" where
  "data_range (Inr (DataRange d)) = d"
| "data_range _ = []"

definition join ::
  "env \<Rightarrow> ('m, 'w) dht \<Rightarrow> string option \<Rightarrow> 'm chord_node \<Rightarrow> 'w \<Rightarrow> 'm chord_node \<times> 'w"
where
  "join E net bootstrap_address n w =
     (case bootstrap_address of
        None \<Rightarrow> (start_new_network n, w)
      | Some address \<Rightarrow>
          (let (r, n1, w1) = net address (FindSuccessor (ni_id (info n))) n w
           in case found_successor r of
                None \<Rightarrow> (n1, w1)
              | Some s \<Rightarrow>
                  if ni_id s = ni_id (info n1) then (n1, w1)
                  else (case safe_update M_successor (set_successor s) n1 of
                          (False, n2) \<Rightarrow> (n2, w1)
                        | (True, n2) \<Rightarrow>
                            (let (r2, n3, w3) = net (ni_address s) (GetDataRange (ni_id (info n2)) (ni_id s)) n2 w1
                             in store_all E net (flat_entries (data_range r2)) n3 w3))))"

text \<open>At most two more successors, until the node itself is met or a call fails; then padded to three.\<close>

fun successor_chain ::
  "('m, 'w) dht \<Rightarrow> nat \<Rightarrow> node_info \<Rightarrow> 'm chord_node \<Rightarrow> 'w \<Rightarrow> node_info list \<times> 'm chord_node \<times> 'w"
where
  "successor_chain net 0 current n w = ([], n, w)"
| "successor_chain net (Suc k) current n w =
     (if ni_id current = ni_id (info n) then ([], n, w)
      else (let (r, n1, w1) = net (ni_address current) GetSuccessor n w
            in case found_successor r of
                 None \<Rightarrow> ([], n1, w1)
               | Some s \<Rightarrow>
                   if ni_id s = ni_id (info n1) then ([], n1, w1)
                   else (let (ss, n2, w2) = successor_chain net k s n1 w1 in (s # ss, n2, w2))))"

definition fill_with_last :: "nat \<Rightarrow> 'a list \<Rightarrow> 'a list" where
  "fill_with_last k xs = (if xs = [] then [] else xs @ replicate (k - length xs) (last xs))"

definition update_successor_list :: "('m, 'w) dht \<Rightarrow> 'm chord_node \<Rightarrow> 'w \<Rightarrow> 'm chord_node \<times> 'w" where
  "update_successor_list net n w =
     (case safe_lock M_successor successor n of
        None \<Rightarrow> (n, w)
      | Some s \<Rightarrow>
          (let (ss, n1, w1) = successor_chain net (SUCCESSOR_LIST_SIZE - 1) s n w;
               new_list = fill_with_last SUCCESSOR_LIST_SIZE (s # ss)
           in (snd (safe_update M_successor_list (set_successor_list new_list) n1), w1)))"

fun known_predecessor :: "string + 'm dht_message \<Rightarrow> node_info option" where
  "known_predecessor (Inr (Predecessor (Some i) (Some a) (Some api))) =
     Some \<lparr>ni_id = i, ni_address = a, ni_api_address = api\<rparr>"
| "known_predecessor _ = None"

definition notify_message :: "node_info \<Rightarrow> 'm dht_message" where
  "notify_message i = Notify (ni_id i) (ni_address i) (ni_api_address i)"

definition stabilize :: "env \<Rightarrow> ('m, 'w) dht \<Rightarrow> 'm chord_node \<Rightarrow> 'w \<Rightarrow> 'm chord_node \<times> 'w" where
  "stabilize E net n w =
     (case safe_lock M_successor successor n of
        None \<Rightarrow> (n, w)
      | Some s \<Rightarrow>
          if ni_id (info n) = ni_id s then (snd (safe_update M_predecessor (set_predecessor None) n), w)
          else
            (case net (ni_address s) GetPredecessor n w of
               (Inl _, n1, w1) \<Rightarrow>
                 (case find_next_available_successor net n1 w1 of
                    (None, n2, w2) \<Rightarrow> (n2, w2)
                  | (Some t, n2, w2) \<Rightarrow>
                      (case safe_update M_successor (set_successor t) n2 of
                         (True, n3) \<Rightarrow> update_successor_list net n3 w2
                       | (False, n3) \<Rightarrow> (n3, w2)))
             | (Inr m, n1, w1) \<Rightarrow>
                 (let n2 = (case known_predecessor (Inr m) of
                              None \<Rightarrow> n1
                            | Some x \<Rightarrow>
                                if is_between E (ni_id x) (ni_id (info n1)) (ni_id s)
                                then snd (safe_update M_successor (set_successor x) n1) else n1)
                  in case safe_lock M_successor successor n2 of
                       None \<Rightarrow> (n2, w1)
                     | Some c \<Rightarrow>
                         (let (_, n3, w3) = net (ni_address c) (notify_message (info n2)) n2 w1
                          in update_successor_list net n3 w3))))"

text \<open>Calls whose answers are only logged.\<close>

fun send_all ::
  "('m, 'w) dht \<Rightarrow> string \<Rightarrow> 'm dht_message list \<Rightarrow> 'm chord_node \<Rightarrow> 'w \<Rightarrow> 'm chord_node \<times> 'w"
where
  "send_all net address [] n w = (n, w)"
| "send_all net address (m # ms) n w =
     (let (_, n1, w1) = net address m n w in send_all net address ms n1 w1)"

definition accepts_predecessor :: "env \<Rightarrow> node_info \<Rightarrow> node_info option \<Rightarrow> 'm chord_node \<Rightarrow> bool" where
  "accepts_predecessor E n_prime pred n =
     (case pred of None \<Rightarrow> True | Some p \<Rightarrow> is_between E (ni_id n_prime) (ni_id p) (ni_id (info n)))"

text \<open>The locked section of \<open>notify\<close>: the new predecessor, also taken as successor by a node alone.\<close>

definition accept_predecessor :: "node_info \<Rightarrow> 'm chord_node \<Rightarrow> 'm chord_node" where
  "accept_predecessor n_prime n =
     snd (safe_update M_successor
       (\<lambda>n. if ni_id (successor n) = ni_id (info n) then set_successor n_prime n else n)
       (set_predecessor (Some n_prime) n))"

definition notify ::
  "env \<Rightarrow> ('m, 'w) dht \<Rightarrow> node_info \<Rightarrow> 'm chord_node \<Rightarrow> 'w \<Rightarrow> 'm chord_node \<times> 'w"
where
  "notify E net n_prime n w =
     (if ni_id n_prime = ni_id (info n) then (n, w)
      else (case safe_lock M_predecessor predecessor n of
              None \<Rightarrow> (n, w)
            | Some pred \<Rightarrow>
                if accepts_predecessor E n_prime pred n then
                  (let n1 = accept_predecessor n_prime n;
                       to_transfer = flat_entries (get_data_range E (ni_id n_prime) (ni_id (info n1)) n1)
                   in send_all net (ni_address n_prime) (map (\<lambda>(key, value). Store key value) to_transfer) n1 w)
                else (n, w)))"

definition set_finger :: "nat \<Rightarrow> node_info \<Rightarrow> 'm chord_node \<Rightarrow> 'm chord_node" where
  "set_finger i s n = n\<lparr>finger_table := (finger_table n)[i := s]\<rparr>"

text \<open>\<open>i\<close> is the random index, between 1 and 159; an index beyond the table changes nothing.\<close>

definition fix_fingers :: "env \<Rightarrow> ('m, 'w) dht \<Rightarrow> nat \<Rightarrow> 'm chord_node \<Rightarrow> 'w \<Rightarrow> 'm chord_node \<times> 'w" where
  "fix_fingers E net i n w =
     (let target_id = add_id_power_of_2 E (ni_id (info n)) i;
          (s, n1, w1) = find_successor E net target_id n w
      in (snd (safe_update M_finger_table (set_finger i s) n1), w1))"

definition get_replica_nodes_for_range :: "'m chord_node \<Rightarrow> node_info list" where
  "get_replica_nodes_for_range n =
     (let nodes = locked_list M_successor_list successor_list n
            @ every_nth 4 (locked_list M_finger_table finger_table n)
      in filter (\<lambda>c. ni_id c \<noteq> ni_id (info n)) (dedup_by_key ni_id (sort_key ni_id nodes)))"

fun extend_entries :: "(node_id \<times> bytes list) list \<Rightarrow> 'm chord_node \<Rightarrow> 'm chord_node" where
  "extend_entries [] n = n"
| "extend_entries ((key, values) # kvs) n = extend_entries kvs (extend_entry key values n)"

fun replica_data :: "string + 'm dht_message \<Rightarrow> (node_id \<times> bytes list) list" where
  "replica_data (Inr (ReplicaData d)) = d"
| "replica_data _ = []"

fun recover_from ::
  "('m, 'w) dht \<Rightarrow> node_id \<Rightarrow> node_id \<Rightarrow> node_info list \<Rightarrow> 'm chord_node \<Rightarrow> 'w \<Rightarrow> 'm chord_node \<times> 'w"
where
  "recover_from net start stop [] n w = (n, w)"
| "recover_from net start stop (r # rs) n w =
     (if ni_id r = ni_id (info n) then recover_from net start stop rs n w
      else (let (x, n1, w1) = net (ni_address r) (RequestReplicas start stop) n w;
                n2 = snd (safe_update M_data (extend_entries (replica_data x)) n1)
            in recover_from net start stop rs n2 w1))"

definition reconcile_data_after_predecessor_failure ::
  "('m, 'w) dht \<Rightarrow> node_info \<Rightarrow> 'm chord_node \<Rightarrow> 'w \<Rightarrow> 'm chord_node \<times> 'w"
where
  "reconcile_data_after_predecessor_failure net failed n w =
     (let our_pred = (case safe_lock M_predecessor predecessor n of
                        None \<Rightarrow> None | Some p \<Rightarrow> map_option ni_id p);
          start_range = (case our_pred of None \<Rightarrow> ni_id failed | Some i \<Rightarrow> i)
      in recover_from net start_range (ni_id (info n)) (get_replica_nodes_for_range n) n w)"

definition check_predecessor :: "('m, 'w) dht \<Rightarrow> 'm chord_node \<Rightarrow> 'w \<Rightarrow> 'm chord_node \<times> 'w" where
  "check_predecessor net n w =
     (case safe_lock M_predecessor predecessor n of
        Some (Some p) \<Rightarrow>
          (let (r, n1, w1) = net (ni_address p) Ping n w
           in if is_pong r then (n1, w1)
              else reconcile_data_after_predecessor_failure net p
                     (snd (safe_update M_predecessor (set_predecessor None) n1)) w1)
      | _ \<Rightarrow> (n, w))"

section \<open>Relations kept by ring maintenance\<close>

context call_relation
begin

lemma successor_chain_Q: "dht_along Q net \<Longrightarrow> successor_chain net k c n w = (ss, n', w') \<Longrightarrow> Q (n, w) (n', w')"
proof (induction k arbitrary: c n w ss)
  case (Suc k)
  obtain r n1 w1 where q: "net (ni_address c) GetSuccessor n w = (r, n1, w1)"
    by (cases "net (ni_address c) GetSuccessor n w") auto
  have "Q (n, w) (n1, w1)" using Suc.prems(1) q by (rule dht_alongD)
  with Suc.prems(2) q show ?case
    by (auto simp: Q_refl split: if_splits option.splits prod.splits dest!: Suc.IH [OF Suc.prems(1)] intro: Q_trans)
qed (simp add: Q_refl)

end

text \<open>What an operation may do to a node beside writing data; every operation keeps what all of these keep.\<close>

locale upkeep_relation = write_relation +
  assumes Q_successor: "Q (n, w) (set_successor s n, w)"
    and Q_predecessor: "(\<And>p. q = Some p \<Longrightarrow> ni_id p \<noteq> ni_id (info n)) \<Longrightarrow> Q (n, w) (set_predecessor q n, w)"
    and Q_successor_list: "length ss = SUCCESSOR_LIST_SIZE \<Longrightarrow> Q (n, w) (set_successor_list ss n, w)"
    and Q_finger: "1 \<le> i \<Longrightarrow> Q (n, w) (set_finger i s n, w)"
begin

lemma safe_update_Q: "(\<not> poisoned n m \<Longrightarrow> Q (n, w) (f n, w)) \<Longrightarrow> Q (n, w) (snd (safe_update m f n), w)"
  by (simp add: safe_update_def Q_refl)

lemma start_new_network_Q: "Q (n, w) (start_new_network n, w)"
proof -
  let ?n1 = "set_successor (info n) n"
  let ?n2 = "set_successor_list (replicate SUCCESSOR_LIST_SIZE (info n)) ?n1"
  have 1: "Q (n, w) (?n1, w)" by (rule Q_successor)
  have "Q (?n1, w) (?n2, w)" by (rule Q_successor_list) simp
  with 1 have 2: "Q (n, w) (?n2, w)" by (rule Q_trans)
  have "Q (?n2, w) (set_predecessor None ?n2, w)" by (rule Q_predecessor) simp
  with 2 have "Q (n, w) (set_predecessor None ?n2, w)" by (rule Q_trans)
  with 1 2 show ?thesis unfolding start_new_network_def safe_update_def by (simp add: Q_refl)
qed

lemma store_all_Q: "dht_along Q net \<Longrightarrow> store_all E net kvs n w = (n', w') \<Longrightarrow> Q (n, w) (n', w')"
proof (induction kvs arbitrary: n w)
  case (Cons kv kvs)
  obtain k v where kv: "kv = (k, v)" by (cases kv)
  obtain n1 w1 where s: "store_value E net k v n w = (n1, w1)" by (cases "store_value E net k v n w")
  from store_value_Q [OF Cons.prems(1) s] Cons.IH [OF Cons.prems(1), of n1 w1] Cons.prems(2) kv s
  show ?case by (auto intro: Q_trans)
qed (simp add: Q_refl)

lemma join_Q:
  assumes "dht_along Q net" "join E net b n w = (n', w')"
  shows "Q (n, w) (n', w')"
proof (cases b)
  case (Some address)
  obtain r n1 w1 where c: "net address (FindSuccessor (ni_id (info n))) n w = (r, n1, w1)"
    by (cases "net address (FindSuccessor (ni_id (info n))) n w") auto
  have 1: "Q (n, w) (n1, w1)" using assms(1) c by (rule dht_alongD)
  have "(n', w') = (n1, w1) \<or> Q (n1, w1) (n', w')"
  proof (cases "found_successor r")
    case (Some s)
    obtain r2 n3 w3 where g: "net (ni_address s) (GetDataRange (ni_id (info (set_successor s n1))) (ni_id s))
        (set_successor s n1) w1 = (r2, n3, w3)"
      by (cases "net (ni_address s) (GetDataRange (ni_id (info (set_successor s n1))) (ni_id s))
        (set_successor s n1) w1") auto
    have "Q (n1, w1) (set_successor s n1, w1)" "Q (set_successor s n1, w1) (n3, w3)"
      using Q_successor dht_alongD [OF assms(1) g] by blast+
    then show ?thesis
      using assms(2) \<open>b = Some address\<close> c Some g
      by (auto simp: join_def safe_update_def split: if_splits intro: Q_trans dest!: store_all_Q [OF assms(1)])
  qed (use assms(2) Some c in \<open>simp add: join_def\<close>)
  with 1 show ?thesis by (blast intro: Q_trans)
qed (use assms(2) in \<open>auto simp: join_def start_new_network_Q\<close>)

lemma successor_chain_length: "successor_chain net k c n w = (ss, n', w') \<Longrightarrow> length ss \<le> k"
  by (induction k arbitrary: c n w ss) (auto split: if_splits option.splits prod.splits)

lemma update_successor_list_Q:
  assumes "dht_along Q net" "update_successor_list net n w = (n', w')"
  shows "Q (n, w) (n', w')"
proof (cases "poisoned n M_successor")
  case False
  obtain ss n1 w1 where c: "successor_chain net (SUCCESSOR_LIST_SIZE - 1) (successor n) n w = (ss, n1, w1)"
    by (cases "successor_chain net (SUCCESSOR_LIST_SIZE - 1) (successor n) n w") auto
  let ?l = "fill_with_last SUCCESSOR_LIST_SIZE (successor n # ss)"
  have "length ?l = SUCCESSOR_LIST_SIZE"
    using successor_chain_length [OF c] by (simp add: fill_with_last_def SUCCESSOR_LIST_SIZE_def)
  then have "Q (n1, w1) (snd (safe_update M_successor_list (set_successor_list ?l) n1), w1)"
    by (intro safe_update_Q Q_successor_list)
  with successor_chain_Q [OF assms(1) c] assms(2) False c show ?thesis
    by (auto simp: update_successor_list_def safe_lock_def Let_def intro: Q_trans)
qed (use assms(2) in \<open>simp add: update_successor_list_def safe_lock_def Q_refl\<close>)

lemma update_successor_list_Q': "dht_along Q net \<Longrightarrow> Q x (n, w) \<Longrightarrow> update_successor_list net n w = (n', w') \<Longrightarrow> Q x (n', w')"
  by (blast intro: Q_trans update_successor_list_Q)

lemma stabilize_Q:
  assumes "dht_along Q net" "stabilize E net n w = (n', w')"
  shows "Q (n, w) (n', w')"
proof (cases "poisoned n M_successor \<or> ni_id (info n) = ni_id (successor n)")
  case True
  have "Q (n, w) (snd (safe_update M_predecessor (set_predecessor None) n), w)"
    by (intro safe_update_Q Q_predecessor) simp
  with True assms(2) show ?thesis by (auto simp: stabilize_def safe_lock_def Q_refl split: if_splits)
next
  case False
  obtain r n1 w1 where c: "net (ni_address (successor n)) GetPredecessor n w = (r, n1, w1)"
    by (cases "net (ni_address (successor n)) GetPredecessor n w") auto
  have 1: "Q (n, w) (n1, w1)" using assms(1) c by (rule dht_alongD)
  show ?thesis
  proof (cases r)
    case (Inl e)
    obtain t n2 w2 where a: "find_next_available_successor net n1 w1 = (t, n2, w2)"
      by (cases "find_next_available_successor net n1 w1") auto
    have n2: "Q (n, w) (n2, w2)" using 1 find_next_available_successor_Q [OF assms(1) a] by (rule Q_trans)
    moreover have "Q (n, w) (set_successor s n2, w2)" for s using n2 Q_successor by (rule Q_trans)
    ultimately show ?thesis
      using assms(2) False c Inl a
      by (auto simp: stabilize_def safe_lock_def safe_update_def split: option.splits if_splits
          intro: update_successor_list_Q' [OF assms(1)])
  next
    case (Inr m)
    define n2 where "n2 = (case known_predecessor (Inr m) of None \<Rightarrow> n1
        | Some x \<Rightarrow> if is_between E (ni_id x) (ni_id (info n1)) (ni_id (successor n))
                    then snd (safe_update M_successor (set_successor x) n1) else n1)"
    have "Q (n1, w1) (n2, w1)"
      by (auto simp: n2_def Q_refl split: option.split intro: safe_update_Q Q_successor)
    with 1 have 2: "Q (n, w) (n2, w1)" by (rule Q_trans)
    obtain y n3 w3 where f: "net (ni_address (successor n2)) (notify_message (info n2)) n2 w1 = (y, n3, w3)"
      by (cases "net (ni_address (successor n2)) (notify_message (info n2)) n2 w1") auto
    have "Q (n, w) (n3, w3)" using 2 dht_alongD [OF assms(1) f] by (rule Q_trans)
    moreover have "stabilize E net n w =
        (case safe_lock M_successor successor n2 of None \<Rightarrow> (n2, w1)
         | Some c \<Rightarrow> (let (_, n3, w3) = net (ni_address c) (notify_message (info n2)) n2 w1
                     in update_successor_list net n3 w3))"
      using False c Inr unfolding stabilize_def n2_def by (simp add: safe_lock_def Let_def)
    ultimately show ?thesis
      using assms(2) 2 f update_successor_list_Q' [OF assms(1), of "(n, w)" n3 w3 n' w']
      by (auto simp: safe_lock_def split: if_splits)
  qed
qed

lemma send_all_Q: "dht_along Q net \<Longrightarrow> send_all net a ms n w = (n', w') \<Longrightarrow> Q (n, w) (n', w')"
proof (induction ms arbitrary: n w)
  case (Cons m ms)
  obtain x n1 w1 where c: "net a m n w = (x, n1, w1)" by (cases "net a m n w") auto
  have "Q (n, w) (n1, w1)" using Cons.prems(1) c by (rule dht_alongD)
  with Cons c show ?case by (auto intro: Q_trans)
qed (simp add: Q_refl)

lemma accept_predecessor_Q:
  assumes "ni_id p \<noteq> ni_id (info n)"
  shows "Q (n, w) (accept_predecessor p n, w)"
proof -
  have "Q (n, w) (set_predecessor (Some p) n, w)" using assms by (intro Q_predecessor) simp
  moreover have "Q (set_predecessor (Some p) n, w) (accept_predecessor p n, w)"
    unfolding accept_predecessor_def by (rule safe_update_Q) (simp add: Q_refl Q_successor)
  ultimately show ?thesis by (rule Q_trans)
qed

lemma notify_Q:
  assumes "dht_along Q net" "notify E net p n w = (n', w')"
  shows "Q (n, w) (n', w')"
  using assms(2)
  by (auto simp: notify_def Q_refl Let_def split: if_splits option.splits
      dest!: send_all_Q [OF assms(1)] intro: Q_trans accept_predecessor_Q)

lemma fix_fingers_Q:
  assumes "dht_along Q net" "1 \<le> i" "fix_fingers E net i n w = (n', w')"
  shows "Q (n, w) (n', w')"
proof -
  obtain s n1 w1 where f: "find_successor E net (add_id_power_of_2 E (ni_id (info n)) i) n w = (s, n1, w1)"
    by (cases "find_successor E net (add_id_power_of_2 E (ni_id (info n)) i) n w") auto
  have "Q (n1, w1) (snd (safe_update M_finger_table (set_finger i s) n1), w1)"
    using assms(2) by (intro safe_update_Q Q_finger)
  with find_successor_Q [OF assms(1) f] assms(3) f show ?thesis
    by (auto simp: fix_fingers_def Let_def intro: Q_trans)
qed

lemma extend_entries_Q: "\<not> poisoned n M_data \<Longrightarrow> Q (n, w) (extend_entries kvs n, w)"
proof (induction kvs arbitrary: n)
  case (Cons kv kvs)
  obtain k vs where kv: "kv = (k, vs)" by (cases kv)
  have "\<not> poisoned (extend_entry k vs n) M_data" using Cons.prems by (simp add: extend_entry_def)
  with Cons kv Q_extend [OF Cons.prems, of w k vs] show ?case by (auto intro: Q_trans)
qed (simp add: Q_refl)

lemma recover_from_Q: "dht_along Q net \<Longrightarrow> recover_from net a b rs n w = (n', w') \<Longrightarrow> Q (n, w) (n', w')"
proof (induction rs arbitrary: n w)
  case (Cons r rs)
  obtain x n1 w1 where c: "net (ni_address r) (RequestReplicas a b) n w = (x, n1, w1)"
    by (cases "net (ni_address r) (RequestReplicas a b) n w") auto
  let ?n2 = "snd (safe_update M_data (extend_entries (replica_data x)) n1)"
  have "Q (n, w) (n1, w1)" using Cons.prems(1) c by (rule dht_alongD)
  moreover have "Q (n1, w1) (?n2, w1)" by (rule safe_update_Q) (rule extend_entries_Q)
  ultimately have "Q (n, w) (?n2, w1)" by (rule Q_trans)
  with Cons c show ?case by (auto simp: Let_def split: if_splits intro: Q_trans)
qed (simp add: Q_refl)

lemma check_predecessor_Q:
  assumes "dht_along Q net" "check_predecessor net n w = (n', w')"
  shows "Q (n, w) (n', w')"
proof (cases "safe_lock M_predecessor predecessor n")
  case (Some pred)
  show ?thesis
  proof (cases pred)
    case (Some p)
    obtain r n1 w1 where c: "net (ni_address p) Ping n w = (r, n1, w1)"
      by (cases "net (ni_address p) Ping n w") auto
    have "Q (n, w) (n1, w1)" using assms(1) c by (rule dht_alongD)
    moreover have "Q (n1, w1) (snd (safe_update M_predecessor (set_predecessor None) n1), w1)"
      by (intro safe_update_Q Q_predecessor) simp
    ultimately show ?thesis
      using assms(2) c Some \<open>safe_lock M_predecessor predecessor n = Some pred\<close>
      by (auto simp: check_predecessor_def reconcile_data_after_predecessor_failure_def Let_def
          split: if_splits intro: Q_trans dest!: recover_from_Q [OF assms(1)])
  qed (use assms(2) Some in \<open>simp add: check_predecessor_def Q_refl\<close>)
qed (use assms(2) in \<open>simp add: check_predecessor_def Q_refl\<close>)

end

context node_relation
begin

lemma successor_chain_R: "dht_rely R net \<Longrightarrow> successor_chain net k c n w = (ss, n', w') \<Longrightarrow> R n n'"
  by (drule rely_along, drule (1) paired.successor_chain_Q) simp

end

locale ring_relation = storage_relation +
  assumes R_successor: "R n (set_successor s n)"
    and R_predecessor: "(\<And>p. q = Some p \<Longrightarrow> ni_id p \<noteq> ni_id (info n)) \<Longrightarrow> R n (set_predecessor q n)"
    and R_successor_list: "length ss = SUCCESSOR_LIST_SIZE \<Longrightarrow> R n (set_successor_list ss n)"
    and R_finger: "1 \<le> i \<Longrightarrow> R n (set_finger i s n)"

sublocale ring_relation \<subseteq> paired: upkeep_relation "\<lambda>x y. R (fst x) (fst y)"
  by unfold_locales (simp_all add: R_successor R_predecessor R_successor_list R_finger)

context ring_relation
begin

lemma store_all_R: "dht_rely R net \<Longrightarrow> store_all E net kvs n w = (n', w') \<Longrightarrow> R n n'"
  by (drule rely_along, drule (1) paired.store_all_Q) simp

lemma join_R: "dht_rely R net \<Longrightarrow> join E net b n w = (n', w') \<Longrightarrow> R n n'"
  by (drule rely_along, drule (1) paired.join_Q) simp

lemma update_successor_list_R: "dht_rely R net \<Longrightarrow> update_successor_list net n w = (n', w') \<Longrightarrow> R n n'"
  by (drule rely_along, drule (1) paired.update_successor_list_Q) simp

lemma stabilize_R: "dht_rely R net \<Longrightarrow> stabilize E net n w = (n', w') \<Longrightarrow> R n n'"
  by (drule rely_along, drule (1) paired.stabilize_Q) simp

lemma notify_R: "dht_rely R net \<Longrightarrow> notify E net p n w = (n', w') \<Longrightarrow> R n n'"
  by (drule rely_along, drule (1) paired.notify_Q) simp

lemma fix_fingers_R: "dht_rely R net \<Longrightarrow> 1 \<le> i \<Longrightarrow> fix_fingers E net i n w = (n', w') \<Longrightarrow> R n n'"
  by (drule rely_along, drule (2) paired.fix_fingers_Q) simp

lemma check_predecessor_R: "dht_rely R net \<Longrightarrow> check_predecessor net n w = (n', w') \<Longrightarrow> R n n'"
  by (drule rely_along, drule (1) paired.check_predecessor_Q) simp

end

section \<open>All operations\<close>

text \<open>
  Well-formedness: the lengths of the two tables, a node is never its own predecessor, the first finger is the
  node itself (no operation ever changes it), and finitely many keys.
\<close>

definition node_wf :: "'m chord_node \<Rightarrow> bool" where
  "node_wf n \<longleftrightarrow> length (successor_list n) = SUCCESSOR_LIST_SIZE \<and> length (finger_table n) = M_bits \<and>
     finger_table n ! 0 = info n \<and>
     (\<forall>p. predecessor n = Some p \<longrightarrow> ni_id p \<noteq> ni_id (info n)) \<and> finite (dom (data n))"

definition node_good :: "'m chord_node \<Rightarrow> 'm chord_node \<Rightarrow> bool" where
  "node_good n n' \<longleftrightarrow> data_grows n n' \<and> (node_wf n \<longrightarrow> node_wf n')"

lemma data_grows_frame:
  "info n' = info n \<Longrightarrow> poisoned n' = poisoned n \<Longrightarrow> data n' = data n \<Longrightarrow> data_grows n n'"
  by (simp add: data_grows_def)

interpretation ring_good: ring_relation node_good
proof unfold_locales
  fix n n' n'' :: "'a chord_node"
  show "node_good n n" by (simp add: node_good_def data_grows_refl)
  show "node_good n n''" if "node_good n n'" "node_good n' n''"
    using that data_grows_trans [of n n' n''] by (auto simp: node_good_def)
next
  fix n :: "'a chord_node" and key vs
  have "node_wf n \<Longrightarrow> node_wf (extend_entry key vs n)" by (simp add: node_wf_def extend_entry_def)
  then show "node_good n (extend_entry key vs n)" by (simp add: node_good_def data_grows_extend)
next
  fix n :: "'a chord_node" and s
  show "node_good n (set_successor s n)"
    by (simp add: node_good_def data_grows_frame node_wf_def set_successor_def)
next
  fix n :: "'a chord_node" and q :: "node_info option"
  assume "\<And>p. q = Some p \<Longrightarrow> ni_id p \<noteq> ni_id (info n)"
  then show "node_good n (set_predecessor q n)"
    by (simp add: node_good_def data_grows_frame node_wf_def set_predecessor_def)
next
  fix n :: "'a chord_node" and ss :: "node_info list"
  assume "length ss = SUCCESSOR_LIST_SIZE"
  then show "node_good n (set_successor_list ss n)"
    by (simp add: node_good_def data_grows_frame node_wf_def set_successor_list_def)
next
  fix n :: "'a chord_node" and i :: nat and s
  assume "1 \<le> i"
  then show "node_good n (set_finger i s n)"
    by (simp add: node_good_def data_grows_frame node_wf_def set_finger_def)
qed

text \<open>
  The operations of a node other than the migration of load balancing, each run to its end; every call may
  interleave whatever itself moves along \<open>node_good\<close>. The last rule stands for the fields no rule reads.
\<close>

inductive node_step :: "env \<Rightarrow> 'm chord_node \<times> 'w \<Rightarrow> 'm chord_node \<times> 'w \<Rightarrow> bool" for E where
  ns_join: "dht_rely node_good net \<Longrightarrow> node_step E (n, w) (join E net b n w)"
| ns_stabilize: "dht_rely node_good net \<Longrightarrow> node_step E (n, w) (stabilize E net n w)"
| ns_notify: "dht_rely node_good net \<Longrightarrow> node_step E (n, w) (notify E net p n w)"
| ns_fix_fingers: "dht_rely node_good net \<Longrightarrow> 1 \<le> i \<Longrightarrow> i < M_bits \<Longrightarrow> node_step E (n, w) (fix_fingers E net i n w)"
| ns_check_predecessor: "dht_rely node_good net \<Longrightarrow> node_step E (n, w) (check_predecessor net n w)"
| ns_store: "dht_rely node_good net \<Longrightarrow> node_step E (n, w) (store_value E net key value n w)"
| ns_replicate: "node_step E (n, w) (snd (handle_replicate_data key vs i n), w)"
| ns_find: "dht_rely node_good net \<Longrightarrow> node_step E (n, w) (snd (find_successor E net key n w))"
| ns_retrieve: "dht_rely node_good net \<Longrightarrow> node_step E (n, w) (snd (retrieve_value E net key n w))"
| ns_other: "node_step E (n, w) (n\<lparr>node_loads := l, metrics := m, shutdown_signal := b, active_connections := c\<rparr>, w')"

lemma node_step_good: "node_step E x y \<Longrightarrow> node_good (fst x) (fst y)"
proof (induction rule: node_step.induct)
  case (ns_join net n w b)
  then show ?case by (metis ring_good.join_R fst_conv prod.collapse)
next
  case (ns_stabilize net n w)
  then show ?case by (metis ring_good.stabilize_R fst_conv prod.collapse)
next
  case (ns_notify net n w p)
  then show ?case by (metis ring_good.notify_R fst_conv prod.collapse)
next
  case (ns_fix_fingers net i n w)
  then show ?case by (metis ring_good.fix_fingers_R fst_conv prod.collapse)
next
  case (ns_check_predecessor net n w)
  then show ?case by (metis ring_good.check_predecessor_R fst_conv prod.collapse)
next
  case (ns_store net n w key v)
  then show ?case by (metis ring_good.store_value_R fst_conv prod.collapse)
next
  case (ns_replicate n w key vs i)
  then show ?case by (metis ring_good.handle_replicate_data_R fst_conv prod.collapse)
next
  case (ns_find net n w key)
  then show ?case by (metis ring_good.find_successor_R fst_conv prod.collapse)
next
  case (ns_retrieve net n w key)
  then show ?case by (metis ring_good.retrieve_value_R fst_conv prod.collapse)
next
  case (ns_other n w l m b c w')
  show ?case by (simp add: node_good_def data_grows_def node_wf_def)
qed

inductive node_reachable :: "env \<Rightarrow> 'm chord_node \<times> 'w \<Rightarrow> bool" for E where
  created: "node_reachable E (new_node E m address api_address, w)"
| operated: "node_reachable E x \<Longrightarrow> node_step E x y \<Longrightarrow> node_reachable E y"

lemma new_node_wf: "node_wf (new_node E m a api)"
  by (simp add: node_wf_def new_node_def Let_def M_bits_def SUCCESSOR_LIST_SIZE_def)

lemma node_reachable_wf: "node_reachable E x \<Longrightarrow> node_wf (fst x)"
proof (induction rule: node_reachable.induct)
  case (operated x y)
  then show ?case using node_step_good [of E x y] by (simp add: node_good_def)
qed (simp add: new_node_wf)

lemma node_steps_grow: "(node_step E)\<^sup>*\<^sup>* x y \<Longrightarrow> data_grows (fst x) (fst y)"
proof (induction rule: rtranclp_induct)
  case (step y z)
  then show ?case using node_step_good [of E y z] by (auto simp: node_good_def intro: data_grows_trans)
qed (simp add: data_grows_refl)

section \<open>Properties\<close>

text \<open>
  In every state a node can reach by its operations, whatever other nodes answer and however operations
  interleave at the calls: the successor list has three entries and the finger table 160, a node is never
  its own predecessor, and the first finger, which the code never refreshes, is still the node itself.
\<close>

theorem node_wellformed:
  assumes "node_reachable E (n, w)"
  shows "length (successor_list n) = 3 \<and> length (finger_table n) = 160 \<and> finger_table n ! 0 = info n \<and>
    (\<forall>p. predecessor n = Some p \<longrightarrow> ni_id p \<noteq> ni_id (info n)) \<and> finite (dom (data n))"
  using node_reachable_wf [OF assms] by (simp add: node_wf_def M_bits_def SUCCESSOR_LIST_SIZE_def)

lemma ring_net_good: "dht_rely node_good ring_net"
  by (rule ring_net_rely) (rule ring_good.R_refl)

theorem node_wellformed_witness:
  "let n = fst (join example_env ring_net (Some ''a'') (new_node example_env () ''x'' ''x'') ())
   in length (successor_list n) = 3 \<and> length (finger_table n) = 160"
proof -
  let ?x = "join example_env ring_net (Some ''a'') (new_node example_env () ''x'' ''x'') ()"
  have "node_reachable example_env ?x"
    using node_reachable.created ns_join [OF ring_net_good] by (rule node_reachable.operated)
  then have "node_reachable example_env (fst ?x, snd ?x)" by (simp only: prod.collapse)
  from node_wellformed [OF this] show ?thesis by (simp add: Let_def)
qed



end
