(* ===== verification/Ring_Protocol.thy ===== *)
theory Ring_Protocol
  imports Node_Ring
begin

text \<open>
  What \<open>stabilize\<close> and \<open>notify\<close> do to the ring pointers and which messages they send: how a node adopts a
  closer successor or falls back on its list, when a predecessor is accepted, and which keys are handed over.
\<close>

section \<open>The messages sent\<close>

definition dht_logging :: "('m, 'w) dht \<Rightarrow> ('m, 'w \<times> (string \<times> 'm dht_message) list) dht" where
  "dht_logging net a m n wl = (let (r, n', w') = net a m n (fst wl) in (r, n', (w', snd wl @ [(a, m)])))"

lemma dht_logging_eq [simp]:
  "dht_logging net a m n (w, l) = (fst (net a m n w), fst (snd (net a m n w)), snd (snd (net a m n w)), l @ [(a, m)])"
  by (simp add: dht_logging_def Let_def split_beta)

lemma dht_rely_logging: "dht_rely R net \<Longrightarrow> dht_rely R (dht_logging net)"
  unfolding dht_rely_def dht_logging_def by (auto simp: Let_def split_beta)

lemma send_all_log:
  "send_all (dht_logging net) a ms n (w, l) = (n', w', l') \<Longrightarrow> l' = l @ map (Pair a) ms"
proof (induction ms arbitrary: n w l)
  case (Cons m ms)
  obtain r n1 w1 where c: "net a m n w = (r, n1, w1)" by (cases "net a m n w") auto
  with Cons.prems have "send_all (dht_logging net) a ms n1 (w1, l @ [(a, m)]) = (n', w', l')"
    by simp
  from Cons.IH [OF this] show ?case by simp
qed simp

section \<open>Arcs\<close>

lemma ring_dist_sum: "ring_dist q p + ring_dist p s < 2 ^ 160 \<Longrightarrow> ring_dist q s = ring_dist q p + ring_dist p s"
  using nat_of_id_less [of p] nat_of_id_less [of q] nat_of_id_less [of s]
  by (auto simp: ring_dist_cases split: if_splits)

lemma ring_dist_add: "ring_dist q p \<le> ring_dist q s \<Longrightarrow> ring_dist q s = ring_dist q p + ring_dist p s"
  using nat_of_id_less [of p] nat_of_id_less [of q] nat_of_id_less [of s]
  by (auto simp: ring_dist_cases split: if_splits)

lemma ring_dist_0_iff: "ring_dist a b = 0 \<longleftrightarrow> a = b"
  using ring_dist_inject [of a b a] by (auto simp: ring_dist_cases)

lemma arcs_disjoint:
  assumes "bignum_ok E" "is_between E p q s" "is_between E k q p"
  shows "\<not> is_between E k p s"
proof
  assume "is_between E k p s"
  then have k: "k \<noteq> p" "ring_dist p k \<le> ring_dist p s" by (simp_all add: is_between_iff [OF assms(1)])
  have "ring_dist q s = ring_dist q p + ring_dist p s"
    using assms(2) by (intro ring_dist_add) (simp add: is_between_iff [OF assms(1)])
  then have "ring_dist q p + ring_dist p k < 2 ^ 160" using k(2) ring_dist_less [of q s] by linarith
  then have "ring_dist q k = ring_dist q p + ring_dist p k" by (rule ring_dist_sum)
  moreover have "ring_dist q k \<le> ring_dist q p" using assms(3) by (simp add: is_between_iff [OF assms(1)])
  ultimately have "ring_dist p k = 0" by simp
  with k(1) show False by (simp add: ring_dist_0_iff)
qed

lemma nearer_to_stop:
  assumes "bignum_ok E" "is_between E p q s"
  shows "ring_dist p s < ring_dist q s"
proof -
  have "ring_dist q s = ring_dist q p + ring_dist p s"
    using assms(2) by (intro ring_dist_add) (simp add: is_between_iff [OF assms(1)])
  moreover have "ring_dist q p \<noteq> 0" using assms(2) by (auto simp: is_between_iff [OF assms(1)] ring_dist_0_iff)
  ultimately show ?thesis by simp
qed

section \<open>The successor\<close>

definition succ_kept :: "'m chord_node \<Rightarrow> 'm chord_node \<Rightarrow> bool" where
  "succ_kept n n' \<longleftrightarrow> info n' = info n \<and> successor n' = successor n \<and> poisoned n' = poisoned n"

interpretation succ_await: node_relation succ_kept
  by unfold_locales (auto simp: succ_kept_def)

lemma update_successor_list_succ:
  assumes "dht_rely succ_kept net" "update_successor_list net n w = (n', w')"
  shows "succ_kept n n'"
proof -
  have u: "succ_kept n1 (snd (safe_update M_successor_list (set_successor_list ss) n1))" for n1 :: "'m chord_node" and ss
    by (simp add: succ_kept_def safe_update_def set_successor_list_def)
  have t: "succ_kept n (snd (safe_update M_successor_list (set_successor_list ss) n1))"
    if "succ_kept n n1" for n n1 :: "'m chord_node" and ss
    using that u by (rule succ_await.R_trans)
  show ?thesis
    using assms
    by (auto simp: update_successor_list_def succ_await.R_refl Let_def t split: option.splits prod.splits
        dest!: succ_await.successor_chain_R)
qed


text \<open>The ring with a node that has joined between the first two.\<close>

definition peer_x :: node_info where "peer_x = peer 15 ''x''"

definition joined_net :: "(unit, unit) dht" where
  "joined_net a m n w =
     (case m of
        GetPredecessor \<Rightarrow> (Inr (Predecessor (Some (ni_id peer_x)) (Some ''x'') (Some ''x'')), n, w)
      | _ \<Rightarrow> ring_net a m n w)"


section \<open>The predecessor and the transfer\<close>

lemma accept_predecessor_frame [simp]:
  "info (accept_predecessor p n) = info n" "data (accept_predecessor p n) = data n"
  "poisoned (accept_predecessor p n) = poisoned n" "predecessor (accept_predecessor p n) = Some p"
  by (simp_all add: accept_predecessor_def safe_update_def set_predecessor_def set_successor_def)

definition pred_kept :: "'m chord_node \<Rightarrow> 'm chord_node \<Rightarrow> bool" where
  "pred_kept n n' \<longleftrightarrow> info n' = info n \<and> predecessor n' = predecessor n"

interpretation pred_await: node_relation pred_kept
  by unfold_locales (auto simp: pred_kept_def)

lemma send_all_pred: "dht_rely pred_kept net \<Longrightarrow> send_all net a ms n w = (n', w') \<Longrightarrow> pred_kept n n'"
proof (induction ms arbitrary: n w)
  case (Cons m ms)
  obtain x n1 w1 where c: "net a m n w = (x, n1, w1)" by (cases "net a m n w") auto
  have "pred_kept n n1" using Cons.prems(1) c by (rule dht_relyD)
  with Cons c show ?case by (auto intro: pred_await.R_trans)
qed (simp add: pred_await.R_refl)

text \<open>
  \<open>notify\<close> accepts a candidate exactly when there is no predecessor or the candidate lies on the arc from the
  predecessor to the node, never the node itself; an accepted candidate is strictly closer than the one it
  replaces, and otherwise nothing changes.
\<close>

theorem notify_predecessor:
  assumes "bignum_ok E" "dht_rely pred_kept net" "\<not> poisoned n M_predecessor"
    and "notify E net p n w = (n', w')"
  shows "predecessor n' =
      (if ni_id p \<noteq> ni_id (info n) \<and>
          (\<forall>q. predecessor n = Some q \<longrightarrow> is_between E (ni_id p) (ni_id q) (ni_id (info n)))
       then Some p else predecessor n) \<and>
    (\<forall>q q'. predecessor n = Some q \<and> predecessor n' = Some q' \<and> q' \<noteq> q \<longrightarrow>
       ring_dist (ni_id q') (ni_id (info n)) < ring_dist (ni_id q) (ni_id (info n)))"
proof (cases "ni_id p \<noteq> ni_id (info n) \<and> accepts_predecessor E p (predecessor n) n")
  case True
  then have "predecessor n' = Some p"
    using assms(3,4) send_all_pred [OF assms(2)]
    by (fastforce simp: notify_def safe_lock_def Let_def pred_kept_def)
  with True show ?thesis
    by (auto simp: accepts_predecessor_def intro: nearer_to_stop [OF assms(1)] split: option.splits)
next
  case False
  then have "n' = n" using assms(3,4) by (auto simp: notify_def safe_lock_def split: if_splits)
  with False show ?thesis by (auto simp: accepts_predecessor_def split: option.splits)
qed

theorem notify_predecessor_witness:
  "predecessor (fst (notify example_env ring_net peer_x (node_a\<lparr>predecessor := Some peer_b\<rparr>) ())) = Some peer_b"
proof -
  let ?n = "node_a\<lparr>predecessor := Some peer_b\<rparr>"
  have "dht_rely pred_kept ring_net" by (rule ring_net_rely) (rule pred_await.R_refl)
  moreover have "\<not> poisoned ?n M_predecessor" by (simp add: node_a_def)
  moreover obtain n' w' where e: "notify example_env ring_net peer_x ?n () = (n', w')"
    by (cases "notify example_env ring_net peer_x ?n ()") auto
  ultimately have "predecessor n' = Some peer_b"
    using notify_predecessor [OF example_bignum_ok _ _ e]
    by (simp add: id_of_nat_eq_iff example_between peer_x_def peer_def)
  with e show ?thesis by simp
qed

lemma accepted_transfer_log:
  assumes "\<not> poisoned n M_predecessor" "ni_id p \<noteq> ni_id (info n)" "accepts_predecessor E p (predecessor n) n"
    and "notify E (dht_logging net) p n (w, []) = (n', w', l)"
  shows "l = map (\<lambda>(k, v). (ni_address p, Store k v))
    (flat_entries (get_data_range E (ni_id p) (ni_id (info n)) (accept_predecessor p n)))"
  using assms by (auto simp: notify_def safe_lock_def Let_def case_prod_beta' dest!: send_all_log)

lemma set_flat_entries: "set (flat_entries es) = {(k, v). \<exists>vs. (k, vs) \<in> set es \<and> v \<in> set vs}"
  by (auto simp: flat_entries_def)

text \<open>
  C34. The data transfer of \<open>notify\<close> sends the new predecessor exactly the values of the keys on the arc from it to the
  node, which the node itself stays responsible for; of the keys the new predecessor does become responsible
  for, on the arc from the old predecessor to it, none is sent. (The values sent stay on the node too.)
\<close>

theorem notify_transfer:
  assumes "env_ok E" "finite (dom (data n))" "\<not> poisoned n M_data" "\<not> poisoned n M_predecessor"
    and "ni_id p \<noteq> ni_id (info n)" "accepts_predecessor E p (predecessor n) n"
    and "notify E (dht_logging net) p n (w, []) = (n', w', l)"
  shows "set l = {(ni_address p, Store k v) | k v.
      \<exists>vs. data n k = Some vs \<and> v \<in> set vs \<and> is_between E k (ni_id p) (ni_id (info n))} \<and>
    (\<forall>q k v. predecessor n = Some q \<and> is_between E k (ni_id q) (ni_id p) \<longrightarrow> (ni_address p, Store k v) \<notin> set l)"
proof -
  have B: "bignum_ok E" using assms(1) by (simp add: env_ok_def)
  let ?n1 = "accept_predecessor p n"
  have range: "(k, vs) \<in> set (get_data_range E (ni_id p) (ni_id (info n)) ?n1) \<longleftrightarrow>
      data n k = Some vs \<and> is_between E k (ni_id p) (ni_id (info n))" for k vs
    using get_data_range_spec [OF assms(1), of ?n1 "ni_id p" "ni_id (info n)"] assms(2,3,5)
    by (simp add: is_between_iff [OF B])
  have l: "set l = {(ni_address p, Store k v) | k v.
      \<exists>vs. data n k = Some vs \<and> v \<in> set vs \<and> is_between E k (ni_id p) (ni_id (info n))}"
    using range by (auto simp: accepted_transfer_log [OF assms(4-7)] set_flat_entries image_iff)
  moreover have "\<not> is_between E k (ni_id p) (ni_id (info n))"
    if "predecessor n = Some q" "is_between E k (ni_id q) (ni_id p)" for q k
    using assms(6) that by (intro arcs_disjoint [OF B, of "ni_id p" "ni_id q"]) (auto simp: accepts_predecessor_def)
  ultimately show ?thesis by auto
qed

theorem notify_transfer_witness:
  "let n = node_a\<lparr>predecessor := Some peer_c, data := [id_of_nat 35 \<mapsto> [[1]], id_of_nat 8 \<mapsto> [[2]]]\<rparr>;
       l = snd (snd (notify example_env (dht_logging ring_net) (peer 40 ''y'') n ((), [])))
   in (''y'', Store (id_of_nat 8) [2]) \<in> set l \<and> (''y'', Store (id_of_nat 35) [1]) \<notin> set l"
proof -
  let ?n = "node_a\<lparr>predecessor := Some peer_c, data := [id_of_nat 35 \<mapsto> [[1]], id_of_nat 8 \<mapsto> [[2]]]\<rparr>"
  obtain n' w' l where e: "notify example_env (dht_logging ring_net) (peer 40 ''y'') ?n ((), []) = (n', w', l)"
    by (cases "notify example_env (dht_logging ring_net) (peer 40 ''y'') ?n ((), [])") auto
  have "accepts_predecessor example_env (peer 40 ''y'') (predecessor ?n) ?n"
    by (simp add: accepts_predecessor_def id_of_nat_eq_iff example_between peer_def)
  from notify_transfer [OF example_env_ok _ _ _ _ this e]
  have "set l = {(''y'', Store k v) | k v.
      \<exists>vs. data ?n k = Some vs \<and> v \<in> set vs \<and> is_between example_env k (id_of_nat 40) (id_of_nat 10)}"
    by (simp add: peer_def id_of_nat_eq_iff)
  then show ?thesis by (simp add: e Let_def id_of_nat_eq_iff example_between)
qed

end
