(* ===== verification/Recovery.thy ===== *)
theory Recovery
  imports Ring_Protocol
begin

text \<open>
  The recovery after a predecessor failed (\<open>check_predecessor\<close> and \<open>reconcile_data_after_predecessor_failure\<close> of
  \<open>node/src/node.rs\<close>): which range of keys is asked for, of whom, and what becomes of the answers.
\<close>

section \<open>What is asked and what is kept\<close>

text \<open>A network whose answers are fixed while the operation runs.\<close>

definition answering :: "(string \<Rightarrow> 'm dht_message \<Rightarrow> string + 'm dht_message) \<Rightarrow> ('m, 'w) dht" where
  "answering ans a m n w = (ans a m, n, w)"

lemma answering_eq: "answering ans a m n w = (ans a m, n, w)"
  by (simp add: answering_def)

definition values_at :: "node_id \<Rightarrow> 'm chord_node \<Rightarrow> bytes list" where
  "values_at k n = (case data n k of None \<Rightarrow> [] | Some vs \<Rightarrow> vs)"

definition values_for :: "node_id \<Rightarrow> (node_id \<times> bytes list) list \<Rightarrow> bytes list" where
  "values_for k kvs = concat (map snd (filter (\<lambda>kv. fst kv = k) kvs))"

lemma extend_entries_frame [simp]:
  "info (extend_entries kvs n) = info n" "predecessor (extend_entries kvs n) = predecessor n"
  "poisoned (extend_entries kvs n) = poisoned n"
  by (induction kvs n rule: extend_entries.induct) (simp_all add: extend_entry_def)

lemma values_extend_entries: "values_at k (extend_entries kvs n) = values_at k n @ values_for k kvs"
proof (induction kvs n rule: extend_entries.induct)
  case (2 key vs kvs n)
  have "values_at k (extend_entry key vs n) = values_at k n @ (if k = key then vs else [])"
    by (simp add: values_at_def extend_entry_def split: option.split)
  with 2 show ?case by (simp add: values_for_def)
qed (simp add: values_for_def)

text \<open>The nodes asked, and the answer of each.\<close>

definition asked :: "'m chord_node \<Rightarrow> node_info list \<Rightarrow> node_info list" where
  "asked n rs = filter (\<lambda>r. ni_id r \<noteq> ni_id (info n)) rs"

lemma recover_from_answers:
  assumes "\<not> poisoned n M_data"
    and "recover_from (dht_logging (answering ans)) i j rs n (w, l) = (n', w', l')"
  shows "l' = l @ map (\<lambda>r. (ni_address r, RequestReplicas i j)) (asked n rs) \<and> predecessor n' = predecessor n \<and>
    values_at k n' =
      values_at k n @ concat (map (\<lambda>r. values_for k (replica_data (ans (ni_address r) (RequestReplicas i j)))) (asked n rs))"
  using assms
proof (induction rs arbitrary: n w l)
  case (Cons r rs)
  show ?case
  proof (cases "ni_id r = ni_id (info n)")
    case True
    with Cons show ?thesis by (simp add: asked_def)
  next
    case False
    let ?kvs = "replica_data (ans (ni_address r) (RequestReplicas i j))" and ?m = "RequestReplicas i j"
    let ?n1 = "extend_entries ?kvs n"
    have "recover_from (dht_logging (answering ans)) i j rs ?n1 (w, l @ [(ni_address r, ?m)]) = (n', w', l')"
    proof -
      have net: "dht_logging (answering ans) (ni_address r) ?m n (w, l) =
          (ans (ni_address r) ?m, n, w, l @ [(ni_address r, ?m)])" by (simp add: answering_eq)
      have "recover_from N i j (r # rs) n (w, l) = recover_from N i j rs ?n1 (w, l @ [(ni_address r, ?m)])"
        if "N (ni_address r) ?m n (w, l) = (ans (ni_address r) ?m, n, w, l @ [(ni_address r, ?m)])"
        for N :: "('a, 'b \<times> (string \<times> 'a dht_message) list) dht"
        using that False Cons.prems(1) by (simp add: safe_update_def)
      from this [of "dht_logging (answering ans)", OF net] Cons.prems(2) show ?thesis by (simp only:)
    qed
    moreover have "\<not> poisoned ?n1 M_data" using Cons.prems(1) by simp
    ultimately show ?thesis
      using Cons.IH [of ?n1 w "l @ [(ni_address r, ?m)]"] False
      by (simp add: asked_def values_extend_entries)
  qed
qed (simp add: asked_def)

section \<open>Property\<close>

text \<open>
  C35. When the predecessor does not answer its ping, the node forgets it and asks the nodes that may hold replicas
  for the range from the failed predecessor to itself: the keys it was responsible for anyway. No key of the
  failed node's own range, up to the node before it, lies in what is asked for; and every answer is added at
  the end of the values the node has, so what it holds already, it holds once more.
\<close>

theorem recovery_asks_own_range:
  assumes "bignum_ok E" "\<not> poisoned n M_predecessor" "\<not> poisoned n M_data"
    and "predecessor n = Some p" "\<not> is_pong (ans (ni_address p) Ping)"
    and "check_predecessor (dht_logging (answering ans)) n (w, []) = (n', w', l)"
  defines "ask \<equiv> RequestReplicas (ni_id p) (ni_id (info n))"
    and "replicas \<equiv> get_replica_nodes_for_range (set_predecessor None n)"
  shows "predecessor n' = None \<and>
    l = (ni_address p, Ping) # map (\<lambda>r. (ni_address r, ask)) replicas \<and>
    (\<forall>k. values_at k n' = values_at k n @ concat (map (\<lambda>r. values_for k (replica_data (ans (ni_address r) ask))) replicas)) \<and>
    (\<forall>q k. is_between E (ni_id p) q (ni_id (info n)) \<and> is_between E k q (ni_id p) \<and> k \<noteq> ni_id (info n) \<longrightarrow>
       \<not> in_range_to E (ni_id p) (ni_id (info n)) k)"
proof -
  let ?n1 = "set_predecessor None n"
  have f: "info ?n1 = info n" "predecessor ?n1 = None" "\<not> poisoned ?n1 M_data" "\<not> poisoned ?n1 M_predecessor"
    "values_at k ?n1 = values_at k n" for k
    using assms(2,3) by (simp_all add: set_predecessor_def values_at_def)
  have net: "dht_logging (answering ans) (ni_address p) Ping n (w, []) = (ans (ni_address p) Ping, n, w, [(ni_address p, Ping)])"
    by (simp add: answering_eq)
  have "check_predecessor N n (w, []) =
      recover_from N (ni_id p) (ni_id (info n)) replicas ?n1 (w, [(ni_address p, Ping)])"
    if "N (ni_address p) Ping n (w, []) = (ans (ni_address p) Ping, n, w, [(ni_address p, Ping)])"
    for N :: "('a, 'b \<times> (string \<times> 'a dht_message) list) dht"
    using that assms(2-5) f
    by (simp add: check_predecessor_def safe_lock_def safe_update_def
        reconcile_data_after_predecessor_failure_def replicas_def)
  from this [where N = "dht_logging (answering ans)", OF net] assms(6)
  have "recover_from (dht_logging (answering ans)) (ni_id p) (ni_id (info n)) replicas ?n1 (w, [(ni_address p, Ping)]) =
      (n', w', l)" by (simp only:)
  note r = recover_from_answers [OF f(3) this]
  have "asked ?n1 replicas = replicas"
    by (simp add: asked_def replicas_def get_replica_nodes_for_range_def f(1))
  moreover have "\<not> in_range_to E (ni_id p) (ni_id (info n)) k"
    if "is_between E (ni_id p) q (ni_id (info n))" "is_between E k q (ni_id p)" "k \<noteq> ni_id (info n)" for q k
    using arcs_disjoint [OF assms(1) that(1,2)] that(3) by (simp add: in_range_to_def)
  ultimately show ?thesis using r f by (auto simp: ask_def)
qed

text \<open>A node in the ring of three whose predecessor is gone and whose successor holds what the node holds.\<close>

definition replica_answers :: "string \<Rightarrow> unit dht_message \<Rightarrow> string + unit dht_message" where
  "replica_answers a m =
     (case m of RequestReplicas i j \<Rightarrow> if a = ''b'' then Inr (ReplicaData [(id_of_nat 5, [[7]])]) else Inl ''refused''
      | _ \<Rightarrow> Inl ''refused'')"

theorem recovery_asks_own_range_witness:
  "let n = node_a\<lparr>data := [id_of_nat 5 \<mapsto> [[7]]], successor_list := [peer_b]\<rparr>
   in values_at (id_of_nat 5) (fst (check_predecessor (dht_logging (answering replica_answers)) n ((), []))) = [[7], [7]]"
proof -
  let ?n = "node_a\<lparr>data := [id_of_nat 5 \<mapsto> [[7]]], successor_list := [peer_b]\<rparr>"
  obtain n' w' l where c: "check_predecessor (dht_logging (answering replica_answers)) ?n ((), []) = (n', w', l)"
    using prod_cases3 by blast
  have "get_replica_nodes_for_range (set_predecessor None ?n) = [peer_b]"
    by (simp add: get_replica_nodes_for_range_def set_predecessor_def locked_list_def safe_lock_def node_a_def every_nth_def
        id_of_nat_eq_iff)
  then have "values_at (id_of_nat 5) n' = [[7], [7]]"
    using recovery_asks_own_range [OF example_bignum_ok _ _ _ _ c, of peer_c]
    by (simp add: replica_answers_def values_at_def values_for_def)
  then show ?thesis by (simp add: c)
qed

end
