(* ===== verification/Slots.thy ===== *)
theory Slots
  imports Main
begin

text \<open>
  The interface of a counter of slots with a capacity, one count per key: what the client side of a node's
  connections (per host) and its server side (for the whole node) share. The holders of slots are counted
  from outside; as long as slots are only given back by a holder, the counter is exact and the capacity holds.
\<close>

locale slot_counter =
  fixes wf :: "'s \<Rightarrow> bool" and used :: "'s \<Rightarrow> 'k \<Rightarrow> nat" and capacity :: "'s \<Rightarrow> nat"
    and take_slot :: "'k \<Rightarrow> 's \<Rightarrow> bool \<times> 's" and give_back :: "'k \<Rightarrow> 's \<Rightarrow> 's"
  assumes take_slot: "wf s \<Longrightarrow> used s k \<le> capacity s \<Longrightarrow> take_slot k s = (b, s') \<Longrightarrow>
      wf s' \<and> capacity s' = capacity s \<and> (b \<longleftrightarrow> used s k < capacity s) \<and>
      used s' = (if b then (used s)(k := Suc (used s k)) else used s)"
    and give_back: "wf s \<Longrightarrow> 0 < used s k \<Longrightarrow>
      wf (give_back k s) \<and> capacity (give_back k s) = capacity s \<and>
      used (give_back k s) = (used s)(k := used s k - 1)"
begin

definition accounted :: "'s \<Rightarrow> ('k \<Rightarrow> nat) \<Rightarrow> bool" where
  "accounted s held \<longleftrightarrow> wf s \<and> used s = held \<and> (\<forall>k. held k \<le> capacity s)"

lemma accounted_take:
  assumes "accounted s held" "take_slot k s = (b, s')"
  shows "accounted s' (if b then held(k := Suc (held k)) else held) \<and> (b \<longleftrightarrow> held k < capacity s) \<and> capacity s' = capacity s"
  using assms take_slot [of s k b s'] unfolding accounted_def by auto

lemma accounted_give:
  assumes "accounted s held" "0 < held k"
  shows "accounted (give_back k s) (held(k := held k - 1)) \<and> capacity (give_back k s) = capacity s"
proof -
  have "wf s" "0 < used s k" using assms by (simp_all add: accounted_def)
  from give_back [OF this] assms(1) show ?thesis by (auto simp: accounted_def intro: le_trans [OF diff_le_self])
qed

lemma full_refuses:
  assumes "accounted s held" "held k = capacity s"
  shows "\<not> fst (take_slot k s)"
  using accounted_take [OF assms(1), of k "fst (take_slot k s)" "snd (take_slot k s)"] assms(2) by simp

end

end
