(* ===== verification/Network_Client.thy ===== *)
theory Network_Client
  imports Chord_State Slots
begin

text \<open>
  The network client of a node (\<open>node/src/network_client.rs\<close>): the limit of connections per host, the guard
  that gives a connection's slot back, one call with its timeouts, and the retries around it. Calls of many
  tasks share the limiter: every wait of a call lets other tasks run. The lemmas bound the connections per
  host in every interleaving, and show what a slot that is not given back leads to.
\<close>

section \<open>The limiter\<close>

text \<open>
  Instants are nanoseconds; \<open>duration_since\<close> is zero for an instant in the future. A hash map is the list of its
  entries, with different keys.
\<close>

record connection_stats =
  active_count :: nat
  last_cleanup :: nat

record connection_limiter =
  stats :: "(string \<times> connection_stats) list"
  max_connections_per_host :: nat
  cleanup_interval :: nat

definition new_limiter :: "nat \<Rightarrow> connection_limiter" where
  "new_limiter k = \<lparr>stats = [], max_connections_per_host = k, cleanup_interval = 30 * 10 ^ 9\<rparr>"

definition cleanup_old_entries :: "nat \<Rightarrow> connection_limiter \<Rightarrow> connection_limiter" where
  "cleanup_old_entries now l =
     l\<lparr>stats := filter (\<lambda>(_, s). active_count s > 0 \<or> now - last_cleanup s < cleanup_interval l * 2) (stats l)\<rparr>"

definition can_connect :: "nat \<Rightarrow> string \<Rightarrow> connection_limiter \<Rightarrow> bool \<times> connection_limiter" where
  "can_connect now address l =
     (let l1 = (if list_ex (\<lambda>(_, s). now - last_cleanup s > cleanup_interval l) (stats l)
                then cleanup_old_entries now l else l)
      in case map_of (stats l1) address of
           Some s \<Rightarrow> (active_count s < max_connections_per_host l1, l1)
         | None \<Rightarrow> (0 < max_connections_per_host l1,
                    l1\<lparr>stats := stats l1 @ [(address, \<lparr>active_count = 0, last_cleanup = now\<rparr>)]\<rparr>))"

text \<open>\<open>get_mut\<close> with an update of the count; an address without an entry is left alone.\<close>

definition change_count :: "(nat \<Rightarrow> nat) \<Rightarrow> string \<Rightarrow> connection_limiter \<Rightarrow> connection_limiter" where
  "change_count f address l =
     l\<lparr>stats := map (\<lambda>(a, s). if a = address then (a, s\<lparr>active_count := f (active_count s)\<rparr>) else (a, s)) (stats l)\<rparr>"

definition increment_count :: "string \<Rightarrow> connection_limiter \<Rightarrow> connection_limiter" where
  "increment_count = change_count Suc"

text \<open>\<open>saturating_sub(1)\<close>\<close>

definition decrement_count :: "string \<Rightarrow> connection_limiter \<Rightarrow> connection_limiter" where
  "decrement_count = change_count (\<lambda>c. c - 1)"

section \<open>Calls\<close>

text \<open>
  What the tasks of a node share: the limiter, the guards of the calls that are running (with the task that
  holds each), the tasks spawned by dropped guards that have not run yet, and the guards whose task found the
  limiter locked and gave nothing back.
\<close>

record pool =
  limiter :: connection_limiter
  guards :: "(nat \<times> string) list"
  spawned :: "string list"
  lost :: "string list"

definition drop_guard :: "nat \<Rightarrow> string \<Rightarrow> pool \<Rightarrow> pool" where
  "drop_guard t address p = p\<lparr>guards := remove1 (t, address) (guards p), spawned := spawned p @ [address]\<rparr>"

text \<open>The task of a dropped guard: \<open>try_lock\<close> succeeds, or the limiter is locked and the task ends.\<close>

definition run_spawned :: "bool \<Rightarrow> string \<Rightarrow> pool \<Rightarrow> pool" where
  "run_spawned locked address p =
     (let q = p\<lparr>spawned := remove1 address (spawned p)\<rparr>
      in if locked then q\<lparr>lost := address # lost p\<rparr>
         else q\<lparr>limiter := decrement_count address (limiter p)\<rparr>)"

text \<open>The locked block of \<open>call_node_internal\<close>, with the guard made after it.\<close>

definition admit :: "nat \<Rightarrow> nat \<Rightarrow> string \<Rightarrow> pool \<Rightarrow> bool \<times> pool" where
  "admit now t address p =
     (let (ok, l) = can_connect now address (limiter p)
      in if ok then (True, p\<lparr>limiter := increment_count address l, guards := (t, address) # guards p\<rparr>)
         else (False, p\<lparr>limiter := l\<rparr>))"

text \<open>
  Sockets, timers and \<open>bincode\<close>. Every wait returns the pool as the other tasks left it. A result under a timeout is
  \<open>Elapsed\<close>, or what the operation completed with.
\<close>

datatype 'a timed = Elapsed | Completed "string + 'a"

record ('m, 'w) transport =
  tr_now :: "'w \<Rightarrow> nat"
  tr_lock :: "pool \<Rightarrow> 'w \<Rightarrow> pool \<times> 'w"
  tr_connect :: "string \<Rightarrow> pool \<Rightarrow> 'w \<Rightarrow> unit timed \<times> pool \<times> 'w"
  tr_write :: "bytes \<Rightarrow> pool \<Rightarrow> 'w \<Rightarrow> unit timed \<times> pool \<times> 'w"
  tr_shutdown :: "pool \<Rightarrow> 'w \<Rightarrow> unit timed \<times> pool \<times> 'w"
  tr_read :: "pool \<Rightarrow> 'w \<Rightarrow> bytes timed \<times> pool \<times> 'w"
  tr_sleep :: "nat \<Rightarrow> pool \<Rightarrow> 'w \<Rightarrow> pool \<times> 'w"
  tr_serialize :: "'m dht_message \<Rightarrow> string + bytes"
  tr_deserialize :: "bytes \<Rightarrow> string + 'm dht_message"

text \<open>The result under a timeout, with the error of the timeout.\<close>

definition in_time :: "string \<Rightarrow> 'a timed \<times> pool \<times> 'w \<Rightarrow> (string + 'a) \<times> pool \<times> 'w" where
  "in_time e x = (case x of (Elapsed, p, w) \<Rightarrow> (Inl e, p, w) | (Completed r, p, w) \<Rightarrow> (r, p, w))"

definition exchange ::
  "('m, 'w) transport \<Rightarrow> string \<Rightarrow> 'm dht_message \<Rightarrow> pool \<Rightarrow> 'w \<Rightarrow> (string + 'm dht_message) \<times> pool \<times> 'w"
where
  "exchange T address message p w =
     (case in_time ''Connection timeout'' (tr_connect T address p w) of
        (Inl e, p1, w1) \<Rightarrow> (Inl e, p1, w1)
      | (Inr _, p1, w1) \<Rightarrow>
          (case tr_serialize T message of
             Inl e \<Rightarrow> (Inl e, p1, w1)
           | Inr encoded \<Rightarrow>
               (case in_time ''Write timeout'' (tr_write T encoded p1 w1) of
                  (Inl e, p2, w2) \<Rightarrow> (Inl e, p2, w2)
                | (Inr _, p2, w2) \<Rightarrow>
                    (let (_, p3, w3) = tr_shutdown T p2 w2
                     in case in_time ''Read timeout'' (tr_read T p3 w3) of
                          (Inl e, p4, w4) \<Rightarrow> (Inl e, p4, w4)
                        | (Inr buffer, p4, w4) \<Rightarrow> (tr_deserialize T buffer, p4, w4)))))"

definition call_node_internal ::
  "('m, 'w) transport \<Rightarrow> nat \<Rightarrow> string \<Rightarrow> 'm dht_message \<Rightarrow> pool \<Rightarrow> 'w \<Rightarrow> (string + 'm dht_message) \<times> pool \<times> 'w"
where
  "call_node_internal T t address message p w =
     (let (p0, w0) = tr_lock T p w
      in case admit (tr_now T w0) t address p0 of
           (False, p1) \<Rightarrow> (Inl (''Connection limit exceeded for '' @ address), p1, w0)
         | (True, p1) \<Rightarrow>
             (let (r, p2, w2) = exchange T address message p1 w0 in (r, drop_guard t address p2, w2)))"

definition MAX_RETRIES :: nat where "MAX_RETRIES = 3"
definition INITIAL_RETRY_DELAY :: nat where "INITIAL_RETRY_DELAY = 100"
definition MAX_CONNECTIONS_PER_HOST :: nat where "MAX_CONNECTIONS_PER_HOST = 5"

text \<open>The loop over the attempts, with those left, the delay in milliseconds and the last error.\<close>

fun attempts ::
  "('m, 'w) transport \<Rightarrow> nat \<Rightarrow> string \<Rightarrow> 'm dht_message \<Rightarrow> nat \<Rightarrow> nat \<Rightarrow> string option \<Rightarrow> pool \<Rightarrow> 'w \<Rightarrow>
   (string + 'm dht_message) \<times> pool \<times> 'w"
where
  "attempts T t address message 0 delay last_error p w =
     (Inl (case last_error of None \<Rightarrow> ''Unknown error'' | Some e \<Rightarrow> e), p, w)"
| "attempts T t address message (Suc k) delay last_error p w =
     (let (p1, w1, delay1) = (if Suc k = MAX_RETRIES then (p, w, delay)
                              else (let (p', w') = tr_sleep T delay p w in (p', w', delay * 2)));
          (r, p2, w2) = call_node_internal T t address message p1 w1
      in case r of
           Inr response \<Rightarrow> (Inr response, p2, w2)
         | Inl e \<Rightarrow> attempts T t address message k delay1 (Some e) p2 w2)"

definition call_node ::
  "('m, 'w) transport \<Rightarrow> nat \<Rightarrow> string \<Rightarrow> 'm dht_message \<Rightarrow> pool \<Rightarrow> 'w \<Rightarrow> (string + 'm dht_message) \<times> pool \<times> 'w"
where
  "call_node T t address message p w = attempts T t address message MAX_RETRIES INITIAL_RETRY_DELAY None p w"

definition new_pool :: pool where
  "new_pool = \<lparr>limiter = new_limiter MAX_CONNECTIONS_PER_HOST, guards = [], spawned = [], lost = []\<rparr>"

section \<open>Slots\<close>

definition take_connection :: "nat \<Rightarrow> string \<Rightarrow> connection_limiter \<Rightarrow> bool \<times> connection_limiter" where
  "take_connection now address l =
     (let (ok, l1) = can_connect now address l in if ok then (True, increment_count address l1) else (False, l1))"

definition slots :: "connection_limiter \<Rightarrow> string \<Rightarrow> nat" where
  "slots l a = (case map_of (stats l) a of None \<Rightarrow> 0 | Some s \<Rightarrow> active_count s)"

definition limiter_wf :: "connection_limiter \<Rightarrow> bool" where
  "limiter_wf l \<longleftrightarrow> distinct (map fst (stats l))"

lemma map_of_filter_entries:
  "distinct (map fst xs) \<Longrightarrow>
   map_of (filter (\<lambda>(k, v). Q v) xs) a = (case map_of xs a of None \<Rightarrow> None | Some v \<Rightarrow> if Q v then Some v else None)"
  by (induction xs) (auto simp: map_of_eq_None_iff image_iff split: option.split)

lemma slots_cleanup: "limiter_wf l \<Longrightarrow> slots (cleanup_old_entries now l) = slots l"
  by (rule ext) (simp add: slots_def limiter_wf_def cleanup_old_entries_def map_of_filter_entries split: option.split)

lemma cleanup_wf: "limiter_wf l \<Longrightarrow> limiter_wf (cleanup_old_entries now l)"
  by (simp add: limiter_wf_def cleanup_old_entries_def distinct_map_filter)

lemma map_of_change:
  "map_of (map (\<lambda>(a, s). if a = k then (a, f s) else (a, s)) xs) a =
     (if a = k then map_option f (map_of xs a) else map_of xs a)"
  by (induction xs) auto

lemma slots_change:
  "slots (change_count f a l) =
     (case map_of (stats l) a of None \<Rightarrow> slots l | Some s \<Rightarrow> (slots l)(a := f (active_count s)))"
  by (rule ext) (auto simp: slots_def change_count_def map_of_change split: option.split)

lemma change_wf: "limiter_wf l \<Longrightarrow> limiter_wf (change_count f a l)"
proof -
  have "fst \<circ> (\<lambda>(b, s :: connection_stats). if b = a then (b, s\<lparr>active_count := f (active_count s)\<rparr>) else (b, s)) = fst" for a :: string
    by (auto simp: fun_eq_iff)
  then show "limiter_wf l \<Longrightarrow> limiter_wf (change_count f a l)" by (simp add: limiter_wf_def change_count_def)
qed

lemma can_connect_spec:
  assumes "limiter_wf l" "can_connect now a l = (ok, l')"
  shows "limiter_wf l' \<and> max_connections_per_host l' = max_connections_per_host l \<and> slots l' = slots l \<and>
    (ok \<longleftrightarrow> slots l a < max_connections_per_host l) \<and> map_of (stats l') a \<noteq> None"
proof -
  define l1 where "l1 = (if list_ex (\<lambda>(_, s). now - last_cleanup s > cleanup_interval l) (stats l)
      then cleanup_old_entries now l else l)"
  have l1: "limiter_wf l1" "slots l1 = slots l" "max_connections_per_host l1 = max_connections_per_host l"
    using assms(1) by (simp_all add: l1_def cleanup_wf slots_cleanup) (simp add: cleanup_old_entries_def)
  show ?thesis
  proof (cases "map_of (stats l1) a")
    case None
    then have "a \<notin> fst ` set (stats l1)" by (simp add: map_of_eq_None_iff)
    moreover have "slots l1 a = 0" using None by (simp add: slots_def)
    moreover have "slots (l1\<lparr>stats := stats l1 @ [(a, \<lparr>active_count = 0, last_cleanup = now\<rparr>)]\<rparr>) = slots l1"
      using None by (intro ext) (auto simp: slots_def map_add_def split: option.split)
    ultimately show ?thesis
      using assms(2) l1 None by (auto simp: can_connect_def l1_def [symmetric] Let_def limiter_wf_def)
  next
    case (Some s)
    then have "slots l1 a = active_count s" by (simp add: slots_def)
    with Some assms(2) l1 show ?thesis by (auto simp: can_connect_def l1_def [symmetric] Let_def)
  qed
qed

interpretation host: slot_counter limiter_wf slots max_connections_per_host "take_connection now" decrement_count for now
proof unfold_locales
  fix l a b l'
  assume wf: "limiter_wf l" and t: "take_connection now a l = (b, l')"
  obtain ok l1 where c: "can_connect now a l = (ok, l1)" by (cases "can_connect now a l")
  note cc = can_connect_spec [OF wf c]
  then obtain s where s: "map_of (stats l1) a = Some s" by blast
  then have "slots l1 a = active_count s" by (simp add: slots_def)
  with cc have "active_count s = slots l a" by simp
  with cc s t show "limiter_wf l' \<and> max_connections_per_host l' = max_connections_per_host l \<and>
      b = (slots l a < max_connections_per_host l) \<and> slots l' = (if b then (slots l)(a := Suc (slots l a)) else slots l)"
    by (auto simp: take_connection_def c increment_count_def slots_change change_wf split: if_splits)
       (simp_all add: change_count_def)
next
  fix l a
  assume wf: "limiter_wf l" and "0 < slots l a"
  then obtain s where "map_of (stats l) a = Some s" "active_count s = slots l a"
    by (auto simp: slots_def split: option.splits)
  with wf show "limiter_wf (decrement_count a l) \<and>
      max_connections_per_host (decrement_count a l) = max_connections_per_host l \<and>
      slots (decrement_count a l) = (slots l)(a := slots l a - 1)"
    by (simp add: decrement_count_def slots_change change_wf) (simp add: change_count_def)
qed

section \<open>All interleavings\<close>

text \<open>
  What one task can do to the pool in one go: the locked block, dropping a guard of its own, or being the task of
  a dropped guard.
\<close>

inductive pool_step :: "nat \<Rightarrow> pool \<Rightarrow> pool \<Rightarrow> bool" where
  step_admit: "admit now t a p = (b, p') \<Longrightarrow> pool_step t p p'"
| step_drop: "(t, a) \<in> set (guards p) \<Longrightarrow> pool_step t p (drop_guard t a p)"
| step_spawned: "a \<in> set (spawned p) \<Longrightarrow> pool_step t p (run_spawned locked a p)"

definition pool_steps :: "pool \<Rightarrow> pool \<Rightarrow> bool" where
  "pool_steps = (\<lambda>p p'. \<exists>t. pool_step t p p')\<^sup>*\<^sup>*"

definition others :: "nat \<Rightarrow> pool \<Rightarrow> pool \<Rightarrow> bool" where
  "others t = (\<lambda>p p'. \<exists>u. u \<noteq> t \<and> pool_step u p p')\<^sup>*\<^sup>*"

text \<open>During the waits of a task only other tasks move the pool.\<close>

definition transport_ok :: "nat \<Rightarrow> ('m, 'w) transport \<Rightarrow> bool" where
  "transport_ok t T \<longleftrightarrow>
     (\<forall>p w. others t p (fst (tr_lock T p w))) \<and> (\<forall>a p w. others t p (fst (snd (tr_connect T a p w)))) \<and>
     (\<forall>bs p w. others t p (fst (snd (tr_write T bs p w)))) \<and> (\<forall>p w. others t p (fst (snd (tr_shutdown T p w)))) \<and>
     (\<forall>p w. others t p (fst (snd (tr_read T p w)))) \<and> (\<forall>d p w. others t p (fst (tr_sleep T d p w)))"

lemma pool_steps_refl [intro]: "pool_steps p p"
  by (simp add: pool_steps_def)

lemma pool_steps_trans: "pool_steps p q \<Longrightarrow> pool_steps q r \<Longrightarrow> pool_steps p r"
  unfolding pool_steps_def by (rule rtranclp_trans)

lemma pool_step_steps: "pool_step t p q \<Longrightarrow> pool_steps p q"
  unfolding pool_steps_def by blast

lemma others_refl [intro]: "others t p p"
  by (simp add: others_def)

lemma others_trans: "others t p q \<Longrightarrow> others t q r \<Longrightarrow> others t p r"
  unfolding others_def by (rule rtranclp_trans)

lemma others_steps: "others t p q \<Longrightarrow> pool_steps p q"
proof -
  have "(\<lambda>p p'. \<exists>u. u \<noteq> t \<and> pool_step u p p') \<le> (\<lambda>p p'. \<exists>u. pool_step u p p')" by blast
  from rtranclp_mono [OF this] show "others t p q \<Longrightarrow> pool_steps p q"
    unfolding others_def pool_steps_def by (auto simp: le_fun_def)
qed

lemma set_remove1_other: "x \<in> set xs \<Longrightarrow> x \<noteq> y \<Longrightarrow> x \<in> set (remove1 y xs)"
  by (induction xs) auto

lemma others_keep_guard: "others t p q \<Longrightarrow> (t, a) \<in> set (guards p) \<Longrightarrow> (t, a) \<in> set (guards q)"
  unfolding others_def
proof (induction rule: rtranclp_induct)
  case (step q r)
  then obtain u where "u \<noteq> t" "pool_step u q r" by blast
  from this(2) \<open>u \<noteq> t\<close> step show ?case
    by (cases rule: pool_step.cases)
       (auto simp: admit_def drop_guard_def run_spawned_def Let_def set_remove1_other split: prod.splits if_splits)
qed simp

subsection \<open>A call is a path of steps\<close>

lemma in_time_pool: "fst (snd (in_time e x)) = fst (snd x)"
  by (auto simp: in_time_def split: prod.split timed.split)

lemma exchange_others:
  assumes "transport_ok t T" "exchange T address message p w = (r, p', w')"
  shows "others t p p'"
proof -
  have o: "others t p (fst (snd (in_time e (tr_connect T a p w))))" "others t p (fst (snd (in_time e (tr_write T bs p w))))"
    "others t p (fst (snd (in_time e (tr_read T p w))))" "others t p (fst (snd (tr_shutdown T p w)))" for e a bs p w
    using assms(1) by (simp_all add: transport_ok_def in_time_pool)
  obtain r1 p1 w1 where c: "in_time ''Connection timeout'' (tr_connect T address p w) = (r1, p1, w1)" using prod_cases3 by blast
  have 1: "others t p p1" using o(1) [of p "''Connection timeout''" address w] c by simp
  show ?thesis
  proof (cases "\<exists>x encoded. r1 = Inr x \<and> tr_serialize T message = Inr encoded")
    case True
    then obtain x encoded where x: "r1 = Inr x" "tr_serialize T message = Inr encoded" by blast
    obtain r2 p2 w2 where w: "in_time ''Write timeout'' (tr_write T encoded p1 w1) = (r2, p2, w2)" using prod_cases3 by blast
    obtain r3 p3 w3 where s: "tr_shutdown T p2 w2 = (r3, p3, w3)" using prod_cases3 by blast
    obtain r4 p4 w4 where d: "in_time ''Read timeout'' (tr_read T p3 w3) = (r4, p4, w4)" using prod_cases3 by blast
    have "others t p1 p2" "others t p2 p3" "others t p3 p4"
      using o(2) [of p1 "''Write timeout''" encoded w1] w o(4) [of p2 w2] s o(3) [of p3 "''Read timeout''" w3] d by simp_all
    moreover have "p' = p2 \<or> p' = p4" using assms(2) c x w s d by (auto simp: exchange_def split: sum.splits)
    ultimately show ?thesis using 1 by (blast intro: others_trans)
  next
    case False
    with assms(2) c have "p' = p1" by (auto simp: exchange_def split: sum.splits)
    with 1 show ?thesis by simp
  qed
qed

lemma call_node_internal_steps:
  assumes "transport_ok t T" "call_node_internal T t address message p w = (r, p', w')"
  shows "pool_steps p p'"
proof -
  obtain p0 w0 where l: "tr_lock T p w = (p0, w0)" by (cases "tr_lock T p w") auto
  obtain b p1 where a: "admit (tr_now T w0) t address p0 = (b, p1)" by (cases "admit (tr_now T w0) t address p0") auto
  obtain x p2 w2 where e: "exchange T address message p1 w0 = (x, p2, w2)" using prod_cases3 by blast
  have "others t p p0" using assms(1) l unfolding transport_ok_def by (metis fst_conv)
  then have "pool_steps p p0" by (rule others_steps)
  have 1: "pool_steps p p1"
    using \<open>pool_steps p p0\<close> pool_step_steps [OF step_admit [OF a]] by (rule pool_steps_trans)
  show ?thesis
  proof (cases b)
    case True
    have o: "others t p1 p2" by (rule exchange_others [OF assms(1) e])
    have "(t, address) \<in> set (guards p1)" using a True by (auto simp: admit_def split: prod.splits if_splits)
    then have "pool_step t p2 (drop_guard t address p2)" by (intro step_drop others_keep_guard [OF o])
    moreover have "p' = drop_guard t address p2" using assms(2) l a e True by (simp add: call_node_internal_def)
    ultimately show ?thesis using 1 others_steps [OF o] by (blast intro: pool_steps_trans pool_step_steps)
  next
    case False
    with assms(2) l a have "p' = p1" by (simp add: call_node_internal_def)
    with 1 show ?thesis by simp
  qed
qed

lemma attempts_steps:
  "transport_ok t T \<Longrightarrow> attempts T t address message k delay e p w = (r, p', w') \<Longrightarrow> pool_steps p p'"
proof (induction k arbitrary: delay e p w)
  case (Suc k)
  obtain p1 w1 delay1 where s: "(if Suc k = MAX_RETRIES then (p, w, delay)
      else (let (p', w') = tr_sleep T delay p w in (p', w', delay * 2))) = (p1, w1, delay1)" using prod_cases3 by blast
  obtain x p2 w2 where c: "call_node_internal T t address message p1 w1 = (x, p2, w2)" using prod_cases3 by blast
  have "others t p (fst (tr_sleep T delay p w))" using Suc.prems(1) by (simp add: transport_ok_def)
  then have "others t p p1" using s by (auto split: if_splits prod.splits)
  then have "pool_steps p p2"
    using call_node_internal_steps [OF Suc.prems(1) c] others_steps pool_steps_trans by blast
  moreover have "pool_steps p2 p'"
    using Suc.prems(2) s c Suc.IH [OF Suc.prems(1)] by (auto split: sum.splits)
  ultimately show ?case by (rule pool_steps_trans)
qed auto

subsection \<open>The account of the slots\<close>

text \<open>Who holds a slot of a host: a running call, a task that has yet to give it back, and a guard that never will.\<close>

definition holders :: "pool \<Rightarrow> string \<Rightarrow> nat" where
  "holders p a = count_list (map snd (guards p)) a + count_list (spawned p) a + count_list (lost p) a"

definition pool_inv :: "pool \<Rightarrow> bool" where
  "pool_inv p \<longleftrightarrow> slot_counter.accounted limiter_wf slots max_connections_per_host (limiter p) (holders p) \<and>
     max_connections_per_host (limiter p) = MAX_CONNECTIONS_PER_HOST"

lemma count_remove1_snd:
  "(t, a) \<in> set gs \<Longrightarrow> count_list (map snd gs) y = count_list (map snd (remove1 (t, a) gs)) y + (if a = y then 1 else 0)"
  by (induction gs) auto

lemma admit_take:
  "admit now t a p =
     (let (b, l) = take_connection now a (limiter p)
      in (b, if b then p\<lparr>limiter := l, guards := (t, a) # guards p\<rparr> else p\<lparr>limiter := l\<rparr>))"
  by (simp add: admit_def take_connection_def split: prod.split)

lemma pool_inv_step: "pool_step t p p' \<Longrightarrow> pool_inv p \<Longrightarrow> pool_inv p'"
proof (induction rule: pool_step.induct)
  case (step_admit now t a p b p')
  obtain b' l where c: "take_connection now a (limiter p) = (b', l)" by (cases "take_connection now a (limiter p)")
  then have "p' = (if b' then p\<lparr>limiter := l, guards := (t, a) # guards p\<rparr> else p\<lparr>limiter := l\<rparr>)"
    using step_admit.hyps by (auto simp: admit_take split: if_splits)
  moreover from this have "holders p' = (if b' then (holders p)(a := Suc (holders p a)) else holders p)"
    by (auto simp: holders_def fun_eq_iff)
  ultimately show ?case
    using step_admit.prems host.accounted_take [OF _ c, of "holders p"] by (auto simp: pool_inv_def)
next
  case (step_drop t a p)
  have "holders (drop_guard t a p) = holders p"
    using count_remove1_snd [OF step_drop.hyps] by (auto simp: holders_def drop_guard_def fun_eq_iff)
  then show ?case using step_drop.prems by (simp add: pool_inv_def) (simp add: drop_guard_def)
next
  case (step_spawned a p t locked)
  have "0 < count_list (spawned p) a" using step_spawned.hyps by (metis count_list_0_iff gr0I)
  then have h: "holders (run_spawned locked a p) = (if locked then holders p else (holders p)(a := holders p a - 1))"
      "0 < holders p a"
    by (auto simp: holders_def run_spawned_def Let_def fun_eq_iff)
  then show ?case
    using step_spawned.prems host.accounted_give [of "limiter p" "holders p" a]
    by (cases locked) (simp_all add: pool_inv_def, simp_all add: run_spawned_def Let_def)
qed

lemma pool_inv_new: "pool_inv new_pool"
  by (simp add: pool_inv_def host.accounted_def new_pool_def new_limiter_def limiter_wf_def fun_eq_iff slots_def holders_def)

lemma pool_inv_steps: "pool_steps p p' \<Longrightarrow> pool_inv p \<Longrightarrow> pool_inv p'"
  unfolding pool_steps_def by (induction rule: rtranclp_induct) (auto intro: pool_inv_step)

lemma lost_grows: "pool_steps p p' \<Longrightarrow> count_list (lost p) a \<le> count_list (lost p') a"
  unfolding pool_steps_def
proof (induction rule: rtranclp_induct)
  case (step q r)
  then obtain t where "pool_step t q r" by blast
  then have "count_list (lost q) a \<le> count_list (lost r) a"
    by (cases rule: pool_step.cases)
       (auto simp: admit_def drop_guard_def run_spawned_def Let_def split: prod.splits if_splits)
  with step.IH show ?case by simp
qed simp

lemma admit_full:
  assumes "pool_inv p" "MAX_CONNECTIONS_PER_HOST \<le> count_list (lost p) a"
  shows "\<not> fst (admit now t a p)"
proof -
  have "holders p a = max_connections_per_host (limiter p)"
    using assms by (auto simp: pool_inv_def host.accounted_def holders_def intro!: antisym)
  with assms(1) have "\<not> fst (take_connection now a (limiter p))"
    by (intro host.full_refuses [where held = "holders p"]) (simp_all add: pool_inv_def)
  then show ?thesis by (cases "take_connection now a (limiter p)") (simp add: admit_take)
qed

section \<open>Properties\<close>

text \<open>
  C19. The limit holds in every interleaving: in every state the tasks of a node can bring its connection pool to, a
  host has at most five running calls; its count is exactly the running calls, the slots waiting to be given
  back and those that were lost, so it never saturates; and a call, with its retries, ends in such a state.
\<close>

theorem connections_bounded:
  assumes "pool_steps new_pool p" "transport_ok t T"
  shows "pool_steps new_pool (fst (snd (call_node T t address message p w))) \<and>
    slots (limiter p) a = count_list (map snd (guards p)) a + count_list (spawned p) a + count_list (lost p) a \<and>
    slots (limiter p) a \<le> 5"
proof -
  have "pool_inv p" by (rule pool_inv_steps [OF assms(1) pool_inv_new])
  then have "slots (limiter p) a = holders p a" "holders p a \<le> 5"
    by (auto simp: pool_inv_def host.accounted_def MAX_CONNECTIONS_PER_HOST_def)
  moreover obtain r p' w' where r: "call_node T t address message p w = (r, p', w')" using prod_cases3 by blast
  then have "pool_steps p p'" by (intro attempts_steps [OF assms(2)]) (simp only: call_node_def)
  then have "pool_steps p (fst (snd (call_node T t address message p w)))" by (simp add: r)
  ultimately show ?thesis
    using pool_steps_trans [OF assms(1)] by (simp add: holders_def)
qed

definition refusing :: "(unit, unit) transport" where
  "refusing =
     \<lparr>tr_now = (\<lambda>_. 0), tr_lock = Pair, tr_connect = (\<lambda>_ p w. (Completed (Inl ''refused''), p, w)),
      tr_write = (\<lambda>_ p w. (Elapsed, p, w)), tr_shutdown = (\<lambda>p w. (Elapsed, p, w)), tr_read = (\<lambda>p w. (Elapsed, p, w)),
      tr_sleep = (\<lambda>_. Pair), tr_serialize = (\<lambda>_. Inr []), tr_deserialize = (\<lambda>_. Inl ''empty'')\<rparr>"

lemma refusing_ok: "transport_ok t refusing"
  by (auto simp: transport_ok_def refusing_def)

theorem connections_bounded_witness:
  "pool_steps new_pool (fst (snd (call_node refusing 1 ''h'' Ping new_pool ()))) \<and> slots (limiter new_pool) ''h'' \<le> 5"
  using connections_bounded [OF pool_steps_refl refusing_ok, of 1 "''h''" Ping "()" "''h''"] by blast

text \<open>
  C37. A guard whose task finds the limiter locked never gives its slot back: after five of them no call to that host
  is attempted any more, in this and in every later state, although no connection is open.
\<close>

theorem lost_slots_lock_out:
  assumes "pool_steps new_pool p" "5 \<le> count_list (lost p) address" "pool_steps p p'" "transport_ok t T"
  shows "fst (call_node_internal T t address message p' w) = Inl (''Connection limit exceeded for '' @ address)"
proof -
  obtain p0 w0 where l: "tr_lock T p' w = (p0, w0)" by (cases "tr_lock T p' w") auto
  have "others t p' p0" using assms(4) l unfolding transport_ok_def by (metis fst_conv)
  then have "pool_steps p p0" using assms(3) others_steps pool_steps_trans by blast
  then have "pool_inv p0" "5 \<le> count_list (lost p0) address"
    using pool_inv_steps [OF pool_steps_trans [OF assms(1)] pool_inv_new] lost_grows [of p p0 address] assms(2) by simp_all
  then have "\<not> fst (admit (tr_now T w0) t address p0)"
    by (intro admit_full) (simp_all add: MAX_CONNECTIONS_PER_HOST_def)
  then show ?thesis
    by (cases "admit (tr_now T w0) t address p0") (simp add: call_node_internal_def l)
qed

text \<open>Five calls whose guards all find the limiter locked.\<close>

definition leak :: "string \<Rightarrow> pool \<Rightarrow> pool" where
  "leak a p = run_spawned True a (drop_guard 0 a (snd (admit 0 0 a p)))"

lemma leak_steps:
  assumes "fst (admit 0 0 a p)"
  shows "pool_steps p (leak a p)"
proof -
  obtain p1 where p1: "admit 0 0 a p = (True, p1)" using assms by (cases "admit 0 0 a p") auto
  then have "(0, a) \<in> set (guards p1)" by (auto simp: admit_def split: prod.splits if_splits)
  moreover have "a \<in> set (spawned (drop_guard 0 a p1))" by (simp add: drop_guard_def)
  ultimately show ?thesis
    unfolding leak_def p1 snd_conv
    by (blast intro: pool_steps_trans pool_step_steps [OF step_admit [OF p1]] pool_step_steps [OF step_drop]
        pool_step_steps [OF step_spawned])
qed

definition leaked :: "nat \<Rightarrow> pool" where
  "leaked c =
     \<lparr>limiter = \<lparr>stats = [(''h'', \<lparr>active_count = c, last_cleanup = 0\<rparr>)], max_connections_per_host = 5,
                cleanup_interval = 30 * 10 ^ 9\<rparr>, guards = [], spawned = [], lost = replicate c ''h''\<rparr>"

lemma leak_leaked:
  "c < 5 \<Longrightarrow> fst (admit 0 0 ''h'' (leaked c)) \<and> leak ''h'' (leaked c) = leaked (Suc c)"
  by (simp add: leak_def leaked_def admit_def can_connect_def increment_count_def change_count_def drop_guard_def
      run_spawned_def Let_def)

lemma leak_new: "fst (admit 0 0 ''h'' new_pool) \<and> leak ''h'' new_pool = leaked 1"
  by (simp add: leak_def leaked_def admit_def can_connect_def increment_count_def change_count_def drop_guard_def
      run_spawned_def Let_def new_pool_def new_limiter_def MAX_CONNECTIONS_PER_HOST_def)

lemma leaked_steps: "c < 5 \<Longrightarrow> pool_steps new_pool (leaked (Suc c))"
proof (induction c)
  case 0
  then show ?case using leak_steps [of "''h''" new_pool] leak_new by simp
next
  case (Suc c)
  then show ?case using leak_steps [of "''h''" "leaked (Suc c)"] leak_leaked [of "Suc c"] by (auto intro: pool_steps_trans)
qed

theorem lost_slots_lock_out_witness:
  "guards (leaked 5) = [] \<and>
   fst (call_node_internal refusing 1 ''h'' Ping (leaked 5) ()) = Inl (''Connection limit exceeded for '' @ ''h'')"
proof -
  have s: "pool_steps new_pool (leaked 5)" using leaked_steps [of 4] by simp
  have "count_list (replicate n x) x = n" for n :: nat and x :: string by (induction n) simp_all
  then have "count_list (lost (leaked 5)) ''h'' = 5" "guards (leaked 5) = []" by (simp_all add: leaked_def)
  with lost_slots_lock_out [OF s _ pool_steps_refl refusing_ok, of "''h''" 1 Ping "()"] show ?thesis by simp
qed

text \<open>The waits of a call, noted: the delays slept and the connections begun.\<close>

datatype wait = Slept nat | Connecting string

definition lift_wait :: "('r \<times> pool \<times> 'w) \<Rightarrow> wait list \<Rightarrow> 'r \<times> pool \<times> 'w \<times> wait list" where
  "lift_wait x l = (fst x, fst (snd x), snd (snd x), l)"

definition noted :: "('m, 'w) transport \<Rightarrow> ('m, 'w \<times> wait list) transport" where
  "noted T =
     \<lparr>tr_now = (\<lambda>(w, l). tr_now T w),
      tr_lock = (\<lambda>p (w, l). let (p', w') = tr_lock T p w in (p', w', l)),
      tr_connect = (\<lambda>a p (w, l). lift_wait (tr_connect T a p w) (l @ [Connecting a])),
      tr_write = (\<lambda>bs p (w, l). lift_wait (tr_write T bs p w) l),
      tr_shutdown = (\<lambda>p (w, l). lift_wait (tr_shutdown T p w) l),
      tr_read = (\<lambda>p (w, l). lift_wait (tr_read T p w) l),
      tr_sleep = (\<lambda>d p (w, l). let (p', w') = tr_sleep T d p w in (p', w', l @ [Slept d])),
      tr_serialize = tr_serialize T, tr_deserialize = tr_deserialize T\<rparr>"

lemma lift_wait_pair [simp]: "lift_wait (r, p, w) l = (r, p, w, l)"
  by (simp add: lift_wait_def)

lemma in_time_lift: "in_time e (lift_wait x l) = lift_wait (in_time e x) l"
  by (cases x) (simp add: in_time_def split: timed.split)

lemma noted_simps:
  "tr_connect (noted T) a p (w, l) = lift_wait (tr_connect T a p w) (l @ [Connecting a])"
  "tr_write (noted T) bs p (w, l) = lift_wait (tr_write T bs p w) l"
  "tr_shutdown (noted T) p (w, l) = lift_wait (tr_shutdown T p w) l"
  "tr_read (noted T) p (w, l) = lift_wait (tr_read T p w) l"
  "tr_serialize (noted T) = tr_serialize T" "tr_deserialize (noted T) = tr_deserialize T"
  by (simp_all add: noted_def)

lemma noted_exchange:
  "exchange (noted T) address message p (w, l) = lift_wait (exchange T address message p w) (l @ [Connecting address])"
proof -
  obtain r1 p1 w1 where c: "in_time ''Connection timeout'' (tr_connect T address p w) = (r1, p1, w1)" using prod_cases3 by blast
  show ?thesis
  proof (cases "\<exists>x encoded. r1 = Inr x \<and> tr_serialize T message = Inr encoded")
    case True
    then obtain x encoded where x: "r1 = Inr x" "tr_serialize T message = Inr encoded" by blast
    obtain r2 p2 w2 where w: "in_time ''Write timeout'' (tr_write T encoded p1 w1) = (r2, p2, w2)" using prod_cases3 by blast
    obtain r3 p3 w3 where s: "tr_shutdown T p2 w2 = (r3, p3, w3)" using prod_cases3 by blast
    obtain r4 p4 w4 where d: "in_time ''Read timeout'' (tr_read T p3 w3) = (r4, p4, w4)" using prod_cases3 by blast
    show ?thesis by (simp add: exchange_def noted_simps in_time_lift c x w s d split: sum.split)
  qed (auto simp: exchange_def noted_simps in_time_lift c split: sum.split)
qed

lemma noted_internal:
  assumes "call_node_internal (noted T) t address message p (w, l) = (r, p', w', l')"
  shows "l' = l \<or> l' = l @ [Connecting address]"
proof -
  obtain p0 w0 where k: "tr_lock T p w = (p0, w0)" by (cases "tr_lock T p w") auto
  obtain b p1 where a: "admit (tr_now T w0) t address p0 = (b, p1)" by (cases "admit (tr_now T w0) t address p0") auto
  obtain x p2 w2 where e: "exchange T address message p1 w0 = (x, p2, w2)" using prod_cases3 by blast
  have "tr_lock (noted T) p (w, l) = (p0, w0, l)" "tr_now (noted T) (w0, l) = tr_now T w0" using k by (simp_all add: noted_def)
  with assms show ?thesis by (cases b) (simp_all add: call_node_internal_def a noted_exchange e)
qed

lemma noted_sleep: "tr_sleep (noted T) d p (w, l) = (let (p', w') = tr_sleep T d p w in (p', w', l @ [Slept d]))"
  by (simp add: noted_def)

lemma noted_attempt:
  assumes "attempts (noted T) t address message (Suc k) delay e p (w, l) = (r, p', w', l')" "k < 2"
  shows "\<exists>l1. (l1 = l @ [Slept delay] \<or> l1 = l @ [Slept delay, Connecting address]) \<and>
    ((\<exists>x. r = Inr x) \<and> l' = l1 \<or>
     (\<exists>e1 p1 w1. attempts (noted T) t address message k (delay * 2) (Some e1) p1 (w1, l1) = (r, p', w', l')))"
proof -
  obtain p0 w0 where s: "tr_sleep T delay p w = (p0, w0)" by (cases "tr_sleep T delay p w") auto
  obtain x p1 w1 l1 where c: "call_node_internal (noted T) t address message p0 (w0, l @ [Slept delay]) = (x, p1, w1, l1)"
    using prod_cases4 by blast
  have "Suc k \<noteq> MAX_RETRIES" using assms(2) by (simp add: MAX_RETRIES_def)
  then have "attempts (noted T) t address message (Suc k) delay e p (w, l) =
      (case x of Inr response \<Rightarrow> (Inr response, p1, w1, l1)
       | Inl e \<Rightarrow> attempts (noted T) t address message k (delay * 2) (Some e) p1 (w1, l1))"
    using s c by (simp add: noted_sleep)
  with assms(1) have "(\<exists>x. r = Inr x) \<and> l' = l1 \<or>
      (\<exists>e1 p1 w1. attempts (noted T) t address message k (delay * 2) (Some e1) p1 (w1, l1) = (r, p', w', l'))"
    by (cases x) auto
  with noted_internal [OF c] show ?thesis by (intro exI [of _ l1]) simp
qed

text \<open>
  The retries: a call connects at most once per attempt and only to its address, sleeps 100 and then 200
  milliseconds between at most three attempts, and fails only after the third.
\<close>

theorem call_node_attempts:
  assumes "call_node (noted T) t address message p (w, []) = (r, p', w', l)"
  shows "\<exists>d. filter (\<lambda>x. x \<noteq> Connecting address) l = map Slept d \<and> prefix d [100, 200] \<and>
    count_list l (Connecting address) \<le> Suc (length d) \<and> (\<forall>e. r = Inl e \<longrightarrow> d = [100, 200])"
proof -
  obtain x p1 w1 l1 where c: "call_node_internal (noted T) t address message p (w, []) = (x, p1, w1, l1)"
    using prod_cases4 by blast
  have l1: "l1 = [] \<or> l1 = [Connecting address]" using noted_internal [OF c] by simp
  have M: "MAX_RETRIES = Suc 2" by (simp add: MAX_RETRIES_def)
  have a: "(r, p', w', l) = (case x of Inr response \<Rightarrow> (Inr response, p1, w1, l1)
       | Inl e \<Rightarrow> attempts (noted T) t address message 2 100 (Some e) p1 (w1, l1))"
    using assms c unfolding call_node_def M attempts.simps(2) by (simp add: INITIAL_RETRY_DELAY_def)
  show ?thesis
  proof (cases x)
    case (Inr y)
    with a l1 show ?thesis by (intro exI [of _ "[]"]) auto
  next
    case (Inl e)
    with a have "attempts (noted T) t address message (Suc 1) 100 (Some e) p1 (w1, l1) = (r, p', w', l)"
      by (simp add: numeral_2_eq_2)
    from noted_attempt [OF this] l1 consider
        y where "l = l1 @ [Slept 100] \<or> l = l1 @ [Slept 100, Connecting address]" "r = Inr y"
      | l2 p2 w2 e2 where "l2 = l1 @ [Slept 100] \<or> l2 = l1 @ [Slept 100, Connecting address]"
          "attempts (noted T) t address message (Suc 0) 200 (Some e2) p2 (w2, l2) = (r, p', w', l)"
      by auto
    then show ?thesis
    proof cases
      case (1 y)
      with l1 show ?thesis by (intro exI [of _ "[100]"]) auto
    next
      case (2 l2 p2 w2 e2)
      from noted_attempt [OF 2(2)]
      have "\<exists>l3. (l3 = l2 @ [Slept 200] \<or> l3 = l2 @ [Slept 200, Connecting address]) \<and> l = l3" by auto
      with 2(1) l1 show ?thesis by (intro exI [of _ "[100, 200]"]) auto
    qed
  qed
qed

theorem call_node_attempts_witness:
  "let (r, p', w', l) = call_node (noted refusing) 1 ''h'' Ping new_pool ((), [])
   in count_list l (Connecting ''h'') \<le> 3 \<and> (\<exists>d. filter (\<lambda>x. x \<noteq> Connecting ''h'') l = map Slept d \<and> prefix d [100, 200])"
proof -
  obtain r p' w' l where c: "call_node (noted refusing) 1 ''h'' Ping new_pool ((), []) = (r, p', w', l)"
    using prod_cases4 by blast
  from call_node_attempts [OF c] obtain d where d: "filter (\<lambda>x. x \<noteq> Connecting ''h'') l = map Slept d"
    "prefix d [100, 200]" "count_list l (Connecting ''h'') \<le> Suc (length d)" by blast
  have "length d \<le> 2" using prefix_length_le [OF d(2)] by simp
  with d show ?thesis unfolding c by auto
qed

end
