(* ===== verification/Node_Metrics.thy ===== *)
theory Node_Metrics
  imports Node_Ring
begin

text \<open>
  The metrics of a node (\<open>lib/src/metrics.rs\<close> and \<open>node/src/node.rs\<close>): the gossip of estimates between
  neighbours and the update from the node's own state. Floating-point arithmetic rounds: its operations are
  parameters, its comparisons and its treatment of values that are not numbers are written out. The lemmas say
  what becomes of a metrics message whose latency overflows a duration.
\<close>

section \<open>Floating-point values\<close>

text \<open>\<open>f32\<close> and \<open>f64\<close> values are of type \<open>load\<close>; the arithmetic of each is a record of this type.\<close>

record float_ops =
  fadd :: "load \<Rightarrow> load \<Rightarrow> load"
  fsub :: "load \<Rightarrow> load \<Rightarrow> load"
  fmul :: "load \<Rightarrow> load \<Rightarrow> load"
  fdiv :: "load \<Rightarrow> load \<Rightarrow> load"
  fnat :: "nat \<Rightarrow> load"
  flit :: "rat \<Rightarrow> load"

text \<open>\<open>max\<close> and \<open>min\<close> ignore an operand that is not a number.\<close>

definition float_max :: "load \<Rightarrow> load \<Rightarrow> load" where
  "float_max a b = (if a = Load_NaN then b else if b = Load_NaN then a else if load_less a b then b else a)"

definition float_min :: "load \<Rightarrow> load \<Rightarrow> load" where
  "float_min a b = (if a = Load_NaN then b else if b = Load_NaN then a else if load_less b a then b else a)"

text \<open>Arithmetic that does not round, for the closed examples.\<close>

fun exact2 :: "(rat \<Rightarrow> rat \<Rightarrow> rat) \<Rightarrow> load \<Rightarrow> load \<Rightarrow> load" where
  "exact2 f (Load a) (Load b) = Load (f a b)"
| "exact2 f _ _ = Load_NaN"

definition exact_ops :: float_ops where
  "exact_ops = \<lparr>fadd = exact2 (+), fsub = exact2 (-), fmul = exact2 (*), fdiv = exact2 (/),
     fnat = (\<lambda>k. Load (of_nat k)), flit = Load\<rparr>"

section \<open>The metrics\<close>

text \<open>A \<open>Duration\<close> is a number of nanoseconds up to \<open>max_duration\<close>; adding durations panics beyond.\<close>

record network_metrics =
  node_churn_rate :: load
  routing_table_health :: load
  operation_success_rate :: load
  operation_latency :: nat
  message_type_ratio :: load
  local_key_count :: nat
  total_network_keys_estimate :: load
  network_size_estimate :: load
  cpu_usage_percent :: load
  memory_usage_percent :: load
  disk_usage_percent :: load
  nm_active_connections :: "32 word"
  request_rate_per_second :: load

definition default_metrics :: network_metrics where
  "default_metrics =
     \<lparr>node_churn_rate = Load 0, routing_table_health = Load 0, operation_success_rate = Load 1, operation_latency = 0,
      message_type_ratio = Load 0, local_key_count = 0, total_network_keys_estimate = Load 0,
      network_size_estimate = Load 1, cpu_usage_percent = Load 0, memory_usage_percent = Load 0,
      disk_usage_percent = Load 0, nm_active_connections = 0, request_rate_per_second = Load 0\<rparr>"

type_synonym node = "network_metrics chord_node"

definition max_duration :: nat where
  "max_duration = (2 ^ 64 - 1) * 10 ^ 9 + 999999999"

definition average :: "float_ops \<Rightarrow> load \<Rightarrow> load \<Rightarrow> load" where
  "average F a b = fdiv F (fadd F a b) (flit F 2)"

definition apply_bounds :: "float_ops \<Rightarrow> load \<Rightarrow> load \<Rightarrow> load" where
  "apply_bounds F old_estimate new_estimate =
     (let max_allowed = fmul F old_estimate (flit F 4); min_allowed = fdiv F old_estimate (flit F 4)
      in float_min (float_max new_estimate min_allowed) max_allowed)"

definition apply_smoothing :: "float_ops \<Rightarrow> load \<Rightarrow> load \<Rightarrow> load" where
  "apply_smoothing F old_estimate new_estimate =
     fadd F (fmul F (fsub F (flit F 1) (flit F (1 / 10))) old_estimate) (fmul F (flit F (1 / 10)) new_estimate)"

text \<open>The averages written before the durations are added, and those after.\<close>

definition average_first :: "float_ops \<Rightarrow> network_metrics \<Rightarrow> network_metrics \<Rightarrow> network_metrics" where
  "average_first F new m =
     m\<lparr>node_churn_rate := average F (node_churn_rate m) (node_churn_rate new),
       routing_table_health := average F (routing_table_health m) (routing_table_health new),
       operation_success_rate := average F (operation_success_rate m) (operation_success_rate new)\<rparr>"

definition average_rest :: "float_ops \<Rightarrow> network_metrics \<Rightarrow> network_metrics \<Rightarrow> network_metrics" where
  "average_rest F new m =
     m\<lparr>operation_latency := (operation_latency m + operation_latency new) div 2,
       message_type_ratio := average F (message_type_ratio m) (message_type_ratio new),
       total_network_keys_estimate := average F (total_network_keys_estimate m) (total_network_keys_estimate new),
       network_size_estimate :=
         (let new_raw_estimate = average F (network_size_estimate m) (network_size_estimate new)
          in apply_smoothing F (network_size_estimate m)
               (apply_bounds F (network_size_estimate m) new_raw_estimate))\<rparr>"

text \<open>
  A panic while the lock is held poisons the mutex, leaves the fields already written, and ends the task
  (\<open>Panic\<close>).
\<close>

definition handle_share_metrics :: "float_ops \<Rightarrow> network_metrics \<Rightarrow> node \<Rightarrow> network_metrics outcome \<times> node" where
  "handle_share_metrics F incoming n =
     (case safe_lock M_metrics metrics n of
        None \<Rightarrow> (Ok incoming, n)
      | Some local \<Rightarrow>
          (let m1 = average_first F incoming local
           in if operation_latency local + operation_latency incoming > max_duration
              then (Panic, n\<lparr>metrics := m1, poisoned := (poisoned n)(M_metrics := True)\<rparr>)
              else (let m2 = average_rest F incoming m1 in (Ok m2, n\<lparr>metrics := m2\<rparr>))))"

definition calculate_local_network_size_estimate :: "float_ops \<Rightarrow> env \<Rightarrow> node \<Rightarrow> load" where
  "calculate_local_network_size_estimate F E n =
     (case safe_lock M_successor successor n of
        None \<Rightarrow> flit F 1
      | Some s \<Rightarrow>
          (let self_id = node_id_to_biguint E (ni_id (info n)); succ_id = node_id_to_biguint E (ni_id s); max_id = 2 ^ 160;
               range = (if self_id \<le> succ_id then succ_id - self_id else max_id - self_id + succ_id)
           in if range = 0 then flit F 1 else fdiv F (fnat F max_id) (fnat F range)))"

definition update_network_estimate_f64 ::
  "float_ops \<Rightarrow> load \<Rightarrow> load \<Rightarrow> load \<Rightarrow> load \<Rightarrow> bool \<Rightarrow> load \<Rightarrow> load"
where
  "update_network_estimate_f64 F current local_value network_size contribution bounded smoothing =
     (let blended = fadd F (fmul F (fsub F (flit F 1) contribution) current)
            (fmul F contribution (fmul F local_value network_size));
          new_estimate = (if current = Load 0 then fmul F local_value network_size
                          else if bounded then apply_bounds F current blended else blended)
      in if load_less (Load 0) current
         then fadd F (fmul F (fsub F (flit F 1) smoothing) current) (fmul F smoothing new_estimate)
         else new_estimate)"

definition update_local_metrics :: "float_ops \<Rightarrow> env \<Rightarrow> node \<Rightarrow> node" where
  "update_local_metrics F E n =
     (case safe_lock M_metrics metrics n of
        None \<Rightarrow> n
      | Some m \<Rightarrow>
          (case safe_lock M_finger_table finger_table n of
             None \<Rightarrow> n
           | Some table \<Rightarrow>
               (let filled_slots = length (filter (\<lambda>f. ni_id f \<noteq> ni_id (info n)) table);
                    m1 = m\<lparr>routing_table_health := fdiv F (fnat F filled_slots) (fnat F M_bits)\<rparr>
                in case safe_lock M_data data n of
                     None \<Rightarrow> n\<lparr>metrics := m1\<rparr>
                   | Some d \<Rightarrow>
                       (let m2 = m1\<lparr>local_key_count := card (dom d)\<rparr>;
                            m3 = m2\<lparr>network_size_estimate :=
                              update_network_estimate_f64 F (network_size_estimate m2)
                                (calculate_local_network_size_estimate F E n)
                                (flit F 1) (flit F (2 / 10)) True (flit F (1 / 10))\<rparr>;
                            m4 = m3\<lparr>total_network_keys_estimate :=
                              update_network_estimate_f64 F (total_network_keys_estimate m3)
                                (fnat F (local_key_count m3)) (network_size_estimate m3)
                                (flit F (1 / 10)) False (flit F (5 / 100))\<rparr>
                        in n\<lparr>metrics := m4\<rparr>))))"

text \<open>The successor and every finger, without the node itself and without repetitions.\<close>

fun add_new_nodes :: "node_id \<Rightarrow> node_info list \<Rightarrow> node_info list \<Rightarrow> node_info list" where
  "add_new_nodes self found [] = found"
| "add_new_nodes self found (f # fs) =
     (if ni_id f \<noteq> self \<and> \<not> list_ex (\<lambda>n. ni_id n = ni_id f) found
      then add_new_nodes self (found @ [f]) fs else add_new_nodes self found fs)"

text \<open>\<open>pick\<close> is the random choice from a list that is not empty.\<close>

definition share_and_update_metrics ::
  "float_ops \<Rightarrow> env \<Rightarrow> (network_metrics, 'w) dht \<Rightarrow> (node_info list \<Rightarrow> node_info) \<Rightarrow> node \<Rightarrow> 'w \<Rightarrow>
   unit outcome \<times> node \<times> 'w"
where
  "share_and_update_metrics F E net pick n w =
     (let n0 = update_local_metrics F E n
      in case (safe_lock M_successor successor n0, safe_lock M_finger_table finger_table n0) of
           (Some s, Some table) \<Rightarrow>
             if ni_id s = ni_id (info n0) then (Ok (), n0, w)
             else (let random_node = pick (add_new_nodes (ni_id (info n0)) [s] table)
                   in case safe_lock M_metrics metrics n0 of
                        None \<Rightarrow> (Ok (), n0, w)
                      | Some local \<Rightarrow>
                          (case net (ni_address random_node) (ShareMetrics local) n0 w of
                             (Inr (MetricsShared m), n1, w1) \<Rightarrow>
                               (case handle_share_metrics F m n1 of
                                  (Panic, n2) \<Rightarrow> (Panic, n2, w1)
                                | (_, n2) \<Rightarrow> (Ok (), n2, w1))
                           | (_, n1, w1) \<Rightarrow> (Ok (), n1, w1)))
         | _ \<Rightarrow> (Ok (), n0, w))"

section \<open>Properties\<close>

text \<open>
  C38. The gossip of metrics either averages them under the lock, with a latency that again fits a duration, or
  ends the task: a received latency whose sum with the node's own overflows panics while the lock is held, so
  the mutex is poisoned, and from then on every exchange returns what it was given and changes nothing.
\<close>

theorem latency_overflow_poisons:
  assumes "\<not> poisoned n M_metrics" "operation_latency (metrics n) \<le> max_duration"
    and "handle_share_metrics F m n = (r, n')"
  shows "(operation_latency (metrics n) + operation_latency m > max_duration \<longleftrightarrow> r = Panic) \<and>
    (r = Panic \<longrightarrow> poisoned n' M_metrics \<and> (\<forall>m2. handle_share_metrics F m2 n' = (Ok m2, n'))) \<and>
    (r \<noteq> Panic \<longrightarrow> r = Ok (metrics n') \<and> poisoned n' = poisoned n \<and> operation_latency (metrics n') \<le> max_duration \<and>
       operation_latency (metrics n') = (operation_latency (metrics n) + operation_latency m) div 2)"
  using assms
  by (auto simp: handle_share_metrics_def safe_lock_def Let_def average_rest_def average_first_def split: if_splits)

definition poison_metrics :: network_metrics where
  "poison_metrics = default_metrics\<lparr>operation_latency := max_duration\<rparr>"

theorem latency_overflow_poisons_witness:
  "let n = (new_node example_env default_metrics ''n'' ''n'')\<lparr>metrics := default_metrics\<lparr>operation_latency := 1\<rparr>\<rparr>;
       (r, n') = handle_share_metrics exact_ops poison_metrics n
   in r = Panic \<and> handle_share_metrics exact_ops default_metrics n' = (Ok default_metrics, n')"
proof -
  let ?n = "(new_node example_env default_metrics ''n'' ''n'')\<lparr>metrics := default_metrics\<lparr>operation_latency := 1\<rparr>\<rparr>"
  obtain r n' where h: "handle_share_metrics exact_ops poison_metrics ?n = (r, n')" by (cases "handle_share_metrics exact_ops poison_metrics ?n")
  have "\<not> poisoned ?n M_metrics" by (simp add: new_node_def Let_def)
  from latency_overflow_poisons [OF this _ h] show ?thesis
    unfolding h Let_def by (simp add: poison_metrics_def max_duration_def)
qed

end
