(* ===== verification/Load_Balance.thy ===== *)
theory Load_Balance
  imports Node_Metrics
begin

text \<open>
  Load balancing of a node (\<open>node/src/node.rs\<close>): the load of the node, the periodic check, and the migration of
  keys to less loaded replicas. The lemmas say what a migration does with the values of a key, that the check
  never comes to migrating, and how the load feeds back into itself.
\<close>

section \<open>The code\<close>

definition MAX_CONNECTIONS :: "32 word" where "MAX_CONNECTIONS = 100"

definition update_node_load :: "node_id \<Rightarrow> load \<Rightarrow> 'm chord_node \<Rightarrow> 'm chord_node" where
  "update_node_load i l n = snd (safe_update M_node_loads (\<lambda>n. n\<lparr>node_loads := (node_loads n)(i \<mapsto> l)\<rparr>) n)"

definition calculate_current_load :: "float_ops \<Rightarrow> node \<Rightarrow> load" where
  "calculate_current_load G n =
     (let l0 = flit G 0;
          l1 = (case safe_lock M_data data n of
                  None \<Rightarrow> l0
                | Some d \<Rightarrow> fadd G l0 (fmul G (fnat G (card (dom d))) (flit G (1 / 1000))));
          l2 = fadd G l1 (fdiv G (fnat G (unat (active_connections n))) (fnat G (unat MAX_CONNECTIONS)));
          l3 = (case safe_lock M_metrics metrics n of
                  None \<Rightarrow> l2
                | Some m \<Rightarrow>
                    fadd G (fadd G (fadd G l2 (fdiv G (cpu_usage_percent m) (flit G 100)))
                      (fdiv G (memory_usage_percent m) (flit G 100)))
                      (fmul G (request_rate_per_second m) (flit G (1 / 100))))
      in float_min l3 (flit G 1))"

text \<open>\<open>min_by\<close>, from the left: an element is replaced only by a smaller one.\<close>

fun min_from :: "('a \<Rightarrow> 'a \<Rightarrow> bool) \<Rightarrow> 'a \<Rightarrow> 'a list \<Rightarrow> 'a" where
  "min_from lt x [] = x"
| "min_from lt x (y # ys) = min_from lt (if lt y x then y else x) ys"

definition min_by :: "('a \<Rightarrow> 'a \<Rightarrow> bool) \<Rightarrow> 'a list \<Rightarrow> 'a option" where
  "min_by lt xs = (case xs of [] \<Rightarrow> None | x # ys \<Rightarrow> Some (min_from lt x ys))"

text \<open>The least loaded replica other than the node, and whether to migrate to it.\<close>

definition migration_target :: "float_ops \<Rightarrow> node_info list \<Rightarrow> 'm chord_node \<Rightarrow> node_info option" where
  "migration_target G replica_nodes n =
     (case safe_lock M_node_loads node_loads n of
        None \<Rightarrow> None
      | Some loads \<Rightarrow>
          (case min_by (\<lambda>a b. load_less (load_of loads (flit G 1) a) (load_of loads (flit G 1) b))
                  (filter (\<lambda>r. ni_id r \<noteq> ni_id (info n)) replica_nodes) of
             None \<Rightarrow> None
           | Some r \<Rightarrow>
               if load_less (load_of loads (flit G 1) r)
                    (fsub G (load_of loads (flit G 0) (info n)) (flit G (2 / 10)))
               then Some r else None))"

text \<open>The values of a migrated key, one message each; a value whose call fails is put back.\<close>

fun send_values ::
  "('m, 'w) dht \<Rightarrow> node_id \<Rightarrow> node_info \<Rightarrow> bytes list \<Rightarrow> 'm chord_node \<Rightarrow> 'w \<Rightarrow> 'm chord_node \<times> 'w"
where
  "send_values net key target [] n w = (n, w)"
| "send_values net key target (v # vs) n w =
     (let (r, n1, w1) = net (ni_address target) (Store key v) n w
      in send_values net key target vs
           (case r of Inl _ \<Rightarrow> snd (safe_update M_data (extend_entry key [v]) n1) | Inr _ \<Rightarrow> n1) w1)"

definition migrate_key_to_node ::
  "('m, 'w) dht \<Rightarrow> node_id \<Rightarrow> node_info \<Rightarrow> 'm chord_node \<Rightarrow> 'w \<Rightarrow> 'm chord_node \<times> 'w"
where
  "migrate_key_to_node net key target n w =
     (case safe_lock M_data data n of
        None \<Rightarrow> (n, w)
      | Some d \<Rightarrow>
          (case d key of
             None \<Rightarrow> (n, w)
           | Some vs \<Rightarrow> send_values net key target vs (n\<lparr>data := d(key := None)\<rparr>) w))"

fun rebalance_keys ::
  "float_ops \<Rightarrow> env \<Rightarrow> ('m, 'w) dht \<Rightarrow> node_id list \<Rightarrow> 'm chord_node \<Rightarrow> 'w \<Rightarrow> 'm chord_node \<times> 'w"
where
  "rebalance_keys G E net [] n w = (n, w)"
| "rebalance_keys G E net (key # ks) n w =
     (let (replica_nodes, n1, w1) = get_replica_nodes E net key n w;
          (n2, w2) = (case migration_target G replica_nodes n1 of
                        None \<Rightarrow> (n1, w1)
                      | Some target \<Rightarrow> migrate_key_to_node net key target n1 w1)
      in rebalance_keys G E net ks n2 w2)"

definition rebalance_data ::
  "float_ops \<Rightarrow> env \<Rightarrow> ('m, 'w) dht \<Rightarrow> 'm chord_node \<Rightarrow> 'w \<Rightarrow> 'm chord_node \<times> 'w"
where
  "rebalance_data G E net n w =
     (case safe_lock M_data data n of
        None \<Rightarrow> (n, w)
      | Some d \<Rightarrow> rebalance_keys G E net (take 10 (data_order E d)) n w)"

text \<open>Writing the load into the metrics, as \<open>check_and_rebalance\<close> does before it decides.\<close>

definition record_load :: "float_ops \<Rightarrow> load \<Rightarrow> node \<Rightarrow> node" where
  "record_load G l n =
     (let n1 = update_node_load (ni_id (info n)) l n
      in snd (safe_update M_metrics (\<lambda>n. n\<lparr>metrics := (metrics n)
            \<lparr>cpu_usage_percent := fmul G l (flit G 100), nm_active_connections := active_connections n\<rparr>\<rparr>) n1))"

definition check_and_rebalance ::
  "float_ops \<Rightarrow> env \<Rightarrow> (network_metrics, 'w) dht \<Rightarrow> node \<Rightarrow> 'w \<Rightarrow> node \<times> 'w"
where
  "check_and_rebalance G E net n w =
     (let current_load = calculate_current_load G n;
          n1 = record_load G current_load n
      in if load_less (flit G (8 / 10)) current_load then rebalance_data G E net n1 w else (n1, w))"

section \<open>What every operation keeps\<close>

text \<open>
  The loads a node knows: only \<open>check_and_rebalance\<close> writes them, with the node's own identifier and at most 1.
\<close>

definition own_loads :: "'m chord_node \<Rightarrow> bool" where
  "own_loads n \<longleftrightarrow> (\<forall>i. i \<noteq> ni_id (info n) \<longrightarrow> node_loads n i = None) \<and>
     (\<forall>l. node_loads n (ni_id (info n)) = Some l \<longrightarrow> \<not> load_less (Load 1) l)"

definition kept :: "'m chord_node \<Rightarrow> 'm chord_node \<Rightarrow> bool" where
  "kept n n' \<longleftrightarrow> node_good n n' \<and> (own_loads n \<longrightarrow> own_loads n')"

lemma kept_frame: "node_good n n' \<Longrightarrow> info n' = info n \<Longrightarrow> node_loads n' = node_loads n \<Longrightarrow> kept n n'"
  by (simp add: kept_def own_loads_def)

interpretation kept: ring_relation kept
proof unfold_locales
  fix n n' n'' :: "'a chord_node"
  show "kept n n" by (simp add: kept_def ring_good.R_refl)
  show "kept n n''" if "kept n n'" "kept n' n''"
    using that ring_good.R_trans [of n n' n''] by (auto simp: kept_def)
next
  fix n :: "'a chord_node" and key vs
  assume "\<not> poisoned n M_data"
  then have "node_good n (extend_entry key vs n)" by (rule ring_good.R_extend)
  then show "kept n (extend_entry key vs n)" by (rule kept_frame) (simp_all add: extend_entry_def)
next
  fix n :: "'a chord_node" and s
  show "kept n (set_successor s n)" by (rule kept_frame [OF ring_good.R_successor]) (simp_all add: set_successor_def)
next
  fix n :: "'a chord_node" and q :: "node_info option"
  assume "\<And>p. q = Some p \<Longrightarrow> ni_id p \<noteq> ni_id (info n)"
  then have "node_good n (set_predecessor q n)" by (rule ring_good.R_predecessor)
  then show "kept n (set_predecessor q n)" by (rule kept_frame) (simp_all add: set_predecessor_def)
next
  fix n :: "'a chord_node" and ss :: "node_info list"
  assume "length ss = SUCCESSOR_LIST_SIZE"
  then have "node_good n (set_successor_list ss n)" by (rule ring_good.R_successor_list)
  then show "kept n (set_successor_list ss n)" by (rule kept_frame) (simp_all add: set_successor_list_def)
next
  fix n :: "'a chord_node" and i :: nat and s
  assume "1 \<le> i"
  then have "node_good n (set_finger i s n)" by (rule ring_good.R_finger)
  then show "kept n (set_finger i s n)" by (rule kept_frame) (simp_all add: set_finger_def)
qed

lemma metrics_kept:
  "kept n (n\<lparr>metrics := m\<rparr>)" "p M_data = poisoned n M_data \<Longrightarrow> kept n (n\<lparr>metrics := m, poisoned := p\<rparr>)"
  by (rule kept_frame; simp add: node_good_def data_grows_def node_wf_def)+

lemma connections_kept: "kept n (n\<lparr>active_connections := c\<rparr>)"
  by (rule kept_frame; simp add: node_good_def data_grows_def node_wf_def)

lemma handle_share_metrics_kept: "handle_share_metrics F m n = (r, n') \<Longrightarrow> kept n n'"
  by (auto simp: handle_share_metrics_def Let_def kept.R_refl metrics_kept split: option.splits if_splits)

lemma update_local_metrics_kept: "kept n (update_local_metrics F E n)"
  unfolding update_local_metrics_def Let_def
  by (auto simp: kept.R_refl metrics_kept split: option.splits)

section \<open>No migration\<close>

text \<open>The arithmetic of the comparison with the target: 0 and 1 are exact, and subtracting 0.2 from at most 1 is at most 1.\<close>

definition float_ok :: "float_ops \<Rightarrow> bool" where
  "float_ok G \<longleftrightarrow> flit G 0 = Load 0 \<and> flit G 1 = Load 1 \<and>
     (\<forall>x. \<not> load_less (Load 1) x \<longrightarrow> \<not> load_less (Load 1) (fsub G x (flit G (2 / 10))))"

lemma min_from_in: "min_from lt x ys \<in> insert x (set ys)"
proof (induction ys arbitrary: x)
  case (Cons y ys)
  from Cons.IH [of "if lt y x then y else x"] show ?case by auto
qed simp

lemma min_by_in: "min_by lt xs = Some r \<Longrightarrow> r \<in> set xs"
  using min_from_in [of lt] by (cases xs) (auto simp: min_by_def)

lemma no_target:
  assumes "float_ok G" "own_loads n"
  shows "migration_target G rs n = None"
proof -
  let ?load = "load_of (node_loads n) (flit G 1)" and ?xs = "filter (\<lambda>r. ni_id r \<noteq> ni_id (info n)) rs"
  have one: "flit G 0 = Load 0" "flit G 1 = Load 1" using assms(1) by (simp_all add: float_ok_def)
  have "\<not> load_less (Load 1) (load_of (node_loads n) (flit G 0) (info n))"
    using assms(2) by (auto simp: own_loads_def load_of_def one split: option.split)
  then have own: "\<not> load_less (Load 1) (fsub G (load_of (node_loads n) (flit G 0) (info n)) (flit G (2 / 10)))"
    using assms(1) by (simp add: float_ok_def)
  show ?thesis
  proof (cases "min_by (\<lambda>a b. load_less (?load a) (?load b)) ?xs")
    case (Some r)
    then have "r \<in> set ?xs" by (rule min_by_in)
    then have "?load r = Load 1" using assms(2) by (simp add: own_loads_def load_of_def one)
    with own Some show ?thesis by (simp add: migration_target_def safe_lock_def)
  qed (simp add: migration_target_def safe_lock_def)
qed

lemma float_min_one: "\<not> load_less (Load 1) (float_min a (Load 1))"
  by (simp add: float_min_def)

lemma current_load_capped: "float_ok G \<Longrightarrow> \<not> load_less (Load 1) (calculate_current_load G n)"
  by (simp add: calculate_current_load_def Let_def float_ok_def float_min_one)

text \<open>
  The contract of serving and of the periodic task: beside the ring, what the gossip of metrics, the recording of a
  load and the counting of connections do to a node. \<open>own\<close> is kept along the relation and gives what the decision not to migrate rests on.
\<close>

locale service_relation = upkeep_relation Q
  for Q :: "node \<times> 'w \<Rightarrow> node \<times> 'w \<Rightarrow> bool" +
  fixes own :: "node \<times> 'w \<Rightarrow> bool"
  assumes Q_metrics: "handle_share_metrics F m n = (r, n') \<Longrightarrow> Q (n, w) (n', w)"
    and Q_local: "Q (n, w) (update_local_metrics F E n, w)"
    and Q_load: "\<not> load_less (Load 1) l \<Longrightarrow> Q (n, w) (record_load G l n, w)"
    and Q_connections: "Q (n, w) (n\<lparr>active_connections := c\<rparr>, w)"
    and own_kept: "own x \<Longrightarrow> Q x y \<Longrightarrow> own y"
    and own_own_loads: "own (n, w) \<Longrightarrow> own_loads n"
begin

lemma share_and_update_metrics_Q:
  assumes "dht_along Q net" "share_and_update_metrics F E net pick n w = (r, n', w')"
  shows "Q (n, w) (n', w')"
proof -
  let ?n0 = "update_local_metrics F E n"
  define a where "a = ni_address (pick (add_new_nodes (ni_id (info ?n0)) [successor ?n0] (finger_table ?n0)))"
  obtain x n1 w1 where c: "net a (ShareMetrics (metrics ?n0)) ?n0 w = (x, n1, w1)"
    using prod_cases3 by blast
  have 1: "Q (n, w) (?n0, w)" by (rule Q_local)
  have 2: "Q (?n0, w) (n1, w1)" by (rule dht_alongD [OF assms(1) c])
  have "(n', w') = (?n0, w) \<or> (n', w') = (n1, w1) \<or> (\<exists>m r. handle_share_metrics F m n1 = (r, n') \<and> w' = w1)"
    using assms(2) c
    by (auto simp: share_and_update_metrics_def Let_def safe_lock_def a_def
        split: if_splits sum.splits dht_message.splits outcome.splits prod.splits)
  then show ?thesis using 1 2 Q_metrics by (blast intro: Q_trans)
qed

lemma rebalance_keys_Q:
  assumes "float_ok G" "dht_along Q net"
  shows "own (n, w) \<Longrightarrow> rebalance_keys G E net ks n w = (n', w') \<Longrightarrow> Q (n, w) (n', w')"
proof (induction ks arbitrary: n w)
  case (Cons k ks)
  obtain rs n1 w1 where r: "get_replica_nodes E net k n w = (rs, n1, w1)" using prod_cases3 by blast
  have 1: "Q (n, w) (n1, w1)" by (rule get_replica_nodes_Q [OF assms(2) r])
  with Cons.prems(1) have own: "own (n1, w1)" by (rule own_kept)
  with Cons.prems(2) r have "Q (n1, w1) (n', w')" by (simp add: no_target [OF assms(1) own_own_loads [OF own]] Cons.IH)
  with 1 show ?case by (rule Q_trans)
qed (simp add: Q_refl)

lemma check_and_rebalance_Q:
  assumes "float_ok G" "dht_along Q net" "own (n, w)" "check_and_rebalance G E net n w = (n', w')"
  shows "Q (n, w) (n', w')"
proof -
  let ?n1 = "record_load G (calculate_current_load G n) n"
  have 1: "Q (n, w) (?n1, w)" by (rule Q_load) (rule current_load_capped [OF assms(1)])
  with assms(3) have own: "own (?n1, w)" by (rule own_kept)
  have "Q (?n1, w) (rebalance_data G E net ?n1 w)"
    using rebalance_keys_Q [OF assms(1,2) own]
    by (cases "rebalance_keys G E net (take 10 (data_order E (data ?n1))) ?n1 w")
       (auto simp: rebalance_data_def safe_lock_def Q_refl)
  with 1 assms(4) show ?thesis
    by (auto simp: check_and_rebalance_def Let_def split: if_splits intro: Q_trans)
qed

end

lemma record_load_simps [simp]:
  "info (record_load G l n) = info n" "data (record_load G l n) = data n" "poisoned (record_load G l n) = poisoned n"
  "finger_table (record_load G l n) = finger_table n" "successor_list (record_load G l n) = successor_list n"
  "predecessor (record_load G l n) = predecessor n" "active_connections (record_load G l n) = active_connections n"
  "node_loads (record_load G l n) =
     (if poisoned n M_node_loads then node_loads n else (node_loads n)(ni_id (info n) \<mapsto> l))"
  "metrics (record_load G l n) =
     (if poisoned n M_metrics then metrics n
      else (metrics n)\<lparr>cpu_usage_percent := fmul G l (flit G 100), nm_active_connections := active_connections n\<rparr>)"
  by (simp_all add: record_load_def update_node_load_def safe_update_def)

lemma record_load_kept: "\<not> load_less (Load 1) l \<Longrightarrow> kept n (record_load G l n)"
  by (auto simp: kept_def node_good_def data_grows_def node_wf_def own_loads_def)

interpretation service: service_relation "\<lambda>x y. kept (fst x) (fst y)" "\<lambda>x. own_loads (fst x)"
  by unfold_locales
     (auto simp: handle_share_metrics_kept update_local_metrics_kept record_load_kept connections_kept, simp add: kept_def)

lemma check_and_rebalance_kept:
  "float_ok G \<Longrightarrow> dht_rely kept net \<Longrightarrow> own_loads n \<Longrightarrow> check_and_rebalance G E net n w = (n', w') \<Longrightarrow> kept n n'"
  using service.check_and_rebalance_Q [OF _ rely_along] by fastforce

section \<open>A check without interference\<close>

lemma exact_float_ok: "float_ok exact_ops"
proof -
  have "\<not> load_less (Load 1) (exact2 (-) x (Load (1 / 5)))" if "\<not> load_less (Load 1) x" for x
    using that by (cases x) auto
  then show ?thesis by (simp add: float_ok_def exact_ops_def)
qed

text \<open>A network during whose calls nothing else moves the node.\<close>

interpretation still: node_relation "(=)"
  by unfold_locales simp_all

lemma rebalance_keys_still:
  assumes "float_ok G" "dht_rely (=) net" "own_loads n"
  shows "fst (rebalance_keys G E net ks n w) = n"
proof (induction ks arbitrary: w)
  case (Cons k ks)
  obtain rs n1 w1 where r: "get_replica_nodes E net k n w = (rs, n1, w1)" using prod_cases3 by blast
  have "n = n1" by (rule still.get_replica_nodes_R [OF assms(2) r])
  with r have "get_replica_nodes E net k n w = (rs, n, w1)" by simp
  with Cons.IH show ?case by (simp add: no_target [OF assms(1,3)])
qed simp

lemma check_and_rebalance_still:
  assumes "float_ok G" "dht_rely (=) net" "own_loads n"
  shows "fst (check_and_rebalance G E net n w) = record_load G (calculate_current_load G n) n"
proof -
  have "own_loads (record_load G (calculate_current_load G n) n)"
    using record_load_kept [OF current_load_capped [OF assms(1)], of n G n] assms(3) by (simp add: kept_def)
  from rebalance_keys_still [OF assms(1,2) this] show ?thesis
    by (simp add: check_and_rebalance_def rebalance_data_def Let_def split: option.split)
qed

lemma load_round:
  fixes b :: rat
  assumes "\<not> poisoned n M_data" "\<not> poisoned n M_metrics"
    and "cpu_usage_percent (metrics n) = Load (100 * c)" "memory_usage_percent (metrics n) = Load 0"
    "request_rate_per_second (metrics n) = Load 0"
    and "b = of_nat (card (dom (data n))) / 1000 + of_nat (unat (active_connections n)) / 100"
  shows "calculate_current_load exact_ops n = Load (min 1 (b + c))"
  using assms
  by (simp add: calculate_current_load_def Let_def safe_lock_def exact_ops_def float_min_def MAX_CONNECTIONS_def min_def)

lemma min_step: "0 \<le> b \<Longrightarrow> min 1 (b + min 1 (of_nat k * b)) = min 1 (of_nat (Suc k) * b)" for b :: rat
  by (simp add: min_def algebra_simps)

section \<open>Properties\<close>

text \<open>
  C29. The periodic check moves no data: with the loads a node ever records (its own, at most 1; the others count as
  1), no replica is less loaded enough to migrate to, so checking, at whatever load and with anything running
  at its calls, loses no value and leaves the recorded loads as described.
\<close>

theorem load_balancing_never_migrates:
  assumes "float_ok G" "dht_rely kept net" "own_loads n" "check_and_rebalance G E net n w = (n', w')"
  shows "own_loads n' \<and> (\<forall>rs. migration_target G rs n' = None) \<and>
    (\<forall>key vs. data n key = Some vs \<longrightarrow> (\<exists>vs'. data n' key = Some vs' \<and> prefix vs vs'))"
proof -
  have k: "kept n n'" by (rule check_and_rebalance_kept [OF assms])
  with assms(3) have "own_loads n'" by (simp add: kept_def)
  with k show ?thesis
    using no_target [OF assms(1)] by (auto simp: kept_def node_good_def data_grows_def)
qed

definition idle_net :: "('m, 'w) dht" where
  "idle_net a m n w = (Inl ''refused'', n, w)"

lemma idle_rely: "(\<And>n. R n n) \<Longrightarrow> dht_rely R idle_net"
  by (simp add: dht_rely_def idle_net_def)

definition busy_node :: node where
  "busy_node = (new_node example_env default_metrics ''n'' ''n'')\<lparr>active_connections := 10\<rparr>"

lemma busy_node_facts:
  "own_loads busy_node" "\<not> poisoned busy_node m" "data busy_node = Map.empty" "active_connections busy_node = 10"
  "metrics busy_node = default_metrics"
  by (simp_all add: busy_node_def new_node_def Let_def own_loads_def)

theorem load_balancing_never_migrates_witness:
  "own_loads (fst (check_and_rebalance exact_ops example_env idle_net (busy_node\<lparr>data := [id_of_nat 5 \<mapsto> [[7]]]\<rparr>) ()))"
proof -
  let ?n = "busy_node\<lparr>data := [id_of_nat 5 \<mapsto> [[7]]]\<rparr>"
  obtain n' w' where c: "check_and_rebalance exact_ops example_env idle_net ?n () = (n', w')"
    by (cases "check_and_rebalance exact_ops example_env idle_net ?n ()")
  have "own_loads ?n" using busy_node_facts(1) by (simp add: own_loads_def)
  from load_balancing_never_migrates [OF exact_float_ok idle_rely [OF kept.R_refl] this c] show ?thesis by (simp add: c)
qed

text \<open>
  The load feeds back into itself: each check writes the computed load into the processor usage it is computed
  from, so at a constant number of keys and connections the load of the node grows by that share at every
  check until it is 1 (in exact arithmetic, with nothing else reported).
\<close>

theorem load_feeds_back:
  assumes "dht_rely (=) net" "own_loads n" "\<forall>m. \<not> poisoned n m" "cpu_usage_percent (metrics n) = Load 0"
    and "memory_usage_percent (metrics n) = Load 0" "request_rate_per_second (metrics n) = Load 0"
  shows "calculate_current_load exact_ops (fst (((\<lambda>(n, w). check_and_rebalance exact_ops E net n w) ^^ k) (n, w))) =
    Load (min 1 (of_nat (Suc k) *
      (of_nat (card (dom (data n))) / 1000 + of_nat (unat (active_connections n)) / 100)))"
proof -
  define b :: rat where "b = of_nat (card (dom (data n))) / 1000 + of_nat (unat (active_connections n)) / 100"
  let ?run = "\<lambda>k. ((\<lambda>(n, w). check_and_rebalance exact_ops E net n w) ^^ k) (n, w)"
  have "0 \<le> b"
    unfolding b_def by (intro add_nonneg_nonneg divide_nonneg_nonneg) (simp_all only: of_nat_0_le_iff zero_le_numeral)
  have inv: "own_loads (fst (?run k)) \<and> (\<forall>m. \<not> poisoned (fst (?run k)) m) \<and> data (fst (?run k)) = data n \<and>
      active_connections (fst (?run k)) = active_connections n \<and>
      cpu_usage_percent (metrics (fst (?run k))) = Load (100 * min 1 (of_nat k * b)) \<and>
      memory_usage_percent (metrics (fst (?run k))) = Load 0 \<and> request_rate_per_second (metrics (fst (?run k))) = Load 0" for k
  proof (induction k)
    case (Suc k)
    obtain m v where m: "?run k = (m, v)" by (cases "?run k")
    have s: "fst (?run (Suc k)) = record_load exact_ops (calculate_current_load exact_ops m) m"
      using check_and_rebalance_still [OF exact_float_ok assms(1), of m E v] Suc.IH m by simp
    have "calculate_current_load exact_ops m = Load (min 1 (b + min 1 (of_nat k * b)))"
      using Suc.IH m by (intro load_round) (simp_all add: b_def)
    then have l: "calculate_current_load exact_ops m = Load (min 1 (of_nat (Suc k) * b))"
      by (simp only: min_step [OF \<open>0 \<le> b\<close>])
    have "own_loads (fst (?run (Suc k)))"
      using record_load_kept [OF current_load_capped [OF exact_float_ok], of m exact_ops m] Suc.IH m
      unfolding s by (simp add: kept_def)
    with Suc.IH m show ?case unfolding s l by (simp add: exact_ops_def)
  qed (use assms in \<open>simp add: min_def\<close>)
  have "calculate_current_load exact_ops (fst (?run k)) = Load (min 1 (b + min 1 (of_nat k * b)))"
    using inv [of k] by (intro load_round) (simp_all add: b_def)
  then show ?thesis unfolding min_step [OF \<open>0 \<le> b\<close>] by (simp only: b_def)
qed

theorem load_feeds_back_witness:
  "calculate_current_load exact_ops busy_node = Load (1 / 10) \<and>
   calculate_current_load exact_ops
     (fst (((\<lambda>(n, w). check_and_rebalance exact_ops example_env idle_net n w) ^^ 9) (busy_node, ()))) = Load 1"
proof -
  have "dht_rely (=) (idle_net :: (network_metrics, unit) dht)" by (rule idle_rely) simp
  note f = load_feeds_back [OF this, where n = busy_node and E = example_env and w = "()"]
  show ?thesis
    using f [of 0] f [of 9] busy_node_facts by (simp add: default_metrics_def)
qed

section \<open>What a migration does\<close>

text \<open>A network that notes every message, its address, and whether the call succeeded.\<close>

definition dht_recording :: "('m, 'w) dht \<Rightarrow> ('m, 'w \<times> (string \<times> 'm dht_message \<times> bool) list) dht" where
  "dht_recording net a m n x =
     (let (r, n1, w1) = net a m n (fst x)
      in (r, n1, (w1, snd x @ [(a, m, case r of Inl _ \<Rightarrow> False | Inr _ \<Rightarrow> True)])))"

definition data_same :: "'m chord_node \<Rightarrow> 'm chord_node \<Rightarrow> bool" where
  "data_same n n' \<longleftrightarrow> data n' = data n \<and> poisoned n' M_data = poisoned n M_data"

definition failed_values :: "bytes list \<Rightarrow> (string \<times> 'm dht_message \<times> bool) list \<Rightarrow> bytes list" where
  "failed_values vs l = map fst (filter (\<lambda>(v, a, m, ok). \<not> ok) (zip vs l))"

definition with_values :: "node_id \<Rightarrow> bytes list \<Rightarrow> (node_id \<rightharpoonup> bytes list) \<Rightarrow> (node_id \<rightharpoonup> bytes list)" where
  "with_values key vs d = (if vs = [] then d else d(key \<mapsto> (case d key of None \<Rightarrow> [] | Some old \<Rightarrow> old) @ vs))"

lemma with_values_append: "with_values key (xs @ ys) d = with_values key ys (with_values key xs d)"
  by (simp add: with_values_def)

lemma failed_values_Cons: "failed_values (v # vs) (e # l) = failed_values [v] [e] @ failed_values vs l"
  by (simp add: failed_values_def)

lemma send_values_recorded:
  assumes "dht_rely data_same net"
  shows "\<not> poisoned n M_data \<Longrightarrow> send_values (dht_recording net) key target vs n (w, l0) = (n', w', l) \<Longrightarrow>
    \<exists>l1. l = l0 @ l1 \<and> map (\<lambda>(a, m, ok). (a, m)) l1 = map (\<lambda>v. (ni_address target, Store key v)) vs \<and>
      data n' = with_values key (failed_values vs l1) (data n)"
proof (induction vs arbitrary: n w l0)
  case Nil
  then show ?case by (simp add: failed_values_def with_values_def)
next
  case (Cons v vs)
  obtain r n1 w1 where c: "net (ni_address target) (Store key v) n w = (r, n1, w1)" using prod_cases3 by blast
  define n2 where "n2 = (case r of Inl _ \<Rightarrow> extend_entry key [v] n1 | Inr _ \<Rightarrow> n1)"
  define e where "e = (ni_address target, Store key v :: 'a dht_message, case r of Inl _ \<Rightarrow> False | Inr _ \<Rightarrow> True)"
  have step: "dht_recording net (ni_address target) (Store key v) n (w, l0) = (r, n1, w1, l0 @ [e])"
    by (simp add: dht_recording_def c e_def)
  have n1: "data n1 = data n" "\<not> poisoned n1 M_data"
    using dht_relyD [OF assms c] Cons.prems(1) by (simp_all add: data_same_def)
  then have p: "\<not> poisoned n2 M_data" by (simp add: n2_def extend_entry_def split: sum.split)
  have "send_values (dht_recording net) key target vs n2 (w1, l0 @ [e]) = (n', w', l)"
    using Cons.prems(2) n1(2) by (cases r) (simp_all add: step safe_update_def n2_def)
  from Cons.IH [OF p this] obtain l2 where l2: "l = (l0 @ [e]) @ l2"
    "map (\<lambda>(a, m, ok). (a, m)) l2 = map (\<lambda>v. (ni_address target, Store key v)) vs"
    "data n' = with_values key (failed_values vs l2) (data n2)" by blast
  have "data n2 = with_values key (failed_values [v] [e]) (data n)"
    using n1 by (simp add: n2_def e_def failed_values_def with_values_def extend_entry_def split: sum.split)
  then have "data n' = with_values key (failed_values (v # vs) (e # l2)) (data n)"
    unfolding l2(3) failed_values_Cons [of v vs] with_values_append by simp
  with l2(1,2) show ?case by (intro exI [of _ "e # l2"]) (simp add: e_def)
qed

text \<open>
  A migration of a key sends every value of it to the target, in order, and keeps on the node exactly the values
  whose call failed, in order; the key is gone when none failed, and no other key changes.
\<close>

theorem migration_conserves:
  assumes "dht_rely data_same net" "\<not> poisoned n M_data" "data n key = Some vs"
    and "migrate_key_to_node (dht_recording net) key target n (w, []) = (n', w', l)"
  shows "map (\<lambda>(a, m, ok). (a, m)) l = map (\<lambda>v. (ni_address target, Store key v)) vs \<and>
    data n' = (data n)(key := (case failed_values vs l of [] \<Rightarrow> None | fs \<Rightarrow> Some fs))"
proof -
  let ?n = "n\<lparr>data := (data n)(key := None)\<rparr>"
  have "send_values (dht_recording net) key target vs ?n (w, []) = (n', w', l)"
    using assms(2-4) by (simp add: migrate_key_to_node_def safe_lock_def)
  from send_values_recorded [OF assms(1) _ this] assms(2)
  have "map (\<lambda>(a, m, ok). (a, m)) l = map (\<lambda>v. (ni_address target, Store key v)) vs"
    "data n' = with_values key (failed_values vs l) (data ?n)" by simp_all
  then show ?thesis by (simp add: with_values_def split: list.split)
qed

text \<open>Of two values the second is refused.\<close>

definition picky_net :: "(unit, unit) dht" where
  "picky_net a m n w = (case m of Store _ v \<Rightarrow> if v = [8] then Inl ''refused'' else Inr Pong | _ \<Rightarrow> Inr Pong, n, w)"

theorem migration_conserves_witness:
  "let (n', w', l) = migrate_key_to_node (dht_recording picky_net) (id_of_nat 5) peer_b
         (node_a\<lparr>data := [id_of_nat 5 \<mapsto> [[7], [8]]]\<rparr>) ((), [])
   in length l = 2 \<and> data n' (id_of_nat 5) = Some [[8]]"
proof -
  let ?n = "node_a\<lparr>data := [id_of_nat 5 \<mapsto> [[7], [8]]]\<rparr>"
  let ?l = "[(''b'', Store (id_of_nat 5) [7], True), (''b'', Store (id_of_nat 5) [8], False)]"
  have "dht_rely data_same picky_net" by (simp add: dht_rely_def picky_net_def data_same_def)
  moreover obtain n' w' l where m: "migrate_key_to_node (dht_recording picky_net) (id_of_nat 5) peer_b ?n ((), []) = (n', w', l)"
    using prod_cases3 by blast
  ultimately have "data n' = (data ?n)(id_of_nat 5 := (case failed_values [[7], [8]] l of [] \<Rightarrow> None | fs \<Rightarrow> Some fs))"
    using migration_conserves [of picky_net ?n "id_of_nat 5" "[[7], [8]]" peer_b "()" n' w' l] by simp
  moreover have "l = ?l"
    using m by (auto simp: migrate_key_to_node_def safe_lock_def dht_recording_def picky_net_def safe_update_def node_a_def)
  ultimately show ?thesis by (simp add: m failed_values_def)
qed

end
