(* ===== verification/Node_Server.thy ===== *)
theory Node_Server
  imports Load_Balance Slots
begin

text \<open>
  The peer-to-peer server of a node (\<open>handle_connection\<close> of \<open>node/src/node.rs\<close>): the limit of connections, the
  reading of a message with its size limit, and the handler of every message; and the maintenance task of
  \<open>node/src/main.rs\<close>, which runs the periodic operations one after another.
\<close>

section \<open>Connections\<close>

text \<open>\<open>fetch_add\<close> with the check, and the guard's \<open>fetch_sub\<close>.\<close>

definition accept_connection :: "'m chord_node \<Rightarrow> bool \<times> 'm chord_node" where
  "accept_connection n =
     (let current_connections = active_connections n;
          n1 = n\<lparr>active_connections := current_connections + 1\<rparr>
      in if current_connections \<ge> MAX_CONNECTIONS
         then (False, n1\<lparr>active_connections := active_connections n1 - 1\<rparr>) else (True, n1))"

definition release_connection :: "'m chord_node \<Rightarrow> 'm chord_node" where
  "release_connection n = n\<lparr>active_connections := active_connections n - 1\<rparr>"

interpretation server: slot_counter "\<lambda>n. True" "\<lambda>n (_ :: unit). unat (active_connections n)" "\<lambda>n. 100"
  "\<lambda>_. accept_connection" "\<lambda>_. release_connection"
proof unfold_locales
  fix n :: "'a chord_node" and k :: unit and b n'
  assume le: "unat (active_connections n) \<le> 100" and a: "accept_connection n = (b, n')"
  have "MAX_CONNECTIONS \<le> active_connections n \<longleftrightarrow> 100 \<le> unat (active_connections n)"
    by (simp add: MAX_CONNECTIONS_def word_le_nat_alt)
  moreover have "unat (active_connections n + 1) = Suc (unat (active_connections n))" if "unat (active_connections n) < 100"
    using that by (simp add: unat_word_ariths)
  ultimately show "True \<and> 100 = (100 :: nat) \<and> b = (unat (active_connections n) < 100) \<and>
      (\<lambda>_. unat (active_connections n')) =
        (if b then (\<lambda>_. unat (active_connections n))(k := Suc (unat (active_connections n)))
         else (\<lambda>_. unat (active_connections n)))"
    using a by (auto simp: accept_connection_def Let_def fun_eq_iff split: if_splits)
next
  fix n :: "'a chord_node" and k :: unit
  assume "0 < unat (active_connections n)"
  then have "active_connections n \<noteq> 0" by auto
  then have "unat (active_connections n - 1) = unat (active_connections n) - 1" by (rule unat_minus_one)
  then show "True \<and> 100 = (100 :: nat) \<and>
      (\<lambda>_. unat (active_connections (release_connection n))) =
        (\<lambda>_. unat (active_connections n))(k := unat (active_connections n) - 1)"
    by (simp add: release_connection_def fun_eq_iff)
qed

section \<open>Reading a message\<close>

text \<open>What the reads of a socket yield: some bytes (none: the end), or an error. The end may also be the list's.\<close>

datatype read_event = Chunk bytes | Read_error

definition MAX_MESSAGE_SIZE :: nat where "MAX_MESSAGE_SIZE = 1024 * 1024"

fun read_message :: "read_event list \<Rightarrow> bytes \<Rightarrow> bytes option" where
  "read_message [] buffer = Some buffer"
| "read_message (Read_error # es) buffer = None"
| "read_message (Chunk bs # es) buffer =
     (if bs = [] then Some buffer
      else if length buffer + length bs > MAX_MESSAGE_SIZE then None
      else read_message es (buffer @ bs))"

section \<open>The messages\<close>

definition found_node :: "(node_id \<Rightarrow> string \<Rightarrow> string \<Rightarrow> 'm dht_message) \<Rightarrow> node_info \<Rightarrow> 'm dht_message" where
  "found_node c i = c (ni_id i) (ni_address i) (ni_api_address i)"

definition handle_message ::
  "float_ops \<Rightarrow> env \<Rightarrow> (network_metrics, 'w) dht \<Rightarrow> network_metrics dht_message \<Rightarrow> node \<Rightarrow> 'w \<Rightarrow>
   network_metrics dht_message outcome \<times> node \<times> 'w"
where
  "handle_message F E net m n w =
     (case m of
        FindSuccessor i \<Rightarrow>
          (let (s, n1, w1) = find_successor E net i n w in (Ok (found_node FoundSuccessor s), n1, w1))
      | FindPredecessor i \<Rightarrow>
          (let (p, n1, w1) = find_predecessor E net i n w in (Ok (found_node FoundPredecessor p), n1, w1))
      | GetSuccessor \<Rightarrow>
          (case safe_lock M_successor successor n of
             Some s \<Rightarrow> (Ok (found_node FoundSuccessor s), n, w)
           | None \<Rightarrow> (Ok (Error_message ''Failed to access successor information''), n, w))
      | ClosestPrecedingNode i \<Rightarrow>
          (Ok (found_node FoundClosestPrecedingNode (closest_preceding_node E i n)), n, w)
      | Store key v \<Rightarrow> (let (n1, w1) = store_value E net key v n w in (Ok Pong, n1, w1))
      | Retrieve key \<Rightarrow> (let (v, n1, w1) = retrieve_value E net key n w in (Ok (Retrieved key v), n1, w1))
      | GetPredecessor \<Rightarrow>
          (case safe_lock M_predecessor predecessor n of
             Some p \<Rightarrow> (Ok (Predecessor (map_option ni_id p) (map_option ni_address p) (map_option ni_api_address p)), n, w)
           | None \<Rightarrow> (Ok (Error_message ''Failed to access predecessor information''), n, w))
      | Notify i a api \<Rightarrow>
          (let (n1, w1) = notify E net \<lparr>ni_id = i, ni_address = a, ni_api_address = api\<rparr> n w in (Ok Pong, n1, w1))
      | Ping \<Rightarrow> (Ok Pong, n, w)
      | GetDataRange start stop \<Rightarrow> (Ok (DataRange (get_data_range E start stop n)), n, w)
      | ShareMetrics new \<Rightarrow>
          (case handle_share_metrics F new n of
             (Ok response_metrics, n1) \<Rightarrow> (Ok (MetricsShared response_metrics), n1, w)
           | (Err e, n1) \<Rightarrow> (Err e, n1, w)
           | (Panic, n1) \<Rightarrow> (Panic, n1, w))
      | ReplicateData key vs replica_id \<Rightarrow>
          (let (success, n1) = handle_replicate_data key vs replica_id n in (Ok (ReplicationAck key success), n1, w))
      | RequestReplicas start stop \<Rightarrow> (Ok (ReplicaData (handle_request_replicas E start stop n)), n, w)
      | _ \<Rightarrow> (Ok (Error_message ''Unsupported message type''), n, w))"

text \<open>\<open>bincode\<close>, third-party code: how a message is read and written.\<close>

record bincode =
  bc_deserialize :: "bytes \<Rightarrow> string + network_metrics dht_message"
  bc_serialize :: "network_metrics dht_message \<Rightarrow> string + bytes"

text \<open>
  One connection: the bytes written back, if any. The guard gives the slot back on every way out, also when the
  handler panics.
\<close>

definition handle_connection ::
  "bincode \<Rightarrow> float_ops \<Rightarrow> env \<Rightarrow> (network_metrics, 'w) dht \<Rightarrow> read_event list \<Rightarrow> node \<Rightarrow> 'w \<Rightarrow>
   bytes option \<times> node \<times> 'w"
where
  "handle_connection B F E net events n w =
     (case accept_connection n of
        (False, n1) \<Rightarrow> (None, n1, w)
      | (True, n1) \<Rightarrow>
          (case read_message events [] of
             None \<Rightarrow> (None, release_connection n1, w)
           | Some buffer \<Rightarrow>
               (case bc_deserialize B buffer of
                  Inl _ \<Rightarrow> (None, release_connection n1, w)
                | Inr message \<Rightarrow>
                    (case handle_message F E net message n1 w of
                       (Ok response, n2, w2) \<Rightarrow>
                         (case bc_serialize B response of
                            Inl _ \<Rightarrow> (None, release_connection n2, w2)
                          | Inr encoded \<Rightarrow> (Some encoded, release_connection n2, w2))
                     | (_, n2, w2) \<Rightarrow> (None, release_connection n2, w2)))))"

section \<open>The maintenance task\<close>

text \<open>One round of the loop; a panic ends the task. \<open>i\<close> and \<open>pick\<close> are the random choices.\<close>

definition maintenance_round ::
  "float_ops \<Rightarrow> float_ops \<Rightarrow> env \<Rightarrow> (network_metrics, 'w) dht \<Rightarrow> nat \<Rightarrow> (node_info list \<Rightarrow> node_info) \<Rightarrow> node \<Rightarrow> 'w \<Rightarrow>
   unit outcome \<times> node \<times> 'w"
where
  "maintenance_round F G E net i pick n w =
     (let (n1, w1) = stabilize E net n w;
          (n2, w2) = fix_fingers E net i n1 w1;
          (n3, w3) = check_predecessor net n2 w2
      in case share_and_update_metrics F E net pick n3 w3 of
           (Panic, n4, w4) \<Rightarrow> (Panic, n4, w4)
         | (_, n4, w4) \<Rightarrow> (let (n5, w5) = check_and_rebalance G E net n4 w4 in (Ok (), n5, w5)))"

section \<open>What serving and maintaining keep\<close>

context service_relation
begin

lemma accept_connection_Q: "accept_connection n = (b, n') \<Longrightarrow> Q (n, w) (n', w)"
  by (auto simp: accept_connection_def Let_def Q_connections Q_refl split: if_splits)

lemma release_connection_Q: "Q (n, w) (release_connection n, w)"
  by (simp add: release_connection_def Q_connections)

lemma handle_message_Q:
  assumes "dht_along Q net" "handle_message F E net m n w = (r, n', w')"
  shows "Q (n, w) (n', w')"
proof (cases m)
  case (FindSuccessor i)
  with assms show ?thesis by (auto simp: handle_message_def split: prod.splits dest: find_successor_Q)
next
  case (FindPredecessor i)
  with assms show ?thesis by (auto simp: handle_message_def split: prod.splits dest: find_predecessor_Q)
next
  case (Store key v)
  with assms show ?thesis by (auto simp: handle_message_def split: prod.splits dest: store_value_Q)
next
  case (Retrieve key)
  with assms show ?thesis by (auto simp: handle_message_def split: prod.splits dest: retrieve_value_Q)
next
  case (Notify i a api)
  with assms show ?thesis by (auto simp: handle_message_def split: prod.splits dest: notify_Q)
next
  case (ShareMetrics new)
  with assms show ?thesis by (auto simp: handle_message_def split: prod.splits outcome.splits dest: Q_metrics)
next
  case (ReplicateData key vs i)
  with assms show ?thesis by (auto simp: handle_message_def split: prod.splits dest: handle_replicate_data_Q)
qed (use assms in \<open>auto simp: handle_message_def Q_refl split: option.splits\<close>)

lemma handle_connection_Q:
  assumes "dht_along Q net" "handle_connection B F E net events n w = (r, n', w')"
  shows "Q (n, w) (n', w')"
proof -
  obtain b n1 where a: "accept_connection n = (b, n1)" by (cases "accept_connection n")
  have "(n', w') = (n1, w) \<or> (n', w') = (release_connection n1, w) \<or>
      (\<exists>m x n2. handle_message F E net m n1 w = (x, n2, w') \<and> n' = release_connection n2)"
    using assms(2) a by (auto simp: handle_connection_def split: bool.splits option.splits sum.splits prod.splits outcome.splits)
  then show ?thesis
    using accept_connection_Q [OF a] handle_message_Q [OF assms(1)] release_connection_Q by (blast intro: Q_trans)
qed

lemma maintenance_round_Q:
  assumes "float_ok G" "dht_along Q net" "own (n, w)" "1 \<le> i"
    and "maintenance_round F G E net i pick n w = (r, n', w')"
  shows "Q (n, w) (n', w')"
proof -
  obtain n1 w1 where s: "stabilize E net n w = (n1, w1)" by (cases "stabilize E net n w")
  obtain n2 w2 where f: "fix_fingers E net i n1 w1 = (n2, w2)" by (cases "fix_fingers E net i n1 w1")
  obtain n3 w3 where c: "check_predecessor net n2 w2 = (n3, w3)" by (cases "check_predecessor net n2 w2")
  obtain x n4 w4 where m: "share_and_update_metrics F E net pick n3 w3 = (x, n4, w4)" using prod_cases3 by blast
  have k: "Q (n, w) (n4, w4)"
    using stabilize_Q [OF assms(2) s] fix_fingers_Q [OF assms(2,4) f] check_predecessor_Q [OF assms(2) c]
      share_and_update_metrics_Q [OF assms(2) m] by (blast intro: Q_trans)
  have own: "own (n4, w4)" by (rule own_kept [OF assms(3) k])
  obtain n5 w5 where b: "check_and_rebalance G E net n4 w4 = (n5, w5)" by (cases "check_and_rebalance G E net n4 w4")
  have "(n', w') = (n4, w4) \<or> (n', w') = (n5, w5)"
    using assms(5) s f c m b by (auto simp: maintenance_round_def split: outcome.splits)
  with k check_and_rebalance_Q [OF assms(1,2) own b] show ?thesis by (blast intro: Q_trans)
qed

end

lemma handle_message_kept:
  "dht_rely kept net \<Longrightarrow> handle_message F E net m n w = (r, n', w') \<Longrightarrow> kept n n'"
  by (drule rely_along, drule (1) service.handle_message_Q) simp

lemma handle_connection_kept:
  "dht_rely kept net \<Longrightarrow> handle_connection B F E net events n w = (r, n', w') \<Longrightarrow> kept n n'"
  by (drule rely_along, drule (1) service.handle_connection_Q) simp

section \<open>Properties\<close>

text \<open>The answers a message may get, as its callers read them; \<open>Error_message\<close> stands for a poisoned mutex.\<close>

fun is_error :: "'m dht_message \<Rightarrow> bool" where
  "is_error (Error_message _) = True"
| "is_error _ = False"

definition answers :: "'m dht_message \<Rightarrow> 'm dht_message \<Rightarrow> bool" where
  "answers m r =
     (case m of
        FindSuccessor _ \<Rightarrow> found_successor (Inr r) \<noteq> None
      | FindPredecessor _ \<Rightarrow> (case r of FoundPredecessor _ _ _ \<Rightarrow> True | _ \<Rightarrow> False)
      | GetSuccessor \<Rightarrow> found_successor (Inr r) \<noteq> None \<or> is_error r
      | ClosestPrecedingNode _ \<Rightarrow> found_closest (Inr r) \<noteq> None
      | Store _ _ \<Rightarrow> is_pong (Inr r)
      | Notify _ _ _ \<Rightarrow> is_pong (Inr r)
      | Ping \<Rightarrow> is_pong (Inr r)
      | Retrieve key \<Rightarrow> (case r of Retrieved k _ \<Rightarrow> k = key | _ \<Rightarrow> False)
      | GetPredecessor \<Rightarrow>
          (case r of Predecessor i a api \<Rightarrow> (i = None) = (a = None) \<and> (a = None) = (api = None) | _ \<Rightarrow> is_error r)
      | GetDataRange _ _ \<Rightarrow> (case r of DataRange _ \<Rightarrow> True | _ \<Rightarrow> False)
      | ShareMetrics _ \<Rightarrow> (case r of MetricsShared _ \<Rightarrow> True | _ \<Rightarrow> False)
      | ReplicateData key _ _ \<Rightarrow> (case r of ReplicationAck k _ \<Rightarrow> k = key | _ \<Rightarrow> False)
      | RequestReplicas _ _ \<Rightarrow> (case r of ReplicaData _ \<Rightarrow> True | _ \<Rightarrow> False)
      | _ \<Rightarrow> is_error r)"

text \<open>
  C22. Every message gets an answer of the type its callers read: a request is answered with the message that belongs
  to it, for the same key, and a message that is not a request with an error, whatever the state of the node and
  of the ring. Only a metrics message can end the task instead, when its latency overflows.
\<close>

theorem replies_typed:
  assumes "handle_message F E net m n w = (x, n', w')"
  shows "(\<exists>r. x = Ok r \<and> answers m r) \<or>
    (x = Panic \<and> (\<exists>new. m = ShareMetrics new \<and> operation_latency (metrics n) + operation_latency new > max_duration))"
proof (cases m)
  case (ShareMetrics new)
  then show ?thesis
    using assms by (auto simp: handle_message_def handle_share_metrics_def safe_lock_def Let_def answers_def split: if_splits)
qed (use assms in \<open>auto simp: handle_message_def answers_def found_node_def split: prod.splits option.splits\<close>)

theorem replies_typed_witness:
  "(\<exists>r. fst (handle_message exact_ops example_env idle_net GetPredecessor busy_node ()) = Ok r \<and>
     answers GetPredecessor r) \<and>
   fst (handle_message exact_ops example_env idle_net (ShareMetrics poison_metrics)
     (busy_node\<lparr>metrics := default_metrics\<lparr>operation_latency := 1\<rparr>\<rparr>) ()) = Panic"
proof -
  obtain x n' w' where h: "handle_message exact_ops example_env idle_net GetPredecessor busy_node () = (x, n', w')"
    using prod_cases3 by blast
  let ?n = "busy_node\<lparr>metrics := default_metrics\<lparr>operation_latency := 1\<rparr>\<rparr>"
  have "fst (handle_message exact_ops example_env idle_net (ShareMetrics poison_metrics) ?n ()) = Panic"
    by (simp add: handle_message_def handle_share_metrics_def safe_lock_def busy_node_facts Let_def poison_metrics_def
        max_duration_def)
  with replies_typed [OF h] show ?thesis by (simp add: h)
qed

end
