(* ===== verification/Cluster.thy ===== *)
theory Cluster
  imports Node_Server Lone_Node
begin

text \<open>
  Nodes composed: the network of each node's model is instantiated with the message handlers of the others, which
  call back in turn. What the theories of the single node assume of the calls holds here by construction, so
  their invariants hold for any number of nodes; and two nodes form a ring.
\<close>

section \<open>The network of a cluster\<close>

text \<open>
  The nodes by address, without the one that is running. A call suspends the running node into the map and runs
  the handler of the addressed one; nested calls go to the depth given, beyond it there is no answer (the
  timeouts of the code bound the nesting). Messages and answers are not lost; a node that is not there, or whose
  handler panics, does not answer.
\<close>

type_synonym cluster = "string \<rightharpoonup> node"

definition answer_of :: "'a outcome \<Rightarrow> string + 'a" where
  "answer_of x = (case x of Ok r \<Rightarrow> Inr r | _ \<Rightarrow> Inl ''no answer'')"

fun cluster_net :: "float_ops \<Rightarrow> env \<Rightarrow> nat \<Rightarrow> (network_metrics, cluster) dht" where
  "cluster_net F E 0 a m n C = (Inl ''no answer'', n, C)"
| "cluster_net F E (Suc d) a m n C =
     (let self = ni_address (info n)
      in if a = self then
           (let (x, n', C') = handle_message F E (cluster_net F E d) m n C in (answer_of x, n', C'))
         else
           (case C a of
              None \<Rightarrow> (Inl ''refused'', n, C)
            | Some b \<Rightarrow>
                (let (x, b', C1) = handle_message F E (cluster_net F E d) m b (C(a := None, self \<mapsto> n))
                 in (answer_of x, (case C1 self of Some n' \<Rightarrow> n' | None \<Rightarrow> n), C1(self := None, a \<mapsto> b')))))"

text \<open>An operation at one node of the cluster.\<close>

definition run_at :: "string \<Rightarrow> (node \<Rightarrow> cluster \<Rightarrow> 'r \<times> node \<times> cluster) \<Rightarrow> cluster \<Rightarrow> cluster" where
  "run_at a f C =
     (case C a of
        None \<Rightarrow> C
      | Some n \<Rightarrow> (let (r, n', C') = f n (C(a := None)) in C'(a \<mapsto> n')))"

section \<open>What a cluster keeps\<close>

text \<open>Nodes stay under their addresses; all of them are kept, and none comes or goes.\<close>

definition cluster_ok :: "cluster \<Rightarrow> bool" where
  "cluster_ok C \<longleftrightarrow> (\<forall>a n. C a = Some n \<longrightarrow> ni_address (info n) = a)"

definition all_kept :: "cluster \<Rightarrow> cluster \<Rightarrow> bool" where
  "all_kept C C' \<longleftrightarrow> cluster_ok C' \<and> dom C' = dom C \<and> (\<forall>a x. C a = Some x \<longrightarrow> (\<exists>x'. C' a = Some x' \<and> kept x x'))"

definition proper :: "node \<times> cluster \<Rightarrow> bool" where
  "proper x \<longleftrightarrow> snd x (ni_address (info (fst x))) = None \<and> cluster_ok (snd x)"

definition cluster_kept :: "node \<times> cluster \<Rightarrow> node \<times> cluster \<Rightarrow> bool" where
  "cluster_kept x y \<longleftrightarrow> (proper x \<longrightarrow> kept (fst x) (fst y) \<and> all_kept (snd x) (snd y))"

lemma kept_info: "kept n n' \<Longrightarrow> info n' = info n"
  by (simp add: kept_def node_good_def data_grows_def)

lemma all_kept_refl: "cluster_ok C \<Longrightarrow> all_kept C C"
  by (auto simp: all_kept_def kept.R_refl)

lemma all_keptD: "all_kept C C' \<Longrightarrow> C a = Some x \<Longrightarrow> \<exists>x'. C' a = Some x' \<and> kept x x'"
  by (simp add: all_kept_def)

lemma all_kept_None: "all_kept C C' \<Longrightarrow> C a = None \<Longrightarrow> C' a = None"
  unfolding all_kept_def by (metis domIff)

lemma all_kept_trans:
  assumes "all_kept C C'" "all_kept C' C''"
  shows "all_kept C C''"
proof -
  have "\<exists>x''. C'' a = Some x'' \<and> kept x x''" if "C a = Some x" for a x
    using all_keptD [OF assms(1) that] all_keptD [OF assms(2)] kept.R_trans by blast
  then show ?thesis using assms by (simp add: all_kept_def)
qed

lemma proper_kept:
  assumes "proper x" "cluster_kept x y"
  shows "proper y"
proof -
  have "kept (fst x) (fst y)" "all_kept (snd x) (snd y)" using assms by (simp_all add: cluster_kept_def)
  moreover have "snd x (ni_address (info (fst x))) = None" using assms(1) by (simp add: proper_def)
  ultimately show ?thesis
    using all_kept_None [of "snd x" "snd y"] by (simp add: proper_def kept_info) (simp add: all_kept_def)
qed

interpretation cluster: service_relation cluster_kept "\<lambda>x. proper x \<and> own_loads (fst x)"
proof unfold_locales
  fix x y z :: "node \<times> cluster"
  show "cluster_kept x x" by (auto simp: cluster_kept_def proper_def kept.R_refl all_kept_refl)
  show "cluster_kept x z" if "cluster_kept x y" "cluster_kept y z"
    using that proper_kept [of x y] unfolding cluster_kept_def by (blast intro: kept.R_trans all_kept_trans)
next
  fix n :: node and w :: cluster and key vs
  assume "\<not> poisoned n M_data"
  then show "cluster_kept (n, w) (extend_entry key vs n, w)"
    by (simp add: cluster_kept_def proper_def kept.R_extend all_kept_refl)
next
  fix n :: node and w :: cluster and s
  show "cluster_kept (n, w) (set_successor s n, w)"
    by (simp add: cluster_kept_def proper_def kept.R_successor all_kept_refl)
next
  fix n :: node and w :: cluster and q :: "node_info option"
  assume "\<And>p. q = Some p \<Longrightarrow> ni_id p \<noteq> ni_id (info n)"
  then show "cluster_kept (n, w) (set_predecessor q n, w)"
    by (simp add: cluster_kept_def proper_def kept.R_predecessor all_kept_refl)
next
  fix n :: node and w :: cluster and ss :: "node_info list"
  assume "length ss = SUCCESSOR_LIST_SIZE"
  then show "cluster_kept (n, w) (set_successor_list ss n, w)"
    by (simp add: cluster_kept_def proper_def kept.R_successor_list all_kept_refl)
next
  fix n :: node and w :: cluster and i :: nat and s
  assume "1 \<le> i"
  then show "cluster_kept (n, w) (set_finger i s n, w)"
    by (simp add: cluster_kept_def proper_def kept.R_finger all_kept_refl)
next
  fix F m r and n n' :: node and w :: cluster
  assume "handle_share_metrics F m n = (r, n')"
  then show "cluster_kept (n, w) (n', w)"
    by (simp add: cluster_kept_def proper_def handle_share_metrics_kept all_kept_refl)
next
  fix F E and n :: node and w :: cluster
  show "cluster_kept (n, w) (update_local_metrics F E n, w)"
    by (simp add: cluster_kept_def proper_def update_local_metrics_kept all_kept_refl)
next
  fix l G and n :: node and w :: cluster
  assume "\<not> load_less (Load 1) l"
  then show "cluster_kept (n, w) (record_load G l n, w)"
    by (simp add: cluster_kept_def proper_def record_load_kept all_kept_refl)
next
  fix n :: node and w :: cluster and c
  show "cluster_kept (n, w) (n\<lparr>active_connections := c\<rparr>, w)"
    by (simp add: cluster_kept_def proper_def connections_kept all_kept_refl)
next
  fix x y :: "node \<times> cluster"
  assume "proper x \<and> own_loads (fst x)" "cluster_kept x y"
  then show "proper y \<and> own_loads (fst y)" using proper_kept [of x y] by (simp add: cluster_kept_def kept_def)
next
  fix n :: node and w :: cluster
  assume "proper (n, w) \<and> own_loads (fst (n, w))"
  then show "own_loads n" by simp
qed

lemma cluster_net_along: "dht_along cluster_kept (cluster_net F E d)"
proof (induction d)
  case 0
  show ?case by (simp add: dht_along_def cluster.Q_refl)
next
  case (Suc d)
  have "cluster_kept (n, C) (n', C')" if c: "cluster_net F E (Suc d) a m n C = (r, n', C')" for a m n C r n' C'
  proof (cases "a = ni_address (info n) \<or> C a = None")
    case True
    with c cluster.handle_message_Q [OF Suc.IH] show ?thesis
      by (auto simp: Let_def cluster.Q_refl split: if_splits prod.splits)
  next
    case False
    then obtain b where b: "C a = Some b" "a \<noteq> ni_address (info n)" by blast
    let ?self = "ni_address (info n)"
    let ?C0 = "C(a := None, ?self \<mapsto> n)"
    obtain x b' C1 where h: "handle_message F E (cluster_net F E d) m b ?C0 = (x, b', C1)" using prod_cases3 by blast
    show ?thesis
    proof (cases "proper (n, C)")
      case True
      then have ok: "cluster_ok C" "C ?self = None" by (simp_all add: proper_def)
      then have "ni_address (info b) = a" using b by (simp add: cluster_ok_def)
      then have p: "proper (b, ?C0)" using ok b by (auto simp: proper_def cluster_ok_def)
      from cluster.handle_message_Q [OF Suc.IH h] p have k: "kept b b'" "all_kept ?C0 C1"
        by (simp_all add: cluster_kept_def)
      obtain n1 where n1: "C1 ?self = Some n1" "kept n n1" using all_keptD [OF k(2), of ?self n] by auto
      have "n' = n1" "C' = C1(?self := None, a \<mapsto> b')" using c b h n1 by (auto simp: Let_def)
      moreover have "cluster_ok (C1(?self := None, a \<mapsto> b'))"
        using k \<open>ni_address (info b) = a\<close> kept_info [OF k(1)] by (auto simp: cluster_ok_def all_kept_def)
      moreover have "dom (C1(?self := None, a \<mapsto> b')) = dom C"
      proof -
        have "dom C1 = insert ?self (dom C - {a})" using k(2) by (auto simp: all_kept_def)
        then show ?thesis using ok(2) b by auto
      qed
      moreover have "\<exists>y'. (C1(?self := None, a \<mapsto> b')) e = Some y' \<and> kept y y'" if "C e = Some y" for e y
      proof (cases "e = a")
        case False
        then have "?C0 e = Some y" "e \<noteq> ?self" using \<open>C e = Some y\<close> ok(2) by auto
        then show ?thesis using k(2) False by (auto simp: all_kept_def)
      qed (use \<open>C e = Some y\<close> b k(1) in simp)
      ultimately show ?thesis using n1(2) by (auto simp: cluster_kept_def all_kept_def)
    qed (simp add: cluster_kept_def)
  qed
  then show ?case unfolding dht_along_def by (metis prod.collapse)
qed

section \<open>Requests of clients\<close>

context write_relation
begin

lemma connect_attempts_Q: "dht_along Q net \<Longrightarrow> connect_attempts E net bufs n w = (r, n', w') \<Longrightarrow> Q (n, w) (n', w')"
proof (induction bufs arbitrary: n w)
  case (Cons buf bufs)
  obtain s n1 w1 where f: "find_successor E net (sha1 E buf) n w = (s, n1, w1)" using prod_cases3 by blast
  obtain x n2 w2 where c: "net (ni_address s) Ping n1 w1 = (x, n2, w2)" using prod_cases3 by blast
  have "Q (n, w) (n1, w1)" "Q (n1, w1) (n2, w2)"
    using find_successor_Q [OF Cons.prems(1) f] dht_alongD [OF Cons.prems(1) c] by blast+
  then have 2: "Q (n, w) (n1, w1)" "Q (n, w) (n2, w2)" by (blast intro: Q_trans)+
  have "(n', w') = (n1, w1) \<or> (n', w') = (n2, w2) \<or> connect_attempts E net bufs n2 w2 = (r, n', w')"
    using Cons.prems(2) f c by (auto split: if_splits)
  then show ?case using 2 Cons.IH [OF Cons.prems(1)] by (blast intro: Q_trans)
qed (simp add: Q_refl)

lemma message_handler_Q:
  assumes "dht_along Q net" "message_handler K E net now body n w = (r, n', w')"
  shows "Q (n, w) (n', w')"
  using assms(2)
  by (auto simp: message_handler_def Q_refl Let_def split: option.splits sum.splits prod.splits if_splits
      dest!: find_successor_Q [OF assms(1)] store_value_Q [OF assms(1)] dht_alongD [OF assms(1)] intro: Q_trans)

lemma fetch_messages_Q:
  assumes "dht_along Q net" "fetch_messages E net key n w = (r, n', w')"
  shows "Q (n, w) (n', w')"
  using assms(2)
  by (auto simp: fetch_messages_def split: prod.splits if_splits
      dest!: find_successor_Q [OF assms(1)] retrieve_value_Q [OF assms(1)] dht_alongD [OF assms(1)] intro: Q_trans)

lemma poll_handler_Q:
  assumes "dht_along Q net" "poll_handler P K E net body st n w = (r, st', n', w')"
  shows "Q (n, w) (n', w')"
  using assms(2)
  by (auto simp: poll_handler_def Q_refl Let_def split: option.splits prod.splits if_splits
      dest!: fetch_messages_Q [OF assms(1)])

lemma handle_request_Q:
  assumes "dht_along Q net" "handle_request P K E net req st n w = (r, st', n', w')"
  shows "Q (n, w) (n', w')"
  using assms(2)
  by (cases req)
     (auto simp: handle_request_def connect_handler_def Q_refl split: prod.splits
      dest!: connect_attempts_Q [OF assms(1)] message_handler_Q [OF assms(1)] poll_handler_Q [OF assms(1)])

end

section \<open>Runs of a cluster\<close>

text \<open>
  A node is started; a node joins, runs a round of its maintenance, or serves a request of a client, calling the
  others as it goes. The second relation adds the failure of a node.
\<close>

inductive cluster_step :: "crypto \<Rightarrow> codecs \<Rightarrow> float_ops \<Rightarrow> float_ops \<Rightarrow> env \<Rightarrow> cluster \<Rightarrow> cluster \<Rightarrow> bool"
  for P K F G E
where
  cs_boot: "C a = None \<Longrightarrow> cluster_step P K F G E C (C(a \<mapsto> new_node E default_metrics a api))"
| cs_join: "cluster_step P K F G E C (run_at a (\<lambda>n C. ((), join E (cluster_net F E d) b n C)) C)"
| cs_maintain: "1 \<le> i \<Longrightarrow>
     cluster_step P K F G E C (run_at a (maintenance_round F G E (cluster_net F E d) i pick) C)"
| cs_request: "cluster_step P K F G E C (run_at a
     (\<lambda>n C. let (r, st', x) = handle_request P K E (cluster_net F E d) req st n C in (r, x)) C)"

inductive cluster_reachable :: "crypto \<Rightarrow> codecs \<Rightarrow> float_ops \<Rightarrow> float_ops \<Rightarrow> env \<Rightarrow> cluster \<Rightarrow> bool"
  for P K F G E
where
  no_node: "cluster_reachable P K F G E Map.empty"
| stepped: "cluster_reachable P K F G E C \<Longrightarrow> cluster_step P K F G E C C' \<Longrightarrow> cluster_reachable P K F G E C'"
| failed: "cluster_reachable P K F G E C \<Longrightarrow> cluster_reachable P K F G E (C(a := None))"

definition cluster_inv :: "cluster \<Rightarrow> bool" where
  "cluster_inv C \<longleftrightarrow> cluster_ok C \<and> (\<forall>a n. C a = Some n \<longrightarrow> node_wf n \<and> own_loads n)"

definition nodes_kept :: "cluster \<Rightarrow> cluster \<Rightarrow> bool" where
  "nodes_kept C C' \<longleftrightarrow> (\<forall>a x. C a = Some x \<longrightarrow> (\<exists>x'. C' a = Some x' \<and> kept x x'))"

lemma run_at_kept:
  assumes "cluster_inv C"
    and "\<And>n D r n' D'. f n D = (r, n', D') \<Longrightarrow> proper (n, D) \<and> own_loads n \<Longrightarrow> cluster_kept (n, D) (n', D')"
  shows "cluster_inv (run_at a f C) \<and> nodes_kept C (run_at a f C)"
proof (cases "C a")
  case None
  then show ?thesis using assms(1) by (auto simp: run_at_def nodes_kept_def kept.R_refl)
next
  case (Some n)
  obtain r n' D' where f: "f n (C(a := None)) = (r, n', D')" using prod_cases3 by blast
  have n: "ni_address (info n) = a" "node_wf n" "own_loads n" using assms(1) Some by (auto simp: cluster_inv_def cluster_ok_def)
  have p: "proper (n, C(a := None))" using assms(1) n(1) by (auto simp: proper_def cluster_inv_def cluster_ok_def)
  with assms(2) [OF f] n(3) have k: "kept n n'" "all_kept (C(a := None)) D'" by (simp_all add: cluster_kept_def)
  have run: "run_at a f C = D'(a \<mapsto> n')" using Some f by (simp add: run_at_def)
  have nk: "nodes_kept C (D'(a \<mapsto> n'))" unfolding nodes_kept_def
  proof (intro allI impI)
    fix e x
    assume e: "C e = Some x"
    show "\<exists>x'. (D'(a \<mapsto> n')) e = Some x' \<and> kept x x'"
      using e Some k(1) all_keptD [OF k(2), of e x] by (cases "e = a") auto
  qed
  have "\<exists>x. C e = Some x \<and> kept x y" if "(D'(a \<mapsto> n')) e = Some y" for e y
  proof (cases "e = a")
    case False
    with that have "e \<in> dom (C(a := None))" using k(2) unfolding all_kept_def by (metis domI fun_upd_other)
    then obtain x where x: "(C(a := None)) e = Some x" by blast
    from all_keptD [OF k(2) x] that False x show ?thesis by auto
  qed (use that Some k(1) in auto)
  then have "node_wf y \<and> own_loads y" if "(D'(a \<mapsto> n')) e = Some y" for e y
    using that assms(1) unfolding cluster_inv_def kept_def node_good_def by meson
  moreover have "cluster_ok (D'(a \<mapsto> n'))"
    using k n(1) by (auto simp: cluster_ok_def all_kept_def kept_info)
  ultimately show ?thesis unfolding run using nk by (simp add: cluster_inv_def)
qed

lemma cluster_step_inv:
  assumes "float_ok G" "cluster_step P K F G E C C'" "cluster_inv C"
  shows "cluster_inv C' \<and> nodes_kept C C'"
  using assms(2,3)
proof cases
  case (cs_boot a api)
  have "node_wf (new_node E default_metrics a api)" by (rule new_node_wf)
  moreover have "own_loads (new_node E default_metrics a api)" by (simp add: own_loads_def new_node_def Let_def)
  moreover have "ni_address (info (new_node E default_metrics a api)) = a" by (simp add: new_node_def Let_def)
  ultimately show ?thesis
    using assms(3) cs_boot by (auto simp: cluster_inv_def cluster_ok_def nodes_kept_def kept.R_refl)
next
  case (cs_join a d b)
  show ?thesis unfolding cs_join
    by (rule run_at_kept [OF assms(3)]) (auto intro: cluster.join_Q [OF cluster_net_along])
next
  case (cs_maintain i a d pick)
  show ?thesis unfolding cs_maintain(1)
    by (rule run_at_kept [OF assms(3)])
       (rule cluster.maintenance_round_Q [OF assms(1) cluster_net_along _ cs_maintain(2)], simp_all)
next
  case (cs_request a d req st)
  show ?thesis unfolding cs_request
    by (rule run_at_kept [OF assms(3)])
       (auto split: prod.splits intro: cluster.handle_request_Q [OF cluster_net_along])
qed

lemma cluster_reachable_inv:
  assumes "float_ok G" "cluster_reachable P K F G E C"
  shows "cluster_inv C"
  using assms(2)
proof (induction rule: cluster_reachable.induct)
  case no_node
  show ?case by (simp add: cluster_inv_def cluster_ok_def)
next
  case (stepped C C')
  then show ?case using cluster_step_inv [OF assms(1)] by blast
next
  case (failed C a)
  then show ?case by (auto simp: cluster_inv_def cluster_ok_def)
qed

lemma cluster_steps_kept:
  assumes "float_ok G" "(cluster_step P K F G E)\<^sup>*\<^sup>* C C'" "cluster_inv C"
  shows "nodes_kept C C'"
  using assms(2)
proof (induction rule: rtranclp_induct)
  case base
  show ?case by (auto simp: nodes_kept_def kept.R_refl)
next
  case (step D D')
  have "cluster_inv D" using step.hyps(1) assms(3)
    by (induction rule: rtranclp_induct) (auto simp: cluster_step_inv [OF assms(1)])
  then have "nodes_kept D D'" using cluster_step_inv [OF assms(1) step.hyps(2)] by simp
  with step.IH show ?case unfolding nodes_kept_def using kept.R_trans by meson
qed

section \<open>Properties\<close>

text \<open>
  C8. In every state a cluster can reach, with any number of nodes that start, join, maintain the ring, serve
  clients and fail in any order, every node is well-formed and under its own address: three successors and 160
  fingers, never its own predecessor, finitely many keys, and of the loads it only knows its own. Nothing is
  assumed of the network: the nodes answer each other.
\<close>

theorem cluster_wellformed:
  assumes "float_ok G" "cluster_reachable P K F G E C" "C a = Some n"
  shows "ni_address (info n) = a \<and> length (successor_list n) = 3 \<and> length (finger_table n) = 160 \<and>
    (\<forall>p. predecessor n = Some p \<longrightarrow> ni_id p \<noteq> ni_id (info n)) \<and> finite (dom (data n)) \<and>
    (\<forall>i. i \<noteq> ni_id (info n) \<longrightarrow> node_loads n i = None)"
  using cluster_reachable_inv [OF assms(1,2)] assms(3)
  by (simp add: cluster_inv_def cluster_ok_def node_wf_def own_loads_def SUCCESSOR_LIST_SIZE_def M_bits_def)

text \<open>A node that was started, and its first request.\<close>

definition one_node :: "string \<Rightarrow> cluster" where
  "one_node a = [a \<mapsto> new_node example_env default_metrics a a]"

lemma one_node_reachable: "cluster_reachable P K F G example_env (one_node a)"
  unfolding one_node_def by (rule stepped [OF no_node]) (rule cs_boot, simp)

theorem cluster_wellformed_witness:
  "\<exists>n. (run_at ''n'' (\<lambda>n C. ((), join example_env (cluster_net exact_ops example_env 1) None n C)) (one_node ''n'')) ''n'' = Some n \<and>
     length (successor_list n) = 3"
proof -
  define C where "C = run_at ''n'' (\<lambda>n C. ((), join example_env (cluster_net exact_ops example_env 1) None n C)) (one_node ''n'')"
  have r: "cluster_reachable toy_crypto K exact_ops exact_ops example_env C" for K
    unfolding C_def by (rule stepped [OF one_node_reachable cs_join])
  obtain n where "C ''n'' = Some n"
    by (cases "C ''n''") (simp_all add: C_def run_at_def one_node_def split_beta)
  from cluster_wellformed [OF exact_float_ok r this] this show ?thesis unfolding C_def [symmetric] by blast
qed

text \<open>
  C7. No node of a cluster loses data while it is up: along any sequence of steps, in which nodes start, join, take
  predecessors and successors, balance their loads and serve clients, the values a node holds for a key stay, in
  order, and new ones are added at the end.
\<close>

theorem cluster_keeps_data:
  assumes "float_ok G" "cluster_reachable P K F G E C" "(cluster_step P K F G E)\<^sup>*\<^sup>* C C'"
    and "C a = Some n" "data n key = Some vs"
  shows "\<exists>n' vs'. C' a = Some n' \<and> info n' = info n \<and> data n' key = Some vs' \<and> prefix vs vs'"
  using cluster_steps_kept [OF assms(1,3) cluster_reachable_inv [OF assms(1,2)]] assms(4,5)
  unfolding nodes_kept_def kept_def node_good_def data_grows_def by meson

definition stored_somewhere :: cluster where
  "stored_somewhere = run_at ''n''
     (\<lambda>n C. let (r, st', x) = handle_request toy_crypto toy_codecs example_env (cluster_net exact_ops example_env 1)
                (Post_message 7 (Some (enc_fields [[1], [2], [3], [4]]))) (Some Map.empty) n C in (r, x)) (one_node ''n'')"

lemma stored_somewhere_data:
  "\<exists>n ser. stored_somewhere ''n'' = Some n \<and> data n (generate_key example_env (string_of_bytes [1])) = Some [ser]"
proof -
  let ?n = "new_node example_env default_metrics ''n'' ''n''"
  have "parse_message toy_codecs (enc_fields [[1], [2], [3], [4]]) =
      Some \<lparr>mp_to = string_of_bytes [1], mp_from = string_of_bytes [2], mp_ciphertext = [3], mp_nonce = [4]\<rparr>"
    by (simp add: toy_codecs_def)
  from lone_message [where net = "cluster_net exact_ops example_env 1" and now = 7 and w = "Map.empty",
      OF example_bignum_ok toy_codecs_ok new_node_lone [of example_env default_metrics "''n''" "''n''"] this]
  obtain ser where "message_handler toy_codecs example_env (cluster_net exact_ops example_env 1) 7
      (Some (enc_fields [[1], [2], [3], [4]])) ?n Map.empty =
    (format_response 200 (Reply_status ''message received''),
     extend_entry (generate_key example_env (string_of_bytes [1])) [ser] ?n, Map.empty)" by auto
  then show ?thesis
    by (intro exI [of _ "extend_entry (generate_key example_env (string_of_bytes [1])) [ser] ?n"] exI [of _ ser])
       (simp add: stored_somewhere_def run_at_def one_node_def handle_request_def,
        simp add: extend_entry_def new_node_def Let_def)
qed

theorem cluster_keeps_data_witness:
  "\<exists>n' vs'. run_at ''n'' (maintenance_round exact_ops exact_ops example_env (cluster_net exact_ops example_env 2) 1 hd)
       stored_somewhere ''n'' = Some n' \<and>
     data n' (generate_key example_env (string_of_bytes [1])) = Some vs' \<and> vs' \<noteq> []"
proof -
  obtain n ser where n: "stored_somewhere ''n'' = Some n" "data n (generate_key example_env (string_of_bytes [1])) = Some [ser]"
    using stored_somewhere_data by blast
  let ?step = "cluster_step toy_crypto toy_codecs exact_ops exact_ops example_env"
  have "cluster_reachable toy_crypto toy_codecs exact_ops exact_ops example_env stored_somewhere"
    unfolding stored_somewhere_def by (rule stepped [OF one_node_reachable cs_request])
  moreover have "?step\<^sup>*\<^sup>* stored_somewhere
      (run_at ''n'' (maintenance_round exact_ops exact_ops example_env (cluster_net exact_ops example_env 2) 1 hd) stored_somewhere)"
    by (rule r_into_rtranclp, rule cs_maintain) simp
  ultimately obtain n' vs' where
    "run_at ''n'' (maintenance_round exact_ops exact_ops example_env (cluster_net exact_ops example_env 2) 1 hd)
       stored_somewhere ''n'' = Some n'"
    "data n' (generate_key example_env (string_of_bytes [1])) = Some vs'" "prefix [ser] vs'"
    using cluster_keeps_data [where C = stored_somewhere and a = "''n''" and n = n, OF exact_float_ok _ _ n] by blast
  then show ?thesis by (cases vs') auto
qed

end
