(* ===== verification/Startup.thy ===== *)
theory Startup
  imports Node_Server
begin

text \<open>
  The start of a node (\<open>node/src/main.rs\<close>), its use as a library (\<open>node/src/lib.rs\<close>) and its shutdown: the
  configuration read from the environment, the constructors with a given identifier, and the wait for open
  connections.
\<close>

section \<open>Configuration\<close>

text \<open>\<open>str::parse\<close> of an unsigned integer: an optional plus, then digits, with the value in range.\<close>

definition dec_val :: "char \<Rightarrow> nat option" where
  "dec_val c = (let n = (of_char c :: nat) in if 48 \<le> n \<and> n \<le> 57 then Some (n - 48) else None)"

fun digits_value :: "nat \<Rightarrow> string \<Rightarrow> nat option" where
  "digits_value acc [] = Some acc"
| "digits_value acc (c # s) = (case dec_val c of None \<Rightarrow> None | Some v \<Rightarrow> digits_value (10 * acc + v) s)"

definition parse_unsigned :: "nat \<Rightarrow> string \<Rightarrow> nat option" where
  "parse_unsigned w s =
     (let ds = (case s of [] \<Rightarrow> [] | c # r \<Rightarrow> if c = CHR ''+'' then r else s)
      in if ds = [] then None
         else (case digits_value 0 ds of None \<Rightarrow> None | Some n \<Rightarrow> if n < 2 ^ w then Some n else None))"

fun unwrap_or :: "'a option \<Rightarrow> 'a \<Rightarrow> 'a" where
  "unwrap_or None d = d"
| "unwrap_or (Some x) d = x"

fun or_else :: "'a option \<Rightarrow> 'a option \<Rightarrow> 'a option" where
  "or_else None y = y"
| "or_else (Some x) y = Some x"

text \<open>The variables that are set to valid text.\<close>

type_synonym variables = "string \<rightharpoonup> string"

record node_config =
  bind_p2p_address :: string
  bind_api_host :: string
  bind_api_port :: nat
  advertise_p2p_address :: string
  advertise_api_address :: string
  bootstrap_address :: "string option"
  stabilization_interval :: nat

definition read_config :: "variables \<Rightarrow> node_config" where
  "read_config var =
     (let bind_p2p_host = unwrap_or (or_else (var ''BIND_P2P_HOST'') (var ''BIND_HOST'')) ''0.0.0.0'';
          bind_p2p_port = unwrap_or (parse_unsigned 16
            (unwrap_or (or_else (var ''BIND_P2P_PORT'') (var ''NODE_PORT'')) ''6512'')) 6512;
          advertise_p2p_host = unwrap_or (case or_else (var ''ADVERTISE_P2P_HOST'') (var ''ADVERTISE_HOST'') of
              None \<Rightarrow> None | Some s \<Rightarrow> if s = [] then None else Some s) ''localhost'';
          advertise_p2p_port = unwrap_or (parse_unsigned 16
            (unwrap_or (var ''ADVERTISE_P2P_PORT'') (js_show_nat bind_p2p_port))) bind_p2p_port;
          api_host = unwrap_or (var ''BIND_API_HOST'') ''0.0.0.0'';
          api_port = unwrap_or (parse_unsigned 16
            (unwrap_or (or_else (var ''BIND_API_PORT'') (var ''API_PORT'')) ''80'')) 80;
          advertise_api_host = unwrap_or (or_else (var ''ADVERTISE_API_HOST'') (var ''API_HOST'')) advertise_p2p_host;
          advertise_api_port = unwrap_or (parse_unsigned 16 (unwrap_or (var ''ADVERTISE_API_PORT'') ''443'')) 443;
          is_bootstrap = (case var ''IS_BOOTSTRAP'' of None \<Rightarrow> False | Some v \<Rightarrow> v = ''true'');
          bootstrap = (if is_bootstrap then None
            else Some (unwrap_or (var ''BOOTSTRAP_ADDRESS'') ''bootstrap.tace.chat:6512''));
          interval = unwrap_or (parse_unsigned 64 (unwrap_or (var ''STABILIZATION_INTERVAL'') ''5'')) 5
      in \<lparr>bind_p2p_address = bind_p2p_host @ '':'' @ js_show_nat bind_p2p_port,
          bind_api_host = api_host, bind_api_port = api_port,
          advertise_p2p_address = advertise_p2p_host @ '':'' @ js_show_nat advertise_p2p_port,
          advertise_api_address = advertise_api_host @ '':'' @ js_show_nat advertise_api_port,
          bootstrap_address = bootstrap, stabilization_interval = interval\<rparr>)"

text \<open>The node of \<open>main\<close>, after \<open>join\<close>.\<close>

definition start_node :: "env \<Rightarrow> (network_metrics, 'w) dht \<Rightarrow> variables \<Rightarrow> 'w \<Rightarrow> node \<times> 'w" where
  "start_node E net var w =
     (let c = read_config var
      in join E net (bootstrap_address c)
           (new_node E default_metrics (advertise_p2p_address c) (advertise_api_address c)) w)"

section \<open>The library\<close>

definition with_id :: "node_id \<Rightarrow> node \<Rightarrow> node" where
  "with_id i n = n\<lparr>info := (info n)\<lparr>ni_id := i\<rparr>\<rparr>"

definition new_with_client :: "env \<Rightarrow> node_id \<Rightarrow> string \<Rightarrow> string \<Rightarrow> node" where
  "new_with_client E i p2p_address api_address = with_id i (new_node E default_metrics p2p_address api_address)"

record lib_config =
  p2p_address :: string
  api_address :: string
  config_node_id :: "node_id option"

definition default_config :: lib_config where
  "default_config = \<lparr>p2p_address = ''127.0.0.1:8000'', api_address = ''127.0.0.1:9000'', config_node_id = None\<rparr>"

definition from_config :: "env \<Rightarrow> lib_config \<Rightarrow> node" where
  "from_config E c =
     (let n = new_node E default_metrics (p2p_address c) (api_address c)
      in case config_node_id c of None \<Rightarrow> n | Some i \<Rightarrow> with_id i n)"

text \<open>The wrappers: every one returns \<open>Ok\<close>, whatever the operation under it could do.\<close>

type_synonym ('m, 'w, 'r) library_call = "'m chord_node \<Rightarrow> 'w \<Rightarrow> (string + 'r) \<times> 'm chord_node \<times> 'w"

definition join_network :: "env \<Rightarrow> ('m, 'w) dht \<Rightarrow> string option \<Rightarrow> ('m, 'w, unit) library_call" where
  "join_network E net bootstrap n w = (Inr (), join E net bootstrap n w)"

definition create_network :: "env \<Rightarrow> ('m, 'w) dht \<Rightarrow> ('m, 'w, unit) library_call" where
  "create_network E net n w = (Inr (), join E net None n w)"

definition store_data :: "env \<Rightarrow> ('m, 'w) dht \<Rightarrow> node_id \<Rightarrow> bytes \<Rightarrow> ('m, 'w, unit) library_call" where
  "store_data E net key v n w = (Inr (), store_value E net key v n w)"

definition retrieve_data :: "env \<Rightarrow> ('m, 'w) dht \<Rightarrow> node_id \<Rightarrow> ('m, 'w, bytes list option) library_call" where
  "retrieve_data E net key n w = (let (v, n1, w1) = retrieve_value E net key n w in (Inr v, n1, w1))"

definition node_triple :: "node_info \<Rightarrow> node_id \<times> string \<times> string" where
  "node_triple i = (ni_id i, ni_address i, ni_api_address i)"

definition find_successor_safe ::
  "env \<Rightarrow> ('m, 'w) dht \<Rightarrow> node_id \<Rightarrow> ('m, 'w, (node_id \<times> string \<times> string) option) library_call"
where
  "find_successor_safe E net i n w = (let (s, n1, w1) = find_successor E net i n w in (Inr (Some (node_triple s)), n1, w1))"

definition get_successor :: "'m chord_node \<Rightarrow> (node_id \<times> string \<times> string) option" where
  "get_successor n = map_option node_triple (safe_lock M_successor successor n)"

definition get_predecessor :: "'m chord_node \<Rightarrow> (node_id \<times> string \<times> string) option" where
  "get_predecessor n =
     (case safe_lock M_predecessor predecessor n of None \<Rightarrow> None | Some p \<Rightarrow> map_option node_triple p)"

definition get_metrics :: "node \<Rightarrow> network_metrics" where
  "get_metrics n = (case safe_lock M_metrics metrics n of Some m \<Rightarrow> m | None \<Rightarrow> default_metrics)"

section \<open>Shutdown\<close>

text \<open>
  The wait for open connections. \<open>open_at i\<close> and \<open>elapsed i\<close> are what the counter and the clock (in milliseconds)
  show at the \<open>i\<close>-th look; the thread sleeps in between. The result is the look at which the wait ends.
\<close>

partial_function (option) wait_for_connections :: "(nat \<Rightarrow> 32 word) \<Rightarrow> (nat \<Rightarrow> nat) \<Rightarrow> nat \<Rightarrow> nat option" where
  "wait_for_connections open_at elapsed i =
     (if 0 < open_at i then
        (if elapsed i > 30000 then Some i else wait_for_connections open_at elapsed (Suc i))
      else Some i)"

definition shutdown :: "(nat \<Rightarrow> 32 word) \<Rightarrow> (nat \<Rightarrow> nat) \<Rightarrow> 'm chord_node \<Rightarrow> (nat \<times> 'm chord_node) option" where
  "shutdown open_at elapsed n =
     (case wait_for_connections open_at elapsed 0 of
        None \<Rightarrow> None
      | Some i \<Rightarrow> Some (i, n\<lparr>shutdown_signal := True\<rparr>))"

section \<open>Decimal text\<close>

lemma dec_val_digit: "n < 10 \<Longrightarrow> dec_val (char_of (48 + n)) = Some n"
  by (simp add: dec_val_def Let_def)

lemma digits_value_append:
  "digits_value acc (a @ b) = (case digits_value acc a of None \<Rightarrow> None | Some v \<Rightarrow> digits_value v b)"
  by (induction a arbitrary: acc) (auto split: option.split)

lemma digits_show: "digits_value 0 (js_show_nat n) = Some n"
proof (induction n rule: less_induct)
  case (less n)
  show ?case
  proof (cases "n < 10")
    case True
    then show ?thesis by (subst js_show_nat.simps) (simp add: dec_val_digit)
  next
    case False
    then have "digits_value 0 (js_show_nat (n div 10)) = Some (n div 10)" by (intro less) simp
    with False show ?thesis by (subst js_show_nat.simps) (simp add: digits_value_append dec_val_digit)
  qed
qed

lemma show_first: "\<exists>c s. js_show_nat n = c # s \<and> c \<noteq> CHR ''+''"
proof (induction n rule: less_induct)
  case (less n)
  have "dec_val CHR ''+'' = None" by code_simp
  then have "char_of (48 + n) \<noteq> CHR ''+''" if "n < 10" for n :: nat
    using dec_val_digit [OF that] by auto
  with less [of "n div 10"] show ?case by (subst js_show_nat.simps) auto
qed

lemma parse_show: "n < 2 ^ w \<Longrightarrow> parse_unsigned w (js_show_nat n) = Some n"
  using show_first [of n] digits_show [of n] by (auto simp: parse_unsigned_def Let_def)

lemma parse_unsigned_less: "parse_unsigned w s = Some n \<Longrightarrow> n < 2 ^ w"
  by (auto simp: parse_unsigned_def Let_def split: option.splits if_splits)

lemma unwrap_parse_less: "d < 2 ^ w \<Longrightarrow> unwrap_or (parse_unsigned w s) d < 2 ^ w"
  by (cases "parse_unsigned w s") (auto dest: parse_unsigned_less)

section \<open>Properties\<close>

text \<open>
  Whatever the environment holds, the node starts with a configuration: a host that is not empty and ports that are
  ports. The port announced to other nodes is the one set for it in decimal, and without one the port the node
  listens on; and the node joins through another one unless it is told, by the word \<open>true\<close>, to be the first.
\<close>

theorem read_config_valid:
  "\<exists>host p q api. advertise_p2p_address (read_config var) = host @ '':'' @ js_show_nat p \<and> host \<noteq> [] \<and> p < 2 ^ 16 \<and>
     bind_p2p_address (read_config var) = api @ '':'' @ js_show_nat q \<and> q < 2 ^ 16 \<and>
     bind_api_port (read_config var) < 2 ^ 16 \<and> stabilization_interval (read_config var) < 2 ^ 64 \<and>
     (\<forall>n<2 ^ 16. var ''BIND_P2P_PORT'' = Some (js_show_nat n) \<longrightarrow> q = n) \<and>
     (\<forall>n<2 ^ 16. var ''ADVERTISE_P2P_PORT'' = Some (js_show_nat n) \<longrightarrow> p = n) \<and>
     (var ''ADVERTISE_P2P_PORT'' = None \<longrightarrow> p = q) \<and>
     (bootstrap_address (read_config var) = None \<longleftrightarrow> var ''IS_BOOTSTRAP'' = Some ''true'')"
proof -
  define q where "q = unwrap_or (parse_unsigned 16
      (unwrap_or (or_else (var ''BIND_P2P_PORT'') (var ''NODE_PORT'')) ''6512'')) 6512"
  define p where "p = unwrap_or (parse_unsigned 16 (unwrap_or (var ''ADVERTISE_P2P_PORT'') (js_show_nat q))) q"
  define host where "host = unwrap_or (case or_else (var ''ADVERTISE_P2P_HOST'') (var ''ADVERTISE_HOST'') of
      None \<Rightarrow> None | Some s \<Rightarrow> if s = [] then None else Some s) ''localhost''"
  define bind where "bind = unwrap_or (or_else (var ''BIND_P2P_HOST'') (var ''BIND_HOST'')) ''0.0.0.0''"
  have q: "q < 2 ^ 16" unfolding q_def by (rule unwrap_parse_less) simp
  have p: "p < 2 ^ 16" unfolding p_def by (rule unwrap_parse_less) (rule q)
  have "host \<noteq> []" by (auto simp: host_def split: option.split)
  moreover have "bind_api_port (read_config var) < 2 ^ 16"
    unfolding read_config_def Let_def node_config.simps by (rule unwrap_parse_less) simp
  moreover have "stabilization_interval (read_config var) < 2 ^ 64"
    unfolding read_config_def Let_def node_config.simps by (rule unwrap_parse_less) simp
  moreover have "q = n" if "n < 2 ^ 16" "var ''BIND_P2P_PORT'' = Some (js_show_nat n)" for n
    using that by (simp add: q_def parse_show)
  moreover have "p = n" if "n < 2 ^ 16" "var ''ADVERTISE_P2P_PORT'' = Some (js_show_nat n)" for n
    using that by (simp add: p_def parse_show)
  moreover have "p = q" if "var ''ADVERTISE_P2P_PORT'' = None"
    using that q by (simp add: p_def parse_show)
  moreover have "bootstrap_address (read_config var) = None \<longleftrightarrow> var ''IS_BOOTSTRAP'' = Some ''true''"
    unfolding read_config_def Let_def node_config.simps by (simp split: option.split)
  moreover have "advertise_p2p_address (read_config var) = host @ '':'' @ js_show_nat p"
    "bind_p2p_address (read_config var) = bind @ '':'' @ js_show_nat q"
    unfolding read_config_def Let_def node_config.simps host_def p_def q_def bind_def by (rule refl)+
  ultimately show ?thesis using p q
    by (intro exI [of _ host] exI [of _ p] exI [of _ q] exI [of _ bind] conjI allI impI) assumption+
qed

theorem read_config_valid_witness:
  "bootstrap_address (read_config [''IS_BOOTSTRAP'' \<mapsto> ''true'', ''NODE_PORT'' \<mapsto> ''x'']) = None"
  using read_config_valid [of "[''IS_BOOTSTRAP'' \<mapsto> ''true'', ''NODE_PORT'' \<mapsto> ''x'']"] by auto

text \<open>
  A node created with an identifier of its own is no proper node: only its \<open>info\<close> gets the identifier, while its 160
  fingers keep the one computed from the address. When it has created a network, alone, its lookups for the
  identifiers beyond the computed one go through a finger that names the node's own address under the other
  identifier, so that it calls itself over the network; a node without the override answers them itself.
\<close>

theorem given_id_calls_itself:
  assumes "bignum_ok E" "is_between E (generate_node_id E a) i key" "i \<noteq> generate_node_id E a"
  shows "\<not> node_wf (new_with_client E i a api) \<and>
    (let n = fst (snd (create_network E net (new_with_client E i a api) w)); p = closest_preceding_node E key n
     in ni_id p \<noteq> ni_id (info n) \<and> ni_address p = ni_address (info n)) \<and>
    (let n = fst (snd (create_network E net (new_node E default_metrics a api) w))
     in closest_preceding_node E key n = info n)"
proof -
  let ?old = "\<lparr>ni_id = generate_node_id E a, ni_address = a, ni_api_address = api\<rparr>"
  let ?n = "new_with_client E i a api" and ?m = "new_node E default_metrics a api"
  have n: "info ?n = \<lparr>ni_id = i, ni_address = a, ni_api_address = api\<rparr>" "finger_table ?n = replicate M_bits ?old"
    "\<not> poisoned ?n k" for k
    by (simp_all add: new_with_client_def with_id_def new_node_def Let_def)
  have m: "info ?m = ?old" "finger_table ?m = replicate M_bits ?old" "\<not> poisoned ?m k" for k
    by (simp_all add: new_node_def Let_def)
  have started: "info (fst (snd (create_network E net x w))) = info x"
    "finger_table (fst (snd (create_network E net x w))) = finger_table x"
    "poisoned (fst (snd (create_network E net x w))) = poisoned x" for x :: node
    by (simp_all add: create_network_def join_def start_new_network_def safe_update_def set_successor_def
        set_successor_list_def set_predecessor_def)
  have rep: "List.find Q (replicate M_bits x) = (if Q x then Some x else None)" for Q and x :: node_info
    by (simp add: M_bits_def numeral_eq_Suc)
  have "\<not> node_wf ?n" using assms(3) n by (simp add: node_wf_def M_bits_def)
  moreover have "closest_preceding_node E key (fst (snd (create_network E net ?n w))) = ?old"
    using assms(2) n by (simp add: closest_preceding_node_def safe_lock_def started rep)
  moreover have "closest_preceding_node E key (fst (snd (create_network E net ?m w))) = ?old"
    using m by (simp add: closest_preceding_node_def safe_lock_def started rep)
  ultimately show ?thesis using assms(3) n m by (simp add: started Let_def)
qed

theorem given_id_calls_itself_witness:
  "let n = fst (snd (create_network example_env idle_net (new_with_client example_env (id_of_nat 20) ''n'' ''n'') ()));
       p = closest_preceding_node example_env (id_of_nat 30) n
   in ni_id p \<noteq> ni_id (info n) \<and> ni_address p = ni_address (info n)"
proof -
  have "generate_node_id example_env ''n'' = id_of_nat 25" by (simp add: generate_node_id_def example_env_def)
  then show ?thesis
    using given_id_calls_itself [OF example_bignum_ok, of "''n''" "id_of_nat 20" "id_of_nat 30" "''n''" idle_net "()"]
    by (simp add: example_between id_of_nat_eq_iff)
qed

lemma wait_ends:
  assumes "\<And>i. 100 * i \<le> elapsed i" "i \<le> 301"
  shows "\<exists>k. wait_for_connections open_at elapsed i = Some k \<and> k \<le> 301 \<and> (open_at k = 0 \<or> 30000 < elapsed k)"
  using assms(2)
proof (induction "301 - i" arbitrary: i)
  case 0
  then have "i = 301" by simp
  then have "30000 < elapsed i" using assms(1) [of 301] by simp
  with \<open>i = 301\<close> show ?case by (subst wait_for_connections.simps) (auto simp: word_gt_0)
next
  case (Suc d)
  then obtain k where "wait_for_connections open_at elapsed (Suc i) = Some k" "k \<le> 301" "open_at k = 0 \<or> 30000 < elapsed k"
    by (metis Suc_diff_Suc Suc_leI diff_Suc_1 diff_is_0_eq nat.distinct(1) not_le)
  with Suc.prems show ?case by (subst wait_for_connections.simps) (auto simp: word_gt_0)
qed

text \<open>
  Shutting down ends: with the thread asleep for a tenth of a second between its looks, it stops waiting after at
  most 302 of them, with no open connection or after the thirty seconds, and the node is marked as shutting
  down.
\<close>

theorem shutdown_ends:
  assumes "\<And>i. 100 * i \<le> elapsed i"
  shows "\<exists>k. shutdown open_at elapsed n = Some (k, n\<lparr>shutdown_signal := True\<rparr>) \<and> k \<le> 301 \<and>
    (open_at k = 0 \<or> 30000 < elapsed k)"
proof -
  obtain k where "wait_for_connections open_at elapsed 0 = Some k" "k \<le> 301" "open_at k = 0 \<or> 30000 < elapsed k"
    using wait_ends [OF assms, of 0 open_at] by auto
  then show ?thesis by (simp add: shutdown_def)
qed

theorem shutdown_ends_witness:
  "\<exists>k. shutdown (\<lambda>_. 1) (\<lambda>i. 100 * i) node_a = Some (k, node_a\<lparr>shutdown_signal := True\<rparr>) \<and> k \<le> 301"
  using shutdown_ends [of "\<lambda>i. 100 * i" "\<lambda>_. 1" node_a] by auto

end
