(* ===== verification/Process.thy ===== *)
theory Process
  imports Cluster Startup
begin

text \<open>
  The process of a node (\<open>main\<close> of \<open>node/src/main.rs\<close>): the tasks it starts, their waiting for each other, and how
  it ends. The steps of the tasks interleave; what an operation does to the node is the model of the operation,
  with whatever the other tasks do while it waits.
\<close>

section \<open>The tasks\<close>

text \<open>
  Where each task is. \<open>main\<close> joins, selects between the server and the signal task, and waits for the stabilization
  task; \<open>Exited\<close> is the exit when the HTTP interface fails.
\<close>

datatype main_point = Joining | Selecting | Awaiting | Finished | Exited
datatype server_point = Binding | Looking | Accepting | Server_stopped
datatype stabilization_point = Round_due | Sleeping | Panicked | Stabilization_ended
datatype signal_point = Registering | Waiting | Shutting_down | Signal_ended

record 'w process =
  pr_node :: node
  pr_world :: 'w
  pr_main :: main_point
  pr_server :: server_point
  pr_stabilization :: stabilization_point
  pr_signal :: signal_point
  pr_sockets :: nat

definition started :: "env \<Rightarrow> variables \<Rightarrow> 'w \<Rightarrow> 'w process" where
  "started E var w =
     (let c = read_config var
      in \<lparr>pr_node = new_node E default_metrics (advertise_p2p_address c) (advertise_api_address c), pr_world = w,
          pr_main = Joining, pr_server = Binding, pr_stabilization = Round_due, pr_signal = Registering, pr_sockets = 0\<rparr>)"

definition tasks_run :: "'w process \<Rightarrow> bool" where
  "tasks_run p \<longleftrightarrow> pr_main p \<in> {Selecting, Awaiting}"

definition alive :: "'w process \<Rightarrow> bool" where
  "alive p \<longleftrightarrow> pr_main p \<notin> {Finished, Exited}"

definition at_node :: "'w process \<Rightarrow> node \<times> 'w \<Rightarrow> 'w process" where
  "at_node p x = p\<lparr>pr_node := fst x, pr_world := snd x\<rparr>"

section \<open>What the other tasks may do during a call\<close>

text \<open>They keep what every operation keeps, and nothing takes the shutdown signal back.\<close>

definition process_kept :: "node \<Rightarrow> node \<Rightarrow> bool" where
  "process_kept n n' \<longleftrightarrow> kept n n' \<and> (shutdown_signal n \<longrightarrow> shutdown_signal n')"

section \<open>The steps\<close>

text \<open>The fixed parts of a process: the third-party code, the arithmetic, and the variables it was started with.\<close>

record parts =
  pa_crypto :: crypto
  pa_codecs :: codecs
  pa_bincode :: bincode
  pa_single :: float_ops
  pa_double :: float_ops
  pa_env :: env
  pa_variables :: variables

text \<open>\<open>ChordNode::start\<close>: accepted sockets are handed to tasks of their own (\<open>pr_sockets\<close>).\<close>

inductive server_step :: "'w process \<Rightarrow> 'w process \<Rightarrow> bool" where
  bind_failed: "pr_server p = Binding \<Longrightarrow> server_step p (p\<lparr>pr_server := Server_stopped\<rparr>)"
| bound: "pr_server p = Binding \<Longrightarrow> server_step p (p\<lparr>pr_server := Looking\<rparr>)"
| stops: "pr_server p = Looking \<Longrightarrow> shutdown_signal (pr_node p) \<Longrightarrow> server_step p (p\<lparr>pr_server := Server_stopped\<rparr>)"
| accepts: "pr_server p = Looking \<Longrightarrow> \<not> shutdown_signal (pr_node p) \<Longrightarrow> server_step p (p\<lparr>pr_server := Accepting\<rparr>)"
| accepted: "pr_server p = Accepting \<Longrightarrow> server_step p (p\<lparr>pr_server := Looking, pr_sockets := Suc (pr_sockets p)\<rparr>)"
| accept_failed: "pr_server p = Accepting \<Longrightarrow> server_step p (p\<lparr>pr_server := Looking\<rparr>)"

inductive connection_step :: "parts \<Rightarrow> 'w process \<Rightarrow> 'w process \<Rightarrow> bool" for K where
  served: "0 < pr_sockets p \<Longrightarrow> dht_rely process_kept net \<Longrightarrow>
     handle_connection (pa_bincode K) (pa_double K) (pa_env K) net events (pr_node p) (pr_world p) = (r, x) \<Longrightarrow>
     connection_step K p (at_node (p\<lparr>pr_sockets := pr_sockets p - 1\<rparr>) x)"

text \<open>The stabilization task: it looks for the signal before every round, and a panic ends it.\<close>

inductive stabilization_step :: "parts \<Rightarrow> 'w process \<Rightarrow> 'w process \<Rightarrow> bool" for K where
  told: "pr_stabilization p = Round_due \<Longrightarrow> shutdown_signal (pr_node p) \<Longrightarrow>
     stabilization_step K p (p\<lparr>pr_stabilization := Stabilization_ended\<rparr>)"
| round: "pr_stabilization p = Round_due \<Longrightarrow> \<not> shutdown_signal (pr_node p) \<Longrightarrow> dht_rely process_kept net \<Longrightarrow> 1 \<le> i \<Longrightarrow>
     maintenance_round (pa_double K) (pa_single K) (pa_env K) net i pick (pr_node p) (pr_world p) = (r, x) \<Longrightarrow>
     stabilization_step K p
       ((at_node p x)\<lparr>pr_stabilization := if r = Panic then Panicked else Sleeping\<rparr>)"
| woken: "pr_stabilization p = Sleeping \<Longrightarrow> stabilization_step K p (p\<lparr>pr_stabilization := Round_due\<rparr>)"

text \<open>The signal task: \<open>shutdown\<close> sets the signal first and then waits for the open connections.\<close>

inductive signal_step :: "'w process \<Rightarrow> 'w process \<Rightarrow> bool" where
  not_registered: "pr_signal p = Registering \<Longrightarrow> signal_step p (p\<lparr>pr_signal := Signal_ended\<rparr>)"
| registered: "pr_signal p = Registering \<Longrightarrow> signal_step p (p\<lparr>pr_signal := Waiting\<rparr>)"
| received: "pr_signal p = Waiting \<Longrightarrow>
     signal_step p (p\<lparr>pr_signal := Shutting_down, pr_node := (pr_node p)\<lparr>shutdown_signal := True\<rparr>\<rparr>)"
| waited: "pr_signal p = Shutting_down \<Longrightarrow> wait_for_connections open_at elapsed 0 = Some i \<Longrightarrow>
     signal_step p (p\<lparr>pr_signal := Signal_ended\<rparr>)"

text \<open>\<open>main\<close> itself, from the call of \<open>join\<close> on; the HTTP interface runs before it and may fail.\<close>

inductive main_step :: "parts \<Rightarrow> 'w process \<Rightarrow> 'w process \<Rightarrow> bool" for K where
  joined: "pr_main p = Joining \<Longrightarrow> dht_rely process_kept net \<Longrightarrow>
     join (pa_env K) net (bootstrap_address (read_config (pa_variables K))) (pr_node p) (pr_world p) = x \<Longrightarrow>
     main_step K p ((at_node p x)\<lparr>pr_main := Selecting\<rparr>)"
| server_done: "pr_main p = Selecting \<Longrightarrow> pr_server p = Server_stopped \<Longrightarrow> main_step K p (p\<lparr>pr_main := Awaiting\<rparr>)"
| signal_done: "pr_main p = Selecting \<Longrightarrow> pr_signal p = Signal_ended \<Longrightarrow> main_step K p (p\<lparr>pr_main := Awaiting\<rparr>)"
| finished: "pr_main p = Awaiting \<Longrightarrow> pr_stabilization p \<in> {Panicked, Stabilization_ended} \<Longrightarrow> main_step K p (p\<lparr>pr_main := Finished\<rparr>)"

text \<open>The HTTP interface (\<open>run\<close> of \<open>node/src/api.rs\<close>): it serves requests, and its failure exits the process.\<close>

inductive api_step :: "parts \<Rightarrow> 'w process \<Rightarrow> 'w process \<Rightarrow> bool" for K where
  failed_run: "api_step K p (p\<lparr>pr_main := Exited\<rparr>)"
| request: "dht_rely process_kept net \<Longrightarrow>
     handle_request (pa_crypto K) (pa_codecs K) (pa_env K) net req st (pr_node p) (pr_world p) = (r, st', x) \<Longrightarrow>
     api_step K p (at_node p x)"

datatype task = Main | Server | Connection | Stabilization | Signal | Api

fun process_step :: "parts \<Rightarrow> task \<Rightarrow> 'w process \<Rightarrow> 'w process \<Rightarrow> bool" where
  "process_step K Main p q = (alive p \<and> main_step K p q)"
| "process_step K Api p q = (alive p \<and> api_step K p q)"
| "process_step K Server p q = (tasks_run p \<and> server_step p q)"
| "process_step K Connection p q = (tasks_run p \<and> connection_step K p q)"
| "process_step K Stabilization p q = (tasks_run p \<and> stabilization_step K p q)"
| "process_step K Signal p q = (tasks_run p \<and> signal_step p q)"

inductive process_reachable :: "parts \<Rightarrow> 'w \<Rightarrow> 'w process \<Rightarrow> bool" for K w where
  start: "process_reachable K w (started (pa_env K) (pa_variables K) w)"
| step: "process_reachable K w p \<Longrightarrow> process_step K t p q \<Longrightarrow> process_reachable K w q"

inductive_cases server_stepE: "server_step p q"
inductive_cases stabilization_stepE: "stabilization_step K p q"
inductive_cases signal_stepE: "signal_step p q"
inductive_cases main_stepE: "main_step K p q"
inductive_cases api_stepE: "api_step K p q"
inductive_cases connection_stepE: "connection_step K p q"

lemmas task_cases = server_stepE connection_stepE stabilization_stepE signal_stepE main_stepE api_stepE

section \<open>What the steps keep\<close>

lemma told_setters [simp]:
  "shutdown_signal (extend_entry k vs n) = shutdown_signal n" "shutdown_signal (set_successor s n) = shutdown_signal n"
  "shutdown_signal (set_predecessor q n) = shutdown_signal n" "shutdown_signal (set_successor_list ss n) = shutdown_signal n"
  "shutdown_signal (set_finger i s n) = shutdown_signal n"
  by (simp_all add: extend_entry_def set_successor_def set_predecessor_def set_successor_list_def set_finger_def)

interpretation process: ring_relation process_kept
proof unfold_locales
  fix n n' n'' :: node
  show "process_kept n n" by (simp add: process_kept_def kept.R_refl)
  show "process_kept n n''" if "process_kept n n'" "process_kept n' n''"
    using that by (auto simp: process_kept_def intro: kept.R_trans)
qed (simp_all add: process_kept_def kept.R_extend kept.R_successor kept.R_predecessor kept.R_successor_list kept.R_finger)

lemma told_frame [simp]:
  "shutdown_signal (update_local_metrics F E n) = shutdown_signal n"
  "shutdown_signal (record_load G l n) = shutdown_signal n"
  by (auto simp: update_local_metrics_def record_load_def update_node_load_def safe_update_def Let_def split: option.split)

lemma told_share: "handle_share_metrics F m n = (r, n') \<Longrightarrow> shutdown_signal n' = shutdown_signal n"
  by (auto simp: handle_share_metrics_def Let_def split: option.splits if_splits)

interpretation serving: service_relation "\<lambda>x y. process_kept (fst x) (fst y)" "\<lambda>x. own_loads (fst x)"
  by unfold_locales
     (auto simp: process_kept_def handle_share_metrics_kept update_local_metrics_kept record_load_kept connections_kept
       told_share, simp_all add: kept_def)

section \<open>Runs\<close>

fun process_run :: "parts \<Rightarrow> 'w process \<Rightarrow> task list \<Rightarrow> 'w process \<Rightarrow> bool" where
  "process_run K p [] q = (p = q)"
| "process_run K p (t # ts) q = (\<exists>p1. process_step K t p p1 \<and> process_run K p1 ts q)"

lemma round_kept:
  assumes "maintenance_round F G E net i pick n w = (r, n', w')" "dht_rely process_kept net" "Suc 0 \<le> i" "float_ok G"
    "own_loads n"
  shows "process_kept n n'"
  using serving.maintenance_round_Q [OF assms(4) rely_along [OF assms(2)], of n w i F E pick r n' w'] assms(1,3,5) by simp

lemma step_kept:
  assumes "process_step K t p q" "float_ok (pa_single K)" "own_loads (pr_node p)"
  shows "process_kept (pr_node p) (pr_node q)"
proof (cases t)
  case Main
  then show ?thesis using assms(1)
    by (auto simp: at_node_def process.R_refl elim!: main_stepE intro: process.join_R [OF _ surjective_pairing])
next
  case Connection
  then show ?thesis using assms(1)
    by (auto simp: at_node_def elim!: connection_stepE dest!: serving.handle_connection_Q [OF rely_along])
next
  case Stabilization
  then show ?thesis using assms
    by (auto simp: at_node_def process.R_refl elim!: stabilization_stepE intro: round_kept)
next
  case Signal
  have "process_kept n (n\<lparr>shutdown_signal := True\<rparr>)" for n :: node
    unfolding process_kept_def by (auto intro!: kept_frame simp: node_good_def data_grows_def node_wf_def)
  with Signal show ?thesis using assms(1) by (auto simp: process.R_refl elim!: signal_stepE)
next
  case Api
  then show ?thesis using assms(1)
    by (auto simp: at_node_def process.R_refl elim!: api_stepE dest!: process.paired.handle_request_Q [OF rely_along])
qed (use assms(1) in \<open>auto simp: process.R_refl elim!: server_stepE\<close>)

lemma run_kept:
  assumes "float_ok (pa_single K)"
  shows "process_run K p ts q \<Longrightarrow> own_loads (pr_node p) \<Longrightarrow> process_kept (pr_node p) (pr_node q)"
proof (induction ts arbitrary: p)
  case (Cons t ts)
  then obtain p1 where 1: "process_step K t p p1" "process_run K p1 ts q" by auto
  have k: "process_kept (pr_node p) (pr_node p1)" by (rule step_kept [OF 1(1) assms Cons.prems(2)])
  with Cons.prems(2) have "own_loads (pr_node p1)" by (simp add: process_kept_def kept_def)
  with k Cons.IH [OF 1(2)] show ?case by (blast intro: process.R_trans)
qed (simp add: process.R_refl)

lemma started_wf: "node_wf (pr_node (started E var w)) \<and> own_loads (pr_node (started E var w))"
  by (simp add: started_def Let_def new_node_wf) (simp add: own_loads_def new_node_def Let_def)

lemma reachable_wf:
  assumes "float_ok (pa_single K)" "process_reachable K w p"
  shows "node_wf (pr_node p) \<and> own_loads (pr_node p)"
  using assms(2)
proof induction
  case (step p t q)
  with step_kept [OF step.hyps(2) assms(1)] show ?case by (simp add: process_kept_def kept_def node_good_def)
qed (rule started_wf)

text \<open>The stabilization task ends orderly only when told.\<close>

lemma step_told:
  assumes "process_step K t p q" "float_ok (pa_single K)" "own_loads (pr_node p)"
    and "pr_stabilization p = Stabilization_ended \<Longrightarrow> shutdown_signal (pr_node p)"
    and "pr_main p = Finished \<Longrightarrow> pr_stabilization p \<in> {Panicked, Stabilization_ended}"
  shows "(pr_stabilization q = Stabilization_ended \<longrightarrow> shutdown_signal (pr_node q)) \<and>
    (pr_main q = Finished \<longrightarrow> pr_stabilization q \<in> {Panicked, Stabilization_ended})"
proof -
  have mono: "shutdown_signal (pr_node p) \<Longrightarrow> shutdown_signal (pr_node q)"
    using step_kept [OF assms(1-3)] by (simp add: process_kept_def)
  show ?thesis using assms(1,4,5) mono
    by (cases t) (auto simp: at_node_def alive_def tasks_run_def elim!: task_cases split: if_splits)
qed

lemma reachable_told:
  assumes "float_ok (pa_single K)" "process_reachable K w p"
  shows "(pr_stabilization p = Stabilization_ended \<longrightarrow> shutdown_signal (pr_node p)) \<and>
    (pr_main p = Finished \<longrightarrow> pr_stabilization p \<in> {Panicked, Stabilization_ended})"
  using assms(2)
proof induction
  case (step p t q)
  with step_told [OF step.hyps(2) assms(1)] reachable_wf [OF assms(1) step.hyps(1)] show ?case by blast
qed (simp add: started_def Let_def)

lemma run_reachable: "process_run K p ts q \<Longrightarrow> process_reachable K w p \<Longrightarrow> process_reachable K w q"
  by (induction ts arbitrary: p) (auto intro: process_reachable.step)

section \<open>Ending\<close>

text \<open>What the tasks other than the HTTP interface have left to do, once the signal is set.\<close>

fun main_left :: "main_point \<Rightarrow> nat" where
  "main_left Joining = 3"
| "main_left Selecting = 2"
| "main_left Awaiting = 1"
| "main_left _ = 0"

fun server_left :: "server_point \<Rightarrow> nat" where
  "server_left Accepting = 3"
| "server_left Binding = 2"
| "server_left Looking = 1"
| "server_left Server_stopped = 0"

fun stabilization_left :: "stabilization_point \<Rightarrow> nat" where
  "stabilization_left Sleeping = 2"
| "stabilization_left Round_due = 1"
| "stabilization_left _ = 0"

fun signal_left :: "signal_point \<Rightarrow> nat" where
  "signal_left Registering = 3"
| "signal_left Waiting = 2"
| "signal_left Shutting_down = 1"
| "signal_left Signal_ended = 0"

definition left :: "'w process \<Rightarrow> nat" where
  "left p = main_left (pr_main p) + server_left (pr_server p) + stabilization_left (pr_stabilization p) +
     signal_left (pr_signal p) + pr_sockets p"

lemma step_left:
  assumes "process_step K t p q" "shutdown_signal (pr_node p)"
  shows "if t = Api then left q \<le> left p else left q < left p"
  using assms
  by (cases t) (auto simp: left_def at_node_def alive_def tasks_run_def elim!: task_cases)

lemma run_left:
  assumes "float_ok (pa_single K)"
  shows "process_run K p ts q \<Longrightarrow> own_loads (pr_node p) \<Longrightarrow> shutdown_signal (pr_node p) \<Longrightarrow>
    length (filter (\<lambda>t. t \<noteq> Api) ts) + left q \<le> left p"
proof (induction ts arbitrary: p)
  case (Cons t ts)
  then obtain p1 where 1: "process_step K t p p1" "process_run K p1 ts q" by auto
  have "process_kept (pr_node p) (pr_node p1)" by (rule step_kept [OF 1(1) assms Cons.prems(2)])
  with Cons.prems have "own_loads (pr_node p1)" "shutdown_signal (pr_node p1)" by (simp_all add: process_kept_def kept_def)
  with Cons.IH [OF 1(2)] step_left [OF 1(1) Cons.prems(3)] show ?case by (auto split: if_splits)
qed simp

lemma step_running: "process_step K t p q \<Longrightarrow> tasks_run p \<Longrightarrow> tasks_run q \<or> \<not> alive q"
  by (cases t) (auto simp: at_node_def alive_def tasks_run_def elim!: task_cases)

lemma run_inv:
  assumes "process_run K p ts q" "Q p" "\<And>t p q. process_step K t p q \<Longrightarrow> Q p \<Longrightarrow> Q q"
  shows "Q q"
  using assms(1,2) by (induction ts arbitrary: p) (auto dest: assms(3))

lemma not_alive_stops: "process_step K t p q \<Longrightarrow> alive p"
  by (cases t) (auto simp: tasks_run_def alive_def)

lemma run_running: "process_run K p ts q \<Longrightarrow> tasks_run p \<Longrightarrow> tasks_run q \<or> \<not> alive q"
  by (drule run_inv [where Q = "\<lambda>p. tasks_run p \<or> \<not> alive p"]) (blast dest: step_running not_alive_stops)+

text \<open>What stays as it is: a stopped server, and a signal that was received.\<close>

lemma step_stays:
  assumes "process_step K t p q"
  shows "pr_server p = Server_stopped \<Longrightarrow> pr_server q = Server_stopped"
    and "pr_signal p \<in> {Shutting_down, Signal_ended} \<Longrightarrow> pr_signal q \<in> {Shutting_down, Signal_ended}"
  using assms by (cases t; auto simp: at_node_def elim!: task_cases)+

lemma run_stays:
  assumes "process_run K p ts q"
  shows "pr_server p = Server_stopped \<Longrightarrow> pr_server q = Server_stopped"
    and "pr_signal p \<in> {Shutting_down, Signal_ended} \<Longrightarrow> pr_signal q \<in> {Shutting_down, Signal_ended}"
  using run_inv [OF assms, of "\<lambda>p. pr_server p = Server_stopped"]
    run_inv [OF assms, of "\<lambda>p. pr_signal p \<in> {Shutting_down, Signal_ended}"] step_stays by blast+

text \<open>A task that can go on by itself: the stabilization task, until it has ended; and, after the signal, \<open>main\<close>.\<close>

lemma stabilization_goes_on:
  assumes "tasks_run p" "pr_stabilization p \<notin> {Panicked, Stabilization_ended}"
  shows "\<exists>q. process_step K Stabilization p q"
proof -
  have rely: "dht_rely process_kept idle_net" by (rule idle_rely) (rule process.R_refl)
  obtain r x where r: "maintenance_round (pa_double K) (pa_single K) (pa_env K) idle_net 1 hd (pr_node p) (pr_world p) = (r, x)"
    by (cases "maintenance_round (pa_double K) (pa_single K) (pa_env K) idle_net 1 hd (pr_node p) (pr_world p)")
  consider "pr_stabilization p = Sleeping" | "pr_stabilization p = Round_due" "shutdown_signal (pr_node p)"
    | "pr_stabilization p = Round_due" "\<not> shutdown_signal (pr_node p)"
    using assms(2) by (cases "pr_stabilization p") auto
  then have "\<exists>q. stabilization_step K p q"
  proof cases
    case 3
    from round [OF this rely order.refl r] show ?thesis by blast
  qed (blast intro: woken told)+
  with assms(1) show ?thesis by simp
qed

lemma goes_on_after_signal:
  assumes "tasks_run p" "pr_signal p \<in> {Shutting_down, Signal_ended}"
  shows "\<exists>t\<in>{Main, Stabilization, Signal}. \<exists>q. process_step K t p q"
proof -
  have "wait_for_connections (\<lambda>i. 0) elapsed 0 = Some 0" for elapsed by (subst wait_for_connections.simps) simp
  then have "\<exists>q. process_step K Signal p q" if "pr_signal p = Shutting_down"
    using assms(1) that by (auto intro: waited)
  moreover have "\<exists>q. process_step K Main p q" if "pr_main p = Selecting" "pr_signal p = Signal_ended"
    using that by (auto simp: alive_def intro: signal_done)
  moreover have "\<exists>q. process_step K Main p q" if "pr_main p = Awaiting" "pr_stabilization p \<in> {Panicked, Stabilization_ended}"
    using that by (auto simp: alive_def intro!: finished)
  moreover consider "pr_signal p = Shutting_down" | "pr_main p = Selecting" "pr_signal p = Signal_ended"
    | "pr_main p = Awaiting" "pr_stabilization p \<in> {Panicked, Stabilization_ended}"
    | "pr_stabilization p \<notin> {Panicked, Stabilization_ended}"
    using assms by (auto simp: tasks_run_def)
  ultimately show ?thesis using stabilization_goes_on [OF assms(1)] by cases blast+
qed

section \<open>Properties\<close>


text \<open>A first node of a network, its process after joining.\<close>

definition example_parts :: parts where
  "example_parts = \<lparr>pa_crypto = toy_crypto, pa_codecs = toy_codecs,
     pa_bincode = \<lparr>bc_deserialize = (\<lambda>bs. Inl []), bc_serialize = (\<lambda>m. Inl [])\<rparr>, pa_single = exact_ops,
     pa_double = exact_ops, pa_env = example_env, pa_variables = [''IS_BOOTSTRAP'' \<mapsto> ''true'']\<rparr>"

definition example_process :: "unit process" where
  "example_process =
     (let p = started example_env [''IS_BOOTSTRAP'' \<mapsto> ''true''] ()
      in (at_node p (join example_env idle_net None (pr_node p) ()))\<lparr>pr_main := Selecting\<rparr>)"

lemma example_parts_ok: "float_ok (pa_single example_parts)"
  by (simp add: example_parts_def exact_float_ok)

lemma example_process_points:
  "pr_main example_process = Selecting" "pr_server example_process = Binding" "pr_stabilization example_process = Round_due"
  "pr_signal example_process = Registering" "pr_sockets example_process = 0" "\<not> shutdown_signal (pr_node example_process)"
proof -
  have "shutdown_signal (fst (join example_env idle_net None n ())) = shutdown_signal n" for n :: node
    by (simp add: join_def start_new_network_def safe_update_def)
  then show "\<not> shutdown_signal (pr_node example_process)"
    by (simp add: example_process_def at_node_def started_def Let_def) (simp add: new_node_def Let_def)
qed (simp_all add: example_process_def at_node_def started_def Let_def)

lemma example_process_reachable: "process_reachable example_parts () example_process"
proof -
  let ?p = "started example_env [''IS_BOOTSTRAP'' \<mapsto> ''true''] ()"
  have "bootstrap_address (read_config [''IS_BOOTSTRAP'' \<mapsto> ''true'']) = None" by (simp add: read_config_def Let_def)
  moreover have "dht_rely process_kept (idle_net :: (network_metrics, unit) dht)" by (rule idle_rely) (rule process.R_refl)
  moreover have "process_reachable example_parts () ?p"
    using process_reachable.start [of example_parts "()"] by (simp add: example_parts_def)
  ultimately have "process_step example_parts Main ?p example_process"
    using joined [of ?p idle_net example_parts] by (simp add: example_parts_def example_process_def Let_def alive_def started_def)
  with \<open>process_reachable example_parts () ?p\<close> show ?thesis by (rule process_reachable.step)
qed


text \<open>
  C36. A node whose server has stopped, because it could not bind its address, goes on as a process that no other
  node reaches: as long as no signal arrives and no round panics, \<open>main\<close> does not finish, and the stabilization task
  has always something to do, announcing the node to the others round after round.
\<close>

theorem stopped_server_lingers:
  assumes "float_ok (pa_single K)" "process_reachable K w p" "tasks_run p" "pr_server p = Server_stopped"
    and "process_run K p ts q" "\<not> shutdown_signal (pr_node q)" "pr_stabilization q \<noteq> Panicked"
  shows "pr_server q = Server_stopped \<and> pr_main q \<noteq> Finished \<and>
    (pr_main q \<noteq> Exited \<longrightarrow> (\<exists>q'. process_step K Stabilization q q'))"
proof -
  have "process_reachable K w q" by (rule run_reachable [OF assms(5,2)])
  from reachable_told [OF assms(1) this] have told: "pr_stabilization q \<noteq> Stabilization_ended" "pr_main q \<noteq> Finished"
    using assms(6,7) by auto
  have "\<exists>q'. process_step K Stabilization q q'" if "pr_main q \<noteq> Exited"
  proof (rule stabilization_goes_on)
    show "tasks_run q" using run_running [OF assms(5,3)] told(2) that by (auto simp: alive_def)
  qed (use told(1) assms(7) in simp)
  then show ?thesis using told run_stays(1) [OF assms(5,4)] by blast
qed

theorem stopped_server_lingers_witness:
  "\<exists>p q. process_run example_parts p [Main] (q :: unit process) \<and> pr_server q = Server_stopped \<and> pr_main q = Awaiting \<and>
     (\<exists>q'. process_step example_parts Stabilization q q')"
proof -
  define p where "p = example_process\<lparr>pr_server := Server_stopped\<rparr>"
  define q where "q = p\<lparr>pr_main := Awaiting\<rparr>"
  note points = example_process_points alive_def tasks_run_def
  have "process_step example_parts Server example_process p"
    unfolding p_def using bind_failed [of example_process] by (simp add: points)
  with example_process_reachable have r: "process_reachable example_parts () p" by (rule process_reachable.step)
  have run: "process_run example_parts p [Main] q"
    using server_done [of p] by (simp add: q_def p_def points)
  have "pr_server q = Server_stopped \<and> pr_main q \<noteq> Finished \<and>
      (pr_main q \<noteq> Exited \<longrightarrow> (\<exists>q'. process_step example_parts Stabilization q q'))"
    by (rule stopped_server_lingers [OF example_parts_ok r _ _ run]) (simp_all add: q_def p_def points)
  with run show ?thesis by (intro exI [of _ p] exI [of _ q]) (simp add: q_def)
qed

end
