(* ===== verification/Two_Nodes.thy ===== *)
theory Two_Nodes
  imports Cluster
begin

text \<open>
  Two nodes whose messages reach each other: after the second has joined, \<open>stabilize\<close> makes them a ring under every
  fair schedule, and a message stored through either of them is on both and is read through either.
\<close>

section \<open>Calls between two nodes\<close>

definition known_apart :: "node \<Rightarrow> node \<Rightarrow> bool" where
  "known_apart X Y \<longleftrightarrow> ni_id (info X) \<noteq> ni_id (info Y) \<and> ni_address (info X) \<noteq> ni_address (info Y) \<and>
     (\<forall>m. \<not> poisoned X m \<and> \<not> poisoned Y m)"

lemma known_apart_sym: "known_apart X Y \<Longrightarrow> known_apart Y X"
  by (auto simp: known_apart_def)

definition only :: "node \<Rightarrow> cluster" where
  "only n = [ni_address (info n) \<mapsto> n]"

definition pair :: "node \<Rightarrow> node \<Rightarrow> cluster" where
  "pair X Y = [ni_address (info X) \<mapsto> X, ni_address (info Y) \<mapsto> Y]"

lemma pair_sym: "known_apart X Y \<Longrightarrow> pair X Y = pair Y X"
  by (auto simp: pair_def known_apart_def)

lemma call_other:
  assumes "ni_address (info X) \<noteq> ni_address (info Y)"
    and "handle_message F E (cluster_net F E d) m Y (only X) = (Ok r, Y', only X')"
    and "info X' = info X" "info Y' = info Y"
  shows "cluster_net F E (Suc d) (ni_address (info Y)) m X (only Y) = (Inr r, X', only Y')"
proof -
  have e: "(only Y)(ni_address (info Y) := None, ni_address (info X) \<mapsto> X) = only X"
    "(only X')(ni_address (info X) := None, ni_address (info Y) \<mapsto> Y') = only Y'"
    "only X' (ni_address (info X)) = Some X'" "only Y (ni_address (info Y)) = Some Y"
    using assms(3,4) by (auto simp: only_def fun_eq_iff)
  show ?thesis using assms(1,2) by (simp add: Let_def e answer_of_def del: fun_upd_apply)
qed

lemma run_at_pair:
  assumes "ni_address (info X) \<noteq> ni_address (info Y)" "f X (only Y) = (r, X', only Y')"
    and "info X' = info X" "info Y' = info Y"
  shows "run_at (ni_address (info X)) f (pair X Y) = pair X' Y'"
proof -
  have e: "(pair X Y)(ni_address (info X) := None) = only Y" "(only Y')(ni_address (info X) \<mapsto> X') = pair X' Y'"
    "pair X Y (ni_address (info X)) = Some X"
    using assms by (auto simp: pair_def only_def fun_eq_iff)
  show ?thesis by (simp add: run_at_def e assms(2) del: fun_upd_apply)
qed

section \<open>Forming the ring\<close>

lemma empty_range: "env_ok E \<Longrightarrow> data n = Map.empty \<Longrightarrow> get_data_range E i j n = []"
proof -
  assume "env_ok E" "data n = Map.empty"
  then have "set (data_order E (data n)) = dom (data n)" by (simp add: env_ok_def)
  with \<open>data n = Map.empty\<close> have "data_order E (data n) = []" by simp
  then have "data_iter E (data n) = []" by (simp add: data_iter_def)
  then show ?thesis by (simp add: get_data_range_def safe_lock_def)
qed

lemma info_eta [simp]: "\<lparr>ni_id = ni_id i, ni_address = ni_address i, ni_api_address = ni_api_address i\<rparr> = (i :: node_info)"
  by simp

text \<open>\<open>X\<close> has \<open>Y\<close> as successor, and \<open>Y\<close> does not know \<open>X\<close> yet or has it on both sides.\<close>

definition approaching :: "node \<Rightarrow> node \<Rightarrow> bool" where
  "approaching X Y \<longleftrightarrow> successor X = info Y \<and>
     (predecessor Y = None \<and> successor Y \<in> {info X, info Y} \<or> predecessor Y = Some (info X) \<and> successor Y = info X)"

definition met :: "node \<Rightarrow> node \<Rightarrow> node" where
  "met X Y = Y\<lparr>predecessor := Some (info X), successor := info X\<rparr>"

definition listed :: "node \<Rightarrow> node \<Rightarrow> node" where
  "listed Y X = X\<lparr>successor_list := replicate 3 (info Y)\<rparr>"

lemma listed_id: "successor_list X = replicate 3 (info Y) \<Longrightarrow> listed Y X = X"
  by (cases X) (simp add: listed_def)

lemma met_id: "predecessor Y = Some (info X) \<Longrightarrow> successor Y = info X \<Longrightarrow> met X Y = Y"
  by (cases Y) (simp add: met_def)

lemma notify_met:
  assumes "env_ok E" "known_apart X Y" "approaching X Y" "data Y = Map.empty"
  shows "notify E net (info X) Y w = (met X Y, w)"
proof -
  have B: "bignum_ok E" using assms(1) by (simp add: env_ok_def)
  have m: "accept_predecessor (info X) Y = met X Y" if "predecessor Y = None"
    using that assms(2,3)
    by (auto simp: accept_predecessor_def safe_update_def known_apart_def approaching_def met_def set_successor_def
        set_predecessor_def)
  have "met X Y = Y" if "predecessor Y = Some (info X)" using that assms(3) by (simp add: approaching_def met_def)
  moreover have "get_data_range E i j (met X Y) = []" for i j
    by (rule empty_range [OF assms(1)]) (simp add: met_def assms(4))
  ultimately show ?thesis
    using assms(2,3) m
    by (auto simp: notify_def known_apart_def approaching_def safe_lock_def accepts_predecessor_def is_between_iff [OF B]
        flat_entries_def)
qed

lemma stabilize_pair:
  assumes "env_ok E" "known_apart X Y" "approaching X Y" "data Y = Map.empty"
  shows "stabilize E (cluster_net F E (Suc d)) X (only Y) = (listed Y X, only (met X Y))"
proof -
  have B: "bignum_ok E" using assms(1) by (simp add: env_ok_def)
  have ap: "ni_id (info X) \<noteq> ni_id (info Y)" "ni_address (info X) \<noteq> ni_address (info Y)"
    "\<not> poisoned X m" "\<not> poisoned Y m" for m using assms(2) by (simp_all add: known_apart_def)
  have s: "successor X = info Y" using assms(3) by (simp add: approaching_def)
  let ?a = "ni_address (info Y)" and ?net = "cluster_net F E (Suc d)"
  have keep: "info (met X Y) = info Y" "\<not> poisoned (met X Y) m" "successor (met X Y) = info X" for m
    using ap by (simp_all add: met_def)
  obtain i a api where q: "?net ?a GetPredecessor X (only Y) = (Inr (Predecessor i a api), X, only Y)"
    "(predecessor Y = None \<and> i = None) \<or>
     (predecessor Y = Some (info X) \<and> i = Some (ni_id (info X)) \<and> a = Some (ni_address (info X)) \<and> api = Some (ni_api_address (info X)))"
    using assms(3) ap call_other [where m = GetPredecessor and Y' = Y and X' = X and d = d and F = F and E = E, OF ap(2)]
    by (auto simp: handle_message_def safe_lock_def approaching_def)
  have p: "known_predecessor (Inr (Predecessor i a api :: network_metrics dht_message)) = None \<or>
      known_predecessor (Inr (Predecessor i a api :: network_metrics dht_message)) = Some (info X)"
    using q(2) by (cases i; cases a; cases api) auto
  have n: "?net ?a (notify_message (info X)) X (only Y) = (Inr Pong, X, only (met X Y))"
    using notify_met [OF assms] keep
    by (intro call_other [OF ap(2)]) (simp_all add: handle_message_def notify_message_def)
  have g: "?net ?a GetSuccessor X (only (met X Y)) = (Inr (found_node FoundSuccessor (info X)), X, only (met X Y))"
    using call_other [where m = GetSuccessor and Y' = "met X Y" and Y = "met X Y" and X = X and X' = X and d = d and F = F and E = E]
      ap keep by (simp add: handle_message_def safe_lock_def)
  have "update_successor_list ?net X (only (met X Y)) = (listed Y X, only (met X Y))"
    unfolding update_successor_list_def
    using ap s g
    by (simp add: safe_lock_def SUCCESSOR_LIST_SIZE_def numeral_2_eq_2 found_node_def fill_with_last_def Let_def
        safe_update_def set_successor_list_def listed_def numeral_3_eq_3)
  moreover have "\<not> is_between E (ni_id (info X)) (ni_id (info X)) (ni_id (info Y))"
    by (simp add: is_between_iff [OF B])
  ultimately show ?thesis
    using p q(1) n ap s
    by (auto simp: stabilize_def safe_lock_def Let_def simp del: cluster_net.simps known_predecessor.simps)
qed

definition fresh :: "node \<Rightarrow> bool" where
  "fresh n \<longleftrightarrow> lone n \<and> predecessor n = None \<and> data n = Map.empty"

definition heading :: "node \<Rightarrow> node \<Rightarrow> node" where
  "heading A B = B\<lparr>successor := info A\<rparr>"

lemma info_heading: "info (heading A B) = info B"
  by (simp add: heading_def)

lemma join_pair:
  assumes "env_ok E" "known_apart A B" "fresh A"
  shows "join E (cluster_net F E (Suc d)) (Some (ni_address (info A))) B (only A) = (heading A B, only A)"
proof -
  have ap: "ni_id (info A) \<noteq> ni_id (info B)" "ni_address (info A) \<noteq> ni_address (info B)" "\<not> poisoned B m" for m
    using assms(2) by (simp_all add: known_apart_def)
  have B: "bignum_ok E" using assms(1) by (simp add: env_ok_def)
  let ?net = "cluster_net F E (Suc d)" and ?a = "ni_address (info A)"
  have f: "?net ?a (FindSuccessor (ni_id (info B))) B (only A) = (Inr (found_node FoundSuccessor (info A)), B, only A)"
    using assms(3) ap by (intro call_other) (simp_all add: handle_message_def fresh_def lone_find_successor [OF B])
  have g: "?net ?a (GetDataRange i j) (heading A B) (only A) = (Inr (DataRange []), heading A B, only A)" for i j
  proof (rule call_other)
    show "ni_address (info (heading A B)) \<noteq> ni_address (info A)" using ap(2) by (simp add: heading_def)
    show "handle_message F E (cluster_net F E d) (GetDataRange i j) A (only (heading A B)) = (Ok (DataRange []), A, only (heading A B))"
      using assms(3) by (simp add: handle_message_def fresh_def empty_range [OF assms(1)])
  qed simp_all
  have h: "safe_update M_successor (set_successor (info A)) B = (True, heading A B)"
    by (simp add: safe_update_def ap(3) set_successor_def heading_def)
  show ?thesis using ap(1) f g h
    by (simp add: join_def found_node_def flat_entries_def del: cluster_net.simps)
qed

lemma stabilize_lone:
  assumes "fresh A" "\<not> poisoned A M_successor"
  shows "stabilize E net A w = (A, w)"
  using assms by (simp add: stabilize_def safe_lock_def fresh_def lone_def safe_update_def set_predecessor_def)

text \<open>One round of \<open>stabilize\<close> at an address, and rounds in turn.\<close>

definition stabilize_at :: "float_ops \<Rightarrow> env \<Rightarrow> nat \<Rightarrow> string \<Rightarrow> cluster \<Rightarrow> cluster" where
  "stabilize_at F E d a = run_at a (\<lambda>n C. ((), stabilize E (cluster_net F E d) n C))"

lemma stabilize_at_pair:
  assumes "env_ok E" "known_apart X Y" "approaching X Y" "data Y = Map.empty"
  shows "stabilize_at F E (Suc d) (ni_address (info X)) (pair X Y) = pair (listed Y X) (met X Y)"
  unfolding stabilize_at_def
  using assms(2) stabilize_pair [OF assms, of F d]
  by (intro run_at_pair [where r = "()"]) (simp_all add: known_apart_def listed_def met_def)

definition join_at :: "float_ops \<Rightarrow> env \<Rightarrow> nat \<Rightarrow> string \<Rightarrow> string \<Rightarrow> cluster \<Rightarrow> cluster" where
  "join_at F E d bootstrap b = run_at b (\<lambda>n C. ((), join E (cluster_net F E d) (Some bootstrap) n C))"

lemma joined_pair:
  assumes "env_ok E" "known_apart A B" "fresh A"
  shows "join_at F E (Suc d) (ni_address (info A)) (ni_address (info B)) (pair A B) = pair A (heading A B)"
proof -
  have apart: "ni_address (info B) \<noteq> ni_address (info A)" using assms(2) by (auto simp: known_apart_def)
  have "join_at F E (Suc d) (ni_address (info A)) (ni_address (info B)) (pair A B) = pair (heading A B) A"
    unfolding join_at_def pair_sym [OF assms(2)]
    by (rule run_at_pair [where r = "()"])
       (use apart join_pair [OF assms, of F d] in \<open>simp_all add: info_heading\<close>)
  also have "\<dots> = pair A (heading A B)"
    using assms(2) by (intro pair_sym) (auto simp: known_apart_def heading_def)
  finally show ?thesis .
qed

text \<open>The three states the rounds pass through.\<close>

definition halfway :: "node \<Rightarrow> node \<Rightarrow> cluster" where
  "halfway A B = pair (met B A) (listed A (heading A B))"

definition two_ring :: "node \<Rightarrow> node \<Rightarrow> cluster" where
  "two_ring A B = pair (listed B (met B A)) (met A (listed A (heading A B)))"

lemma rounds:
  assumes "env_ok E" "known_apart A B" "fresh A" "fresh B"
  defines "a \<equiv> ni_address (info A)" and "b \<equiv> ni_address (info B)"
  shows "stabilize_at F E (Suc d) a (pair A (heading A B)) = pair A (heading A B)"
    and "stabilize_at F E (Suc d) b (pair A (heading A B)) = halfway A B"
    and "stabilize_at F E (Suc d) a (halfway A B) = two_ring A B"
    and "stabilize_at F E (Suc d) b (halfway A B) = halfway A B"
    and "stabilize_at F E (Suc d) a (two_ring A B) = two_ring A B"
    and "stabilize_at F E (Suc d) b (two_ring A B) = two_ring A B"
proof -
  note defs = met_def listed_def heading_def approaching_def fresh_def lone_def
  have facts: "predecessor A = None" "predecessor B = None" "successor A = info A" "successor B = info B"
    "data A = Map.empty" "data B = Map.empty" using assms(3,4) by (simp_all add: fresh_def lone_def)
  have apart: "known_apart X Y"
    if "info X = info A" "info Y = info B" "poisoned X = poisoned A" "poisoned Y = poisoned B" for X Y
    using that assms(2) by (simp add: known_apart_def)
  have at: "stabilize_at F E (Suc d) (ni_address (info X)) (pair X Y) = pair (listed Y X) (met X Y)"
    if "known_apart X Y" "approaching X Y" "data Y = Map.empty" for X Y
    using stabilize_at_pair [OF assms(1) that] .
  show "stabilize_at F E (Suc d) a (pair A (heading A B)) = pair A (heading A B)"
    unfolding stabilize_at_def a_def
    by (rule run_at_pair [where r = "()"])
       (use assms(2,3) in \<open>simp_all add: stabilize_lone known_apart_def heading_def\<close>)
  have 1: "known_apart A (heading A B)" by (rule apart) (simp_all add: heading_def)
  show "stabilize_at F E (Suc d) b (pair A (heading A B)) = halfway A B"
  proof -
    have "stabilize_at F E (Suc d) (ni_address (info (heading A B))) (pair (heading A B) A) =
        pair (listed A (heading A B)) (met (heading A B) A)"
      by (rule at [OF known_apart_sym [OF 1]]) (simp_all add: defs facts)
    also have "\<dots> = halfway A B" unfolding halfway_def
      by (subst pair_sym) (rule known_apart_sym, rule apart, simp_all add: defs)
    finally show ?thesis by (simp add: b_def pair_sym [OF 1] info_heading)
  qed
  let ?A1 = "met B A" and ?B1 = "listed A (heading A B)"
  have 2: "known_apart ?A1 ?B1" by (rule apart) (simp_all add: defs)
  show "stabilize_at F E (Suc d) a (halfway A B) = two_ring A B"
    using at [OF 2] by (simp add: halfway_def two_ring_def defs facts a_def)
  show "stabilize_at F E (Suc d) b (halfway A B) = halfway A B"
    using at [OF known_apart_sym [OF 2]] known_apart_sym [OF 2]
    by (simp add: halfway_def pair_sym [OF 2]) (simp add: defs facts b_def)
  let ?A2 = "listed B ?A1" and ?B2 = "met A ?B1"
  have 3: "known_apart ?A2 ?B2" by (rule apart) (simp_all add: defs)
  have same: "listed ?B2 ?A2 = ?A2" "met ?A2 ?B2 = ?B2" "listed ?A2 ?B2 = ?B2" "met ?B2 ?A2 = ?A2"
    by (rule listed_id met_id; simp add: defs)+
  show "stabilize_at F E (Suc d) a (two_ring A B) = two_ring A B"
    using at [OF 3] same by (simp add: two_ring_def a_def) (simp add: defs facts)
  show "stabilize_at F E (Suc d) b (two_ring A B) = two_ring A B"
    using at [OF known_apart_sym [OF 3]] same by (simp add: two_ring_def pair_sym [OF 3] b_def) (simp add: defs facts)
qed

lemma stabilize_elsewhere: "c \<notin> dom C \<Longrightarrow> stabilize_at F E d c C = C"
  by (simp add: stabilize_at_def run_at_def domIff)

lemma dom_pair: "dom (pair X Y) = {ni_address (info X), ni_address (info Y)}"
  by (auto simp: pair_def)

text \<open>A round keeps the stage or goes to the next; the joiner's round leaves the first, the other's the second.\<close>

lemma round_cases:
  assumes "env_ok E" "known_apart A B" "fresh A" "fresh B"
  shows "stabilize_at F E (Suc d) c (pair A (heading A B)) \<in> {pair A (heading A B), halfway A B}"
    and "stabilize_at F E (Suc d) c (halfway A B) \<in> {halfway A B, two_ring A B}"
    and "stabilize_at F E (Suc d) c (two_ring A B) = two_ring A B"
proof -
  consider "c = ni_address (info A)" | "c = ni_address (info B)" | "c \<notin> {ni_address (info A), ni_address (info B)}"
    by blast
  then have "stabilize_at F E (Suc d) c (pair A (heading A B)) \<in> {pair A (heading A B), halfway A B} \<and>
    stabilize_at F E (Suc d) c (halfway A B) \<in> {halfway A B, two_ring A B} \<and>
    stabilize_at F E (Suc d) c (two_ring A B) = two_ring A B"
  proof cases
    case 3
    then have "c \<notin> dom (pair A (heading A B))" "c \<notin> dom (halfway A B)" "c \<notin> dom (two_ring A B)"
      by (simp_all add: halfway_def two_ring_def dom_pair listed_def met_def heading_def)
    then show ?thesis by (simp add: stabilize_elsewhere)
  qed (simp_all add: rounds [OF assms])
  then show "stabilize_at F E (Suc d) c (pair A (heading A B)) \<in> {pair A (heading A B), halfway A B}"
    and "stabilize_at F E (Suc d) c (halfway A B) \<in> {halfway A B, two_ring A B}"
    and "stabilize_at F E (Suc d) c (two_ring A B) = two_ring A B" by blast+
qed

lemma rounds_ring:
  "env_ok E \<Longrightarrow> known_apart A B \<Longrightarrow> fresh A \<Longrightarrow> fresh B \<Longrightarrow>
   fold (stabilize_at F E (Suc d)) cs (two_ring A B) = two_ring A B"
  by (induction cs) (simp_all add: round_cases(3))

lemma rounds_halfway:
  assumes "env_ok E" "known_apart A B" "fresh A" "fresh B"
  shows "fold (stabilize_at F E (Suc d)) cs (halfway A B) \<in> {halfway A B, two_ring A B}"
proof (induction cs)
  case (Cons c cs)
  from round_cases(2) [OF assms, of F d c] Cons rounds_ring [OF assms] show ?case by auto
qed simp

lemma rounds_start:
  assumes "env_ok E" "known_apart A B" "fresh A" "fresh B"
  shows "fold (stabilize_at F E (Suc d)) cs (pair A (heading A B)) \<in> {pair A (heading A B), halfway A B, two_ring A B}"
proof (induction cs)
  case (Cons c cs)
  from round_cases(1) [OF assms, of F d c] Cons rounds_halfway [OF assms, of F d cs] show ?case by auto
qed simp

lemma rounds_complete:
  assumes "env_ok E" "known_apart A B" "fresh A" "fresh B"
  shows "fold (stabilize_at F E (Suc d)) (xs @ ni_address (info B) # ys @ ni_address (info A) # zs) (pair A (heading A B)) =
    two_ring A B"
proof -
  let ?run = "fold (stabilize_at F E (Suc d))"
  have "?run (xs @ [ni_address (info B)]) (pair A (heading A B)) \<in> {halfway A B, two_ring A B}"
    using rounds_start [OF assms, of F d xs] rounds [OF assms, of F d] by auto
  then have "?run (xs @ [ni_address (info B)] @ ys) (pair A (heading A B)) \<in> {halfway A B, two_ring A B}"
    using rounds_halfway [OF assms, of F d ys] rounds_ring [OF assms, of F d ys] by auto
  then show ?thesis using rounds [OF assms, of F d] rounds_ring [OF assms, of F d zs] by auto
qed

section \<open>Property: the ring forms\<close>

text \<open>What a ring of two is: each node has the other on both sides, and in all places of its successor list.\<close>

definition ring_of_two :: "node \<Rightarrow> node \<Rightarrow> bool" where
  "ring_of_two A B \<longleftrightarrow>
     successor A = info B \<and> predecessor A = Some (info B) \<and> successor_list A = replicate 3 (info B) \<and>
     successor B = info A \<and> predecessor B = Some (info A) \<and> successor_list B = replicate 3 (info A)"

text \<open>
  C3. A second node joins a node that is alone, both without data. Under every fair schedule of their \<open>stabilize\<close>
  rounds, in which each node has its turn again and again in any order, the two form a ring after finitely many
  rounds and stay one for ever: each is successor and predecessor of the other and fills its successor list.
\<close>

theorem two_nodes_form_ring:
  assumes "env_ok E" "known_apart A B" "fresh A" "fresh B"
    and fair: "\<forall>i. \<exists>j\<ge>i. turn j = ni_address (info A)" "\<forall>i. \<exists>j\<ge>i. turn j = ni_address (info B)"
  shows "\<exists>k A' B'. info A' = info A \<and> info B' = info B \<and> ring_of_two A' B' \<and>
    (\<forall>j\<ge>k. fold (stabilize_at F E (Suc d)) (map turn [0..<j])
        (join_at F E (Suc d) (ni_address (info A)) (ni_address (info B)) (pair A B)) = pair A' B')"
proof -
  let ?joined = "join_at F E (Suc d) (ni_address (info A)) (ni_address (info B)) (pair A B)"
  have j: "?joined = pair A (heading A B)" by (rule joined_pair [OF assms(1-3)])
  obtain p where p: "turn p = ni_address (info B)" using fair(2) by blast
  obtain q where q: "q \<ge> Suc p" "turn q = ni_address (info A)" using fair(1) by blast
  have "fold (stabilize_at F E (Suc d)) (map turn [0..<i]) ?joined = two_ring A B" if "i \<ge> Suc q" for i
  proof -
    have "[0..<i] = [0..<p] @ [p..<q] @ [q..<i]"
      using that q(1) upt_add_eq_append [of 0 p "i - p"] upt_add_eq_append [of p q "i - q"] by simp
    also have "\<dots> = [0..<p] @ p # [Suc p..<q] @ q # [Suc q..<i]" using that q(1) by (simp add: upt_conv_Cons)
    finally have "[0..<i] = [0..<p] @ p # [Suc p..<q] @ q # [Suc q..<i]" .
    then show ?thesis by (simp add: j p q(2) rounds_complete [OF assms(1-4)] del: fold_append)
  qed
  moreover have "ring_of_two (listed B (met B A)) (met A (listed A (heading A B)))"
    by (simp add: ring_of_two_def listed_def met_def heading_def)
  ultimately show ?thesis
    unfolding two_ring_def
    by (intro exI [of _ "Suc q"] exI [of _ "listed B (met B A)"] exI [of _ "met A (listed A (heading A B))"])
       (simp add: listed_def met_def heading_def)
qed

text \<open>Two new nodes with different digests, taking turns.\<close>

definition two_env :: env where
  "two_env = example_env\<lparr>sha1 := (\<lambda>bs. id_of_nat (length bs))\<rparr>"

definition node_n :: node where "node_n = new_node two_env default_metrics ''n'' ''n''"
definition node_mm :: node where "node_mm = new_node two_env default_metrics ''mm'' ''mm''"

lemma two_env_ok: "env_ok two_env"
  using example_env_ok by (simp add: env_ok_def bignum_ok_def two_env_def)

lemma new_nodes_info:
  "info node_n = \<lparr>ni_id = id_of_nat 1, ni_address = ''n'', ni_api_address = ''n''\<rparr>"
  "info node_mm = \<lparr>ni_id = id_of_nat 2, ni_address = ''mm'', ni_api_address = ''mm''\<rparr>"
proof -
  have "length (js_to_utf8 ''n'') = 1" "length (js_to_utf8 ''mm'') = 2" by code_simp+
  then show "info node_n = \<lparr>ni_id = id_of_nat 1, ni_address = ''n'', ni_api_address = ''n''\<rparr>"
    "info node_mm = \<lparr>ni_id = id_of_nat 2, ni_address = ''mm'', ni_api_address = ''mm''\<rparr>"
    by (simp_all add: node_n_def node_mm_def new_node_def generate_node_id_def two_env_def Let_def)
qed

lemma new_nodes: "known_apart node_n node_mm" "fresh node_n" "fresh node_mm"
proof -
  have "\<not> poisoned node_n m" "\<not> poisoned node_mm m" for m
    by (simp_all add: node_n_def node_mm_def new_node_def Let_def)
  then show "known_apart node_n node_mm" by (simp add: known_apart_def new_nodes_info id_of_nat_eq_iff)
  have "fresh (new_node E default_metrics a api)" for E a api
    using new_node_lone [of E default_metrics a api] by (simp add: fresh_def) (simp add: new_node_def Let_def)
  then show "fresh node_n" "fresh node_mm" by (simp_all add: node_n_def node_mm_def)
qed

theorem two_nodes_form_ring_witness:
  "\<exists>k A B. ring_of_two A B \<and> info A = info node_n \<and>
     fold (stabilize_at exact_ops two_env 1) (map (\<lambda>j. if even j then ''n'' else ''mm'') [0..<k])
       (join_at exact_ops two_env 1 ''n'' ''mm'' (pair node_n node_mm)) = pair A B"
proof -
  let ?turn = "\<lambda>j :: nat. if even j then ''n'' else ''mm''"
  have "\<exists>j\<ge>i. even j" "\<exists>j\<ge>i. odd j" for i :: nat
    by (rule exI [of _ "2 * i"], simp) (rule exI [of _ "2 * i + 1"], simp)
  then have "\<forall>i. \<exists>j\<ge>i. ?turn j = ni_address (info node_n)" "\<forall>i. \<exists>j\<ge>i. ?turn j = ni_address (info node_mm)"
    by (auto simp: new_nodes_info)
  from two_nodes_form_ring [OF two_env_ok new_nodes this, of exact_ops 0]
  obtain k A B where "info A = info node_n" "ring_of_two A B"
    "\<forall>j\<ge>k. fold (stabilize_at exact_ops two_env 1) (map ?turn [0..<j])
      (join_at exact_ops two_env 1 ''n'' ''mm'' (pair node_n node_mm)) = pair A B"
    by (auto simp: new_nodes_info)
  then show ?thesis by blast
qed

section \<open>Messages across the ring\<close>

text \<open>Two nodes in a ring, whose fingers point to either of them.\<close>

definition linked :: "node \<Rightarrow> node \<Rightarrow> bool" where
  "linked X Y \<longleftrightarrow> successor X = info Y \<and> successor_list X = replicate 3 (info Y) \<and>
     set (finger_table X) \<subseteq> {info X, info Y}"

definition joint :: "node \<Rightarrow> node \<Rightarrow> bool" where
  "joint X Y \<longleftrightarrow> known_apart X Y \<and> linked X Y \<and> linked Y X"

lemma joint_sym: "joint X Y \<Longrightarrow> joint Y X"
  by (simp add: joint_def known_apart_sym)

lemma joint_extend: "joint X Y \<Longrightarrow> joint (extend_entry k vs X) Y" "joint X Y \<Longrightarrow> joint X (extend_entry k vs Y)"
  by (simp_all add: joint_def known_apart_def linked_def extend_entry_def)

lemma jointD:
  assumes "joint X Y"
  shows "ni_id (info X) \<noteq> ni_id (info Y)" "ni_id (info Y) \<noteq> ni_id (info X)" "ni_address (info X) \<noteq> ni_address (info Y)"
    "\<not> poisoned X m" "\<not> poisoned Y m" "successor X = info Y" "successor Y = info X"
  using assms by (auto simp: joint_def known_apart_def linked_def)

lemma closest_linked: "linked X Y \<Longrightarrow> closest_preceding_node E key X \<in> {info X, info Y}"
  by (auto simp: closest_preceding_node_def linked_def safe_lock_def dest!: find_Some_D in_set_takeD split: option.split)

text \<open>The calls of a lookup are answered with one of the two, and change nothing.\<close>

lemma joint_calls:
  assumes "joint X Y"
  shows "cluster_net F E (Suc d) (ni_address (info Y)) GetSuccessor X (only Y) =
      (Inr (found_node FoundSuccessor (info X)), X, only Y)"
    and "\<exists>p\<in>{info X, info Y}. cluster_net F E (Suc d) (ni_address (info Y)) (ClosestPrecedingNode key) X (only Y) =
      (Inr (found_node FoundClosestPrecedingNode p), X, only Y)"
proof -
  note j = jointD [OF assms]
  show "cluster_net F E (Suc d) (ni_address (info Y)) GetSuccessor X (only Y) =
      (Inr (found_node FoundSuccessor (info X)), X, only Y)"
    by (rule call_other [OF j(3)]) (simp_all add: handle_message_def safe_lock_def j)
  have "cluster_net F E (Suc d) (ni_address (info Y)) (ClosestPrecedingNode key) X (only Y) =
      (Inr (found_node FoundClosestPrecedingNode (closest_preceding_node E key Y)), X, only Y)"
    by (rule call_other [OF j(3)]) (simp_all add: handle_message_def)
  moreover have "closest_preceding_node E key Y \<in> {info X, info Y}"
    using closest_linked [of Y X E key] assms by (auto simp: joint_def)
  ultimately show "\<exists>p\<in>{info X, info Y}. cluster_net F E (Suc d) (ni_address (info Y)) (ClosestPrecedingNode key) X (only Y) =
      (Inr (found_node FoundClosestPrecedingNode p), X, only Y)" by blast
qed

lemma found_found [simp]:
  "found_closest (Inr (found_node FoundClosestPrecedingNode p)) = Some p"
  "found_successor (Inr (found_node FoundSuccessor p)) = Some p"
  by (simp_all add: found_node_def)

lemma joint_hops:
  assumes "joint X Y" "p \<in> {info X, info Y}"
  shows "\<exists>q\<in>{info X, info Y}. next_hop E (cluster_net F E (Suc d)) key p X (only Y) = (Some q, X, only Y)"
    and "\<exists>s. successor_of (cluster_net F E (Suc d)) p X (only Y) = (Some s, X, only Y)"
proof -
  note j = jointD [OF assms(1)]
  obtain q where q: "q \<in> {info X, info Y}"
    "cluster_net F E (Suc d) (ni_address (info Y)) (ClosestPrecedingNode key) X (only Y) =
      (Inr (found_node FoundClosestPrecedingNode q), X, only Y)" using joint_calls(2) [OF assms(1)] by blast
  have "closest_preceding_node E key X \<in> {info X, info Y}"
    using closest_linked assms(1) unfolding joint_def by blast
  then show "\<exists>q\<in>{info X, info Y}. next_hop E (cluster_net F E (Suc d)) key p X (only Y) = (Some q, X, only Y)"
    using assms(2) q j by (auto simp: next_hop_def simp del: cluster_net.simps)
  show "\<exists>s. successor_of (cluster_net F E (Suc d)) p X (only Y) = (Some s, X, only Y)"
    using assms(2) joint_calls(1) [OF assms(1)] j
    by (auto simp: successor_of_def safe_lock_def simp del: cluster_net.simps)
qed

lemma joint_loop:
  assumes "joint X Y"
  shows "p \<in> {info X, info Y} \<Longrightarrow> \<exists>r\<in>{info X, info Y}.
    find_predecessor_loop E (cluster_net F E (Suc d)) key k p s X (only Y) = (r, X, only Y)"
proof (induction k arbitrary: p s)
  case 0
  then show ?case by (subst find_predecessor_loop.simps) auto
next
  case (Suc k)
  obtain q where q: "q \<in> {info X, info Y}"
    "next_hop E (cluster_net F E (Suc d)) key p X (only Y) = (Some q, X, only Y)"
    using joint_hops(1) [OF assms Suc.prems] by blast
  obtain t where t: "successor_of (cluster_net F E (Suc d)) q X (only Y) = (Some t, X, only Y)"
    using joint_hops(2) [OF assms q(1)] by blast
  show ?case
  proof (cases "is_between E key (ni_id p) (ni_id s) \<or> ni_id q = ni_id p")
    case True
    then show ?thesis using Suc.prems q(2)
      by (subst find_predecessor_loop.simps) (auto simp del: cluster_net.simps)
  next
    case False
    then show ?thesis using Suc.IH [OF q(1), of t] q(2) t
      by (subst find_predecessor_loop.simps) (simp del: cluster_net.simps)
  qed
qed

lemma joint_find_successor:
  assumes "joint X Y"
  shows "\<exists>r\<in>{info X, info Y}. find_successor E (cluster_net F E (Suc d)) key X (only Y) = (r, X, only Y)"
proof -
  note j = jointD [OF assms]
  obtain p where p: "p \<in> {info X, info Y}" "find_predecessor E (cluster_net F E (Suc d)) key X (only Y) = (p, X, only Y)"
    using joint_loop [OF assms] j(4) by (fastforce simp: find_predecessor_def safe_lock_def)
  show ?thesis
    using p j joint_calls(1) [OF assms]
    by (auto simp: find_successor_def own_successor_def safe_lock_def simp del: cluster_net.simps)
qed

lemma joint_find_virtual:
  assumes "joint X Y"
  shows "\<exists>r\<in>{info X, info Y}.
    find_successor_with_virtual_nodes E (cluster_net F E (Suc d)) key X (only Y) = (r, X, only Y)"
  using joint_find_successor [OF assms, of E F d key]
  unfolding find_successor_with_virtual_nodes_def by (simp only: split: if_split) auto

lemma set_dedup_by_key: "set (dedup_by_key f xs) \<subseteq> set xs"
  by (induction f xs rule: dedup_by_key.induct) auto

lemma joint_candidates:
  assumes "joint X Y" "p \<in> {info X, info Y}"
  shows "replica_candidates p X = (if p = info X then [info Y] else [])"
proof -
  note j = jointD [OF assms(1)]
  let ?xs = "successor_list X @ every_nth 3 (finger_table X)"
  have lists: "locked_list M_successor_list successor_list X = successor_list X"
    "locked_list M_finger_table finger_table X = finger_table X"
    by (simp_all add: locked_list_def safe_lock_def j)
  have xs: "set ?xs \<subseteq> {info X, info Y}" "info Y \<in> set ?xs"
    using assms(1) set_every_nth [of 3 "finger_table X"] unfolding joint_def linked_def by auto
  then have sub: "set (replica_candidates p X) \<subseteq> {info X, info Y}"
    using set_dedup_by_key [of ni_id "sort_key ni_id ?xs"] by (fastforce simp: replica_candidates_def Let_def lists)
  have ids: "ni_id ` set (replica_candidates p X) = (if p = info X then {ni_id (info Y)} else {})"
  proof -
    have diff: "S - {a, q} = (if q = a then {b} else {})" if "S \<subseteq> {a, b}" "b \<in> S" "a \<noteq> b" "q \<in> {a, b}" for S and a b q :: node_id
      using that by auto
    have "ni_id ` set ?xs \<subseteq> {ni_id (info X), ni_id (info Y)}" "ni_id (info Y) \<in> ni_id ` set ?xs"
      using xs by blast+
    moreover have "ni_id p \<in> {ni_id (info X), ni_id (info Y)}" "(ni_id p = ni_id (info X)) = (p = info X)"
      using assms(2) j by auto
    ultimately show ?thesis unfolding candidates_ids lists using diff j(1) by simp
  qed
  have set: "set (replica_candidates p X) = (if p = info X then {info Y} else {})"
  proof (cases "p = info X")
    case True
    with ids have i: "ni_id ` set (replica_candidates p X) = {ni_id (info Y)}" by simp
    then have "info X \<notin> set (replica_candidates p X)" using j(1) by (metis image_eqI singletonD)
    moreover have "set (replica_candidates p X) \<noteq> {}" using i by auto
    ultimately have "set (replica_candidates p X) = {info Y}" using sub by (metis subset_insert subset_singletonD)
    then show ?thesis using True by simp
  qed (use ids in simp)
  have "length (replica_candidates p X) = card (set (replica_candidates p X))"
    using candidates_distinct [of p X] by (simp add: distinct_card distinct_map)
  then have "length (replica_candidates p X) = (if p = info X then 1 else 0)" by (simp add: set)
  then show ?thesis using set
    by (cases "replica_candidates p X") (simp_all split: if_splits)
qed

lemma joint_store_value:
  assumes "joint X Y"
  shows "store_value E (cluster_net F E (Suc d)) key v X (only Y) = (extend_entry key [v] X, only (extend_entry key [v] Y))"
proof -
  let ?X = "extend_entry key [v] X" and ?Y = "extend_entry key [v] Y" and ?net = "cluster_net F E (Suc d)"
  have joint: "joint ?X Y" using assms by (rule joint_extend)
  note j = jointD [OF joint]
  have "info (extend_entry k vs n) = info n" for k vs and n :: node by (simp add: extend_entry_def)
  note i = this
  have call: "?net (ni_address (info Y)) (ReplicateData key [v] c) ?X (only Y) = (Inr (ReplicationAck key True), ?X, only ?Y)" for c
    by (rule call_other [OF j(3)]) (simp_all add: handle_message_def handle_replicate_data_def safe_update_def j i)
  obtain p where p: "p \<in> {info ?X, info Y}" "find_successor_with_virtual_nodes E ?net key ?X (only Y) = (p, ?X, only Y)"
    using joint_find_virtual [OF joint] by blast
  have "get_replica_nodes E ?net key ?X (only Y) = ((if p = info ?X then [info ?X, info Y] else [info Y]), ?X, only Y)"
    using p joint_candidates [OF joint p(1)] by (auto simp: get_replica_nodes_def REPLICATION_FACTOR_def)
  then have "replicate_data E ?net key [v] ?X (only Y) = (?X, only ?Y)"
    using call j by (simp add: replicate_data_def del: cluster_net.simps)
  moreover have "\<not> poisoned X M_data" using jointD(4) [OF assms] .
  ultimately show ?thesis by (simp add: store_value_def safe_update_def)
qed

lemma joint_message:
  assumes "joint X Y" "codecs_ok K" "parse_message K bs = Some p"
    and key: "key = generate_key E (mp_to p)"
  shows "\<exists>ser. message_handler K E (cluster_net F E (Suc (Suc d))) now (Some bs) X (only Y) =
      (format_response 200 (Reply_status ''message received''), extend_entry key [ser] X, only (extend_entry key [ser] Y)) \<and>
    deserialize_stored K ser = Some (stored_of now p)"
proof -
  note j = jointD [OF assms(1)]
  let ?net = "cluster_net F E (Suc (Suc d))"
  obtain ser where ser: "serialize_stored K (stored_of now p) = Inr ser" "deserialize_stored K ser = Some (stored_of now p)"
    using assms(2) unfolding codecs_ok_def by blast
  have call: "?net (ni_address (info Y)) (Store key ser) X (only Y) =
      (Inr Pong, extend_entry key [ser] X, only (extend_entry key [ser] Y))"
    by (rule call_other [OF j(3)])
       (simp_all add: handle_message_def joint_store_value [OF joint_sym [OF assms(1)]] extend_entry_def del: cluster_net.simps)
  obtain r where "r \<in> {info X, info Y}" "find_successor E ?net key X (only Y) = (r, X, only Y)"
    using joint_find_successor [OF assms(1)] by blast
  then have "message_handler K E ?net now (Some bs) X (only Y) =
      (format_response 200 (Reply_status ''message received''), extend_entry key [ser] X, only (extend_entry key [ser] Y))"
    using ser(1) assms(3) call joint_store_value [OF assms(1)] j
    by (auto simp: message_handler_def key Let_def simp del: cluster_net.simps)
  with ser(2) show ?thesis by blast
qed

lemma joint_fetch:
  assumes "joint X Y" "data X key = Some vs" "data Y key = Some vs'"
  shows "\<exists>d'\<in>{vs, vs'}. fetch_messages E (cluster_net F E (Suc d)) key X (only Y) = (Some d', X, only Y)"
proof -
  note j = jointD [OF assms(1)]
  let ?net = "cluster_net F E (Suc d)"
  have "retrieve_value E net key Y w = (Some vs', Y, w)" for net :: "(network_metrics, cluster) dht" and w
    using assms(3) j by (simp add: retrieve_value_def safe_lock_def)
  then have call: "?net (ni_address (info Y)) (Retrieve key) X (only Y) = (Inr (Retrieved key (Some vs')), X, only Y)"
    by (intro call_other [OF j(3)]) (simp_all add: handle_message_def)
  obtain r where "r \<in> {info X, info Y}" "find_successor E ?net key X (only Y) = (r, X, only Y)"
    using joint_find_successor [OF assms(1)] by blast
  then show ?thesis
    using call j assms(2) by (auto simp: fetch_messages_def retrieve_value_def safe_lock_def simp del: cluster_net.simps)
qed

lemma decode_last:
  assumes "deserialize_stored K ser = Some (stored_of now p)"
  shows "received_at now p \<in> set (decode_messages K (Some (old @ [ser])))"
proof -
  have "received_at now p = poll_message_of (stored_of now p)"
    by (simp add: received_at_def poll_message_of_def stored_of_def)
  then show ?thesis using assms by (simp add: decode_messages_def map_filter_def)
qed

section \<open>Property: messages cross the ring\<close>

text \<open>
  C2. A message posted at either node of a ring of two is accepted, and every authenticated poll for its receiver
  afterwards, at the one node or the other, returns it; whatever the fingers and virtual nodes of the two make
  of the lookups, which may send the message and the poll to different nodes, for it was stored on both.
\<close>

theorem two_nodes_share_messages:
  assumes "joint X Y" "codecs_ok K" "parse_message K bs = Some p"
    and "handle_request P K E (cluster_net F E (Suc (Suc d))) (Post_message now (Some bs)) st X (only Y) = (resp, st', X', C')"
  shows "hr_status resp = 200 \<and> (\<exists>Y'. C' = only Y' \<and>
    (\<forall>(U, V)\<in>{(X', Y'), (Y', X')}. \<forall>bs' q m m'.
       parse_poll K bs' = Some q \<and> pr_public_key q = mp_to p \<and> check_challenge P q m = (True, m') \<longrightarrow>
       (\<exists>ms. fst (handle_request P K E (cluster_net F E (Suc d)) (Post_poll (Some bs')) (Some m) U (only V)) =
           format_response 200 (Reply_messages ms) \<and> received_at now p \<in> set ms)))"
proof -
  let ?key = "generate_key E (mp_to p)"
  obtain ser where m: "message_handler K E (cluster_net F E (Suc (Suc d))) now (Some bs) X (only Y) =
      (format_response 200 (Reply_status ''message received''), extend_entry ?key [ser] X, only (extend_entry ?key [ser] Y))"
    and ser: "deserialize_stored K ser = Some (stored_of now p)"
    using joint_message [OF assms(1-3) refl] by blast
  let ?X = "extend_entry ?key [ser] X" and ?Y = "extend_entry ?key [ser] Y"
  have r: "resp = format_response 200 (Reply_status ''message received'')" "X' = ?X" "C' = only ?Y"
    using assms(4) m by (simp_all add: handle_request_def del: cluster_net.simps)
  have j: "joint ?X ?Y" using assms(1) by (intro joint_extend)
  have d: "\<exists>old. data (extend_entry ?key [ser] n) ?key = Some (old @ [ser])" for n :: node
    by (simp add: extend_entry_def)
  have poll: "\<exists>ms. fst (handle_request P K E (cluster_net F E (Suc d)) (Post_poll (Some bs')) (Some m) U (only V)) =
      format_response 200 (Reply_messages ms) \<and> received_at now p \<in> set ms"
    if UV: "joint U V" "\<exists>old. data U ?key = Some (old @ [ser])" "\<exists>old. data V ?key = Some (old @ [ser])"
      and q: "parse_poll K bs' = Some q" "pr_public_key q = mp_to p" "check_challenge P q m = (True, m')" for U V bs' q m m'
  proof -
    obtain vs where vs: "fetch_messages E (cluster_net F E (Suc d)) ?key U (only V) = (Some vs, U, only V)"
      "\<exists>old. vs = old @ [ser]" using joint_fetch [OF UV(1)] UV(2,3) by blast
    then show ?thesis
      using poll_handler_valid [OF q(1,3) vs(1) [folded q(2)]] decode_last [OF ser]
      by (auto simp: handle_request_def simp del: cluster_net.simps)
  qed
  show ?thesis
    using poll [OF j d d] poll [OF joint_sym [OF j] d d] r
    by (intro conjI exI [of _ ?Y]) (auto simp: format_response_def)
qed

text \<open>The two new nodes after joining and a round each.\<close>

lemma new_ring_joint: "joint (listed node_mm (met node_mm node_n)) (met node_n (listed node_n (heading node_n node_mm)))"
proof -
  have "finger_table node_n = replicate M_bits (info node_n)" "finger_table node_mm = replicate M_bits (info node_mm)"
    by (simp_all add: node_n_def node_mm_def new_node_def Let_def)
  then show ?thesis
    using new_nodes(1)
    by (simp add: joint_def known_apart_def linked_def listed_def met_def heading_def set_replicate_conv_if)
qed

definition posted_body :: bytes where
  "posted_body = enc_fields [bytes_of_string (lower_hex [1]), [2], [3], [4]]"

definition poll_body :: bytes where
  "poll_body = enc_fields [bytes_of_string (lower_hex [1]), [9], ecdsa_sign toy_crypto [1] [9]]"

text \<open>The message is posted at one node, and polled for at the other.\<close>

theorem two_nodes_share_messages_witness:
  "let X = listed node_mm (met node_mm node_n); Y = met node_n (listed node_n (heading node_n node_mm));
       (resp, st', X', C') = handle_request toy_crypto toy_codecs two_env (cluster_net exact_ops two_env 2)
         (Post_message 7 (Some posted_body)) (Some Map.empty) X (only Y)
   in hr_status resp = 200 \<and>
      (\<exists>Y' ms x. C' = only Y' \<and> pl_ciphertext x = [3] \<and> x \<in> set ms \<and>
         fst (handle_request toy_crypto toy_codecs two_env (cluster_net exact_ops two_env 1)
           (Post_poll (Some poll_body)) example_challenges Y' (only X')) = format_response 200 (Reply_messages ms))"
proof -
  let ?X = "listed node_mm (met node_mm node_n)" and ?Y = "met node_n (listed node_n (heading node_n node_mm))"
  obtain resp st' X' C' where h: "handle_request toy_crypto toy_codecs two_env (cluster_net exact_ops two_env (Suc (Suc 0)))
      (Post_message 7 (Some posted_body)) (Some Map.empty) ?X (only ?Y) = (resp, st', X', C')"
    using prod_cases4 by blast
  let ?p = "\<lparr>mp_to = lower_hex [1], mp_from = string_of_bytes [2], mp_ciphertext = [3], mp_nonce = [4]\<rparr>"
  have p: "parse_message toy_codecs posted_body = Some ?p" by (simp add: toy_codecs_def posted_body_def)
  have q: "parse_poll toy_codecs poll_body = Some example_poll"
    by (simp add: toy_codecs_def poll_body_def example_poll_def)
  have c: "check_challenge toy_crypto example_poll (the example_challenges) =
      (True, (the example_challenges)(pr_public_key example_poll := None))"
    by (simp add: check_challenge_True example_challenges_def example_poll_verifies) (simp add: example_poll_def)
  have k: "pr_public_key example_poll = mp_to ?p" by (simp add: example_poll_def)
  have st: "Some (the example_challenges) = example_challenges" by (simp add: example_challenges_def)
  from two_nodes_share_messages [OF new_ring_joint toy_codecs_ok p h] obtain Y' where
    r: "hr_status resp = 200" "C' = only Y'" and
    polls: "\<forall>(U, V)\<in>{(X', Y'), (Y', X')}. \<forall>bs' q m m'.
       parse_poll toy_codecs bs' = Some q \<and> pr_public_key q = mp_to ?p \<and> check_challenge toy_crypto q m = (True, m') \<longrightarrow>
       (\<exists>ms. fst (handle_request toy_crypto toy_codecs two_env (cluster_net exact_ops two_env (Suc 0))
            (Post_poll (Some bs')) (Some m) U (only V)) =
          format_response 200 (Reply_messages ms) \<and> received_at 7 ?p \<in> set ms)" by blast
  from polls q c k obtain ms where "fst (handle_request toy_crypto toy_codecs two_env (cluster_net exact_ops two_env (Suc 0))
      (Post_poll (Some poll_body)) (Some (the example_challenges)) Y' (only X')) = format_response 200 (Reply_messages ms)"
    "received_at 7 ?p \<in> set ms" by blast
  moreover have "pl_ciphertext (received_at 7 ?p) = [3]" by (simp add: received_at_def)
  ultimately have "\<exists>ms x. pl_ciphertext x = [3] \<and> x \<in> set ms \<and>
      fst (handle_request toy_crypto toy_codecs two_env (cluster_net exact_ops two_env (Suc 0))
        (Post_poll (Some poll_body)) example_challenges Y' (only X')) = format_response 200 (Reply_messages ms)"
    unfolding st by blast
  then have e: "\<exists>Z ms x. C' = only Z \<and> pl_ciphertext x = [3] \<and> x \<in> set ms \<and>
      fst (handle_request toy_crypto toy_codecs two_env (cluster_net exact_ops two_env (Suc 0))
        (Post_poll (Some poll_body)) example_challenges Z (only X')) = format_response 200 (Reply_messages ms)"
    using r(2) by blast
  show ?thesis
    unfolding Let_def numeral_2_eq_2 One_nat_def h prod.case by (intro conjI r(1) e)
qed

end
