(* ===== verification/Harness.thy ===== *)
theory Harness
  imports Two_Nodes Startup
begin

text \<open>
  The simulated network of the integration tests (\<open>tests/src/integration\<close>): how its nodes answer messages, compared
  with the real ones, when it takes a network for stabilized, and the invariants it checks. The texts of the
  violations are left out, their names and the nodes they list are kept.
\<close>

section \<open>The answers of a simulated node\<close>

text \<open>\<open>process_dht_message\<close> of \<open>test_harness.rs\<close>, over the public interface of the library.\<close>

fun store_each :: "env \<Rightarrow> ('m, 'w) dht \<Rightarrow> node_id \<Rightarrow> bytes list \<Rightarrow> ('m, 'w, unit) library_call" where
  "store_each E net key [] n w = (Inr (), n, w)"
| "store_each E net key (v # vs) n w =
     (case store_data E net key v n w of
        (Inl e, n1, w1) \<Rightarrow> (Inl e, n1, w1)
      | (Inr _, n1, w1) \<Rightarrow> store_each E net key vs n1 w1)"

definition process_dht_message ::
  "env \<Rightarrow> (network_metrics, 'w) dht \<Rightarrow> network_metrics dht_message \<Rightarrow> node \<Rightarrow> 'w \<Rightarrow>
   network_metrics dht_message option \<times> node \<times> 'w"
where
  "process_dht_message E net m n w =
     (case m of
        Ping \<Rightarrow> (Some Pong, n, w)
      | FindSuccessor i \<Rightarrow>
          (let (s, n1, w1) = find_successor E net i n w in (Some (found_node FoundSuccessor s), n1, w1))
      | FindPredecessor i \<Rightarrow>
          (let (p, n1, w1) = find_predecessor E net i n w in (Some (found_node FoundPredecessor p), n1, w1))
      | GetSuccessor \<Rightarrow>
          (case get_successor n of
             Some (i, a, api) \<Rightarrow> (Some (FoundSuccessor i a api), n, w)
           | None \<Rightarrow> (Some (Error_message ''No successor found''), n, w))
      | GetPredecessor \<Rightarrow>
          (let p = get_predecessor n
           in (Some (Predecessor (map_option fst p) (map_option (fst \<circ> snd) p) (map_option (snd \<circ> snd) p)), n, w))
      | Notify i a api \<Rightarrow>
          (let (n1, w1) = notify E net \<lparr>ni_id = i, ni_address = a, ni_api_address = api\<rparr> n w in (Some Pong, n1, w1))
      | Store key v \<Rightarrow>
          (case store_data E net key v n w of
             (Inr _, n1, w1) \<Rightarrow> (Some Pong, n1, w1)
           | (Inl e, n1, w1) \<Rightarrow> (Some (Error_message e), n1, w1))
      | Retrieve key \<Rightarrow>
          (case retrieve_data E net key n w of
             (Inr v, n1, w1) \<Rightarrow> (Some (Retrieved key v), n1, w1)
           | (Inl e, n1, w1) \<Rightarrow> (Some (Error_message e), n1, w1))
      | ClosestPrecedingNode _ \<Rightarrow> (Some (Error_message ''ClosestPrecedingNode not implemented in public API''), n, w)
      | GetDataRange _ _ \<Rightarrow> (Some (DataRange []), n, w)
      | ShareMetrics _ \<Rightarrow> (Some (MetricsShared (get_metrics n)), n, w)
      | ReplicateData key vs _ \<Rightarrow>
          (case store_each E net key vs n w of
             (Inr _, n1, w1) \<Rightarrow> (Some (ReplicationAck key True), n1, w1)
           | (Inl _, n1, w1) \<Rightarrow> (Some (ReplicationAck key False), n1, w1))
      | RequestReplicas _ _ \<Rightarrow> (Some (ReplicaData []), n, w)
      | _ \<Rightarrow> (Some (Error_message ''Received response message as request''), n, w))"

section \<open>The harness\<close>

text \<open>
  The nodes by address, in the order in which the hash map yields them. Nodes marked as failed stay in it: only
  their messages are lost.
\<close>

type_synonym harness = "(string \<times> node) list"

definition get_node :: "harness \<Rightarrow> string \<Rightarrow> node option" where
  "get_node h a = map_of h a"

definition get_all_node_addresses :: "harness \<Rightarrow> string list" where
  "get_all_node_addresses h = map fst h"

definition successor_address :: "node \<Rightarrow> string option" where
  "successor_address n = map_option (fst \<circ> snd) (get_successor n)"

definition predecessor_address :: "node \<Rightarrow> string option" where
  "predecessor_address n = map_option (fst \<circ> snd) (get_predecessor n)"

definition check_ring_consistency :: "harness \<Rightarrow> bool" where
  "check_ring_consistency h = list_all (\<lambda>(a, n). get_successor n \<noteq> None) h"

text \<open>The decision of \<open>wait_for_stabilization\<close> after its \<open>rounds\<close>-th round.\<close>

definition taken_for_stabilized :: "nat \<Rightarrow> harness \<Rightarrow> bool" where
  "taken_for_stabilized rounds h =
     (let as = get_all_node_addresses h; all_have_successors = check_ring_consistency h;
          ring_formed = True;
          ring_formed1 =
            (if length as = 2 \<and> all_have_successors then
               (case (Option.bind (get_node h (as ! 0)) successor_address, Option.bind (get_node h (as ! 1)) successor_address) of
                  (Some addr1, Some addr2) \<Rightarrow>
                    (addr1 = as ! 1 \<and> addr2 = as ! 0) \<or> (addr1 = as ! 0 \<and> addr2 = as ! 1)
                | _ \<Rightarrow> False)
             else ring_formed);
          ring_formed2 = (if length as \<ge> 3 then all_have_successors \<and> rounds \<ge> 3 else ring_formed1)
      in all_have_successors \<and> ring_formed2)"

section \<open>The invariants\<close>

record invariant_violation =
  iv_name :: string
  iv_affected_nodes :: "string list"

definition violation :: "string \<Rightarrow> string list \<Rightarrow> invariant_violation" where
  "violation i as = \<lparr>iv_name = i, iv_affected_nodes = as\<rparr>"

text \<open>The loop along the successors; the first argument counts the steps that are left of \<open>max_steps\<close>.\<close>

fun follow_successors :: "nat \<Rightarrow> harness \<Rightarrow> string \<Rightarrow> string set \<Rightarrow> string set \<times> invariant_violation list" where
  "follow_successors 0 h current visited = (visited, [])"
| "follow_successors (Suc k) h current visited =
     (if current \<in> visited then (visited, [])
      else (case get_node h current of
              None \<Rightarrow> (insert current visited, [])
            | Some n \<Rightarrow>
                (case successor_address n of
                   Some a \<Rightarrow> follow_successors k h a (insert current visited)
                 | None \<Rightarrow> (insert current visited, [violation ''Ring Connectivity'' [current]]))))"

definition check_ring_connectivity :: "harness \<Rightarrow> invariant_violation list" where
  "check_ring_connectivity h =
     (let as = get_all_node_addresses h
      in concat (map (\<lambda>start.
           let (visited, vs) = follow_successors (length as * 2) h start {}
           in vs @ (if card visited \<noteq> length as
                    then [violation ''Ring Connectivity'' (filter (\<lambda>a. a \<notin> visited) as)] else [])) as))"

definition check_successor_consistency :: "harness \<Rightarrow> invariant_violation list" where
  "check_successor_consistency h =
     List.map_filter (\<lambda>a.
       Option.bind (get_node h a) (\<lambda>n.
       Option.bind (successor_address n) (\<lambda>s.
       Option.bind (get_node h s) (\<lambda>m.
       Option.bind (predecessor_address m) (\<lambda>p.
         if p \<noteq> a then Some (violation ''Successor Consistency'' [a, s]) else None)))))
       (get_all_node_addresses h)"

definition check_predecessor_consistency :: "harness \<Rightarrow> invariant_violation list" where
  "check_predecessor_consistency h =
     List.map_filter (\<lambda>a.
       Option.bind (get_node h a) (\<lambda>n.
       Option.bind (predecessor_address n) (\<lambda>p.
       Option.bind (get_node h p) (\<lambda>m.
       Option.bind (successor_address m) (\<lambda>s.
         if s \<noteq> a then Some (violation ''Predecessor Consistency'' [a, p]) else None)))))
       (get_all_node_addresses h)"

text \<open>
  The data: \<open>retrieve\<close> is what a retrieval at a node ends with, and \<open>iter\<close> the order in which a hash map of answers is
  iterated.
\<close>

type_synonym retrievals = "string \<Rightarrow> node_id \<Rightarrow> string + bytes list option"

fun nodes_without :: "retrievals \<Rightarrow> node_id \<Rightarrow> bytes \<Rightarrow> string list \<Rightarrow> string list \<Rightarrow> string list option" where
  "nodes_without retrieve key expected [] failed = Some failed"
| "nodes_without retrieve key expected (a # as) failed =
     (case retrieve a key of
        Inr (Some vs) \<Rightarrow> if expected \<in> set vs then None else nodes_without retrieve key expected as failed
      | _ \<Rightarrow> nodes_without retrieve key expected as (failed @ [a]))"

definition check_data_availability :: "retrievals \<Rightarrow> (node_id \<times> bytes) list \<Rightarrow> harness \<Rightarrow> invariant_violation list" where
  "check_data_availability retrieve stored h =
     (if stored = [] \<or> h = [] then []
      else List.map_filter (\<lambda>(key, expected).
             map_option (violation ''Data Availability'')
               (nodes_without retrieve key expected (get_all_node_addresses h) [])) stored)"

definition check_data_consistency ::
  "((string \<times> bytes list) list \<Rightarrow> (string \<times> bytes list) list) \<Rightarrow> retrievals \<Rightarrow> (node_id \<times> bytes) list \<Rightarrow> harness \<Rightarrow>
   invariant_violation list"
where
  "check_data_consistency iter retrieve stored h =
     (if stored = [] \<or> length h < 2 then []
      else List.map_filter (\<lambda>(key, expected).
             let answers = iter (List.map_filter (\<lambda>a. case retrieve a key of Inr (Some vs) \<Rightarrow> Some (a, vs) | _ \<Rightarrow> None)
                   (get_all_node_addresses h));
                 inconsistent = (case answers of [] \<Rightarrow> [] | (_, baseline) # rest \<Rightarrow>
                   map fst (filter (\<lambda>(a, vs). \<not> list_ex (\<lambda>v. v \<in> set baseline) vs) rest));
                 has_expected = list_ex (\<lambda>(a, vs). expected \<in> set vs) answers
             in if length answers > 1 \<and> (inconsistent \<noteq> [] \<or> \<not> has_expected)
                then Some (violation ''Data Consistency'' inconsistent) else None) stored)"

definition check_load_balance :: "harness \<Rightarrow> invariant_violation list" where
  "check_load_balance h =
     (if length h < 2 then []
      else let loads = map (\<lambda>(a, n). (a, local_key_count (get_metrics n))) h;
               expected_per_node = sum_list (map snd loads) div length h;
               tolerance = expected_per_node div 2
           in List.map_filter (\<lambda>(a, l).
                let deviation = (if l > expected_per_node then l - expected_per_node else expected_per_node - l)
                in if deviation > tolerance then Some (violation ''Load Balance'' [a]) else None) loads)"

text \<open>The nodes linked to one; the stack has its top at the head.\<close>

definition neighbours :: "harness \<Rightarrow> string \<Rightarrow> string list" where
  "neighbours h a =
     (case get_node h a of
        None \<Rightarrow> []
      | Some n \<Rightarrow> (case predecessor_address n of None \<Rightarrow> [] | Some p \<Rightarrow> [p]) @
                (case successor_address n of None \<Rightarrow> [] | Some s \<Rightarrow> [s]))"

function visit_nodes :: "harness \<Rightarrow> string list \<Rightarrow> string set \<Rightarrow> string set" where
  "visit_nodes h [] reachable = reachable"
| "visit_nodes h (a # to_visit) reachable =
     (if a \<in> reachable then visit_nodes h to_visit reachable
      else visit_nodes h (filter (\<lambda>b. b \<notin> insert a reachable) (neighbours h a) @ to_visit) (insert a reachable))"
  by pat_completeness auto

definition unvisited :: "harness \<Rightarrow> string set \<Rightarrow> nat" where
  "unvisited h reachable = card (fst ` set h - reachable)"

lemma unvisited_less: "a \<notin> reachable \<Longrightarrow> a \<in> fst ` set h \<Longrightarrow> unvisited h (insert a reachable) < unvisited h reachable"
  unfolding unvisited_def by (intro psubset_card_mono) auto

lemma unvisited_same: "a \<notin> fst ` set h \<Longrightarrow> unvisited h (insert a reachable) = unvisited h reachable"
  unfolding unvisited_def by (simp add: Diff_insert0)

lemma neighbours_unknown: "a \<notin> fst ` set h \<Longrightarrow> neighbours h a = []"
  by (metis (no_types, lifting) get_node_def map_of_eq_None_iff neighbours_def option.simps(4))

termination visit_nodes
proof (relation "measures [\<lambda>(h, to_visit, reachable). unvisited h reachable, \<lambda>(h, to_visit, reachable). length to_visit]")
  fix h :: harness and a :: string and to_visit reachable
  assume "a \<notin> reachable"
  then show "((h, filter (\<lambda>b. b \<notin> insert a reachable) (neighbours h a) @ to_visit, insert a reachable), h, a # to_visit, reachable)
      \<in> measures [\<lambda>(h, to_visit, reachable). unvisited h reachable, \<lambda>(h, to_visit, reachable). length to_visit]"
    using unvisited_less [of a reachable h] unvisited_same [of a h reachable] neighbours_unknown [of a h]
    by (cases "a \<in> fst ` set h") auto
qed simp_all

definition find_reachable_nodes :: "harness \<Rightarrow> string \<Rightarrow> string set" where
  "find_reachable_nodes h start = visit_nodes h [start] {}"

definition check_fault_tolerance :: "harness \<Rightarrow> invariant_violation list" where
  "check_fault_tolerance h =
     (let as = get_all_node_addresses h
      in if length as > 1 then
           (let reachable = find_reachable_nodes h (as ! 0)
            in if card reachable \<noteq> length as
               then [violation ''Fault Tolerance'' (filter (\<lambda>a. a \<notin> reachable) as)] else [])
         else [])"

definition check_all ::
  "((string \<times> bytes list) list \<Rightarrow> (string \<times> bytes list) list) \<Rightarrow> retrievals \<Rightarrow> (node_id \<times> bytes) list \<Rightarrow> harness \<Rightarrow>
   invariant_violation list"
where
  "check_all iter retrieve stored h =
     check_ring_connectivity h @ check_successor_consistency h @ check_predecessor_consistency h @
     check_data_availability retrieve stored h @ check_data_consistency iter retrieve stored h @
     check_load_balance h @ check_fault_tolerance h"

section \<open>Following the successors\<close>

text \<open>A harness in which every node has a successor that the harness knows.\<close>

definition harness_ok :: "harness \<Rightarrow> bool" where
  "harness_ok h \<longleftrightarrow> distinct (map fst h) \<and>
     (\<forall>(a, n)\<in>set h. \<not> poisoned n M_successor \<and> ni_address (successor n) \<in> fst ` set h)"

definition next_address :: "harness \<Rightarrow> string \<Rightarrow> string" where
  "next_address h a = (case get_node h a of None \<Rightarrow> a | Some n \<Rightarrow> ni_address (successor n))"

lemma known_node:
  assumes "harness_ok h" "a \<in> fst ` set h"
  shows "\<exists>n. get_node h a = Some n \<and> successor_address n = Some (next_address h a) \<and> next_address h a \<in> fst ` set h"
proof -
  obtain n where n: "map_of h a = Some n" using assms(2) by (metis map_of_eq_None_iff not_None_eq)
  then have "(a, n) \<in> set h" by (rule map_of_SomeD)
  with assms(1) have "\<not> poisoned n M_successor" "ni_address (successor n) \<in> fst ` set h" by (auto simp: harness_ok_def)
  with n show ?thesis
    by (simp add: get_node_def successor_address_def get_successor_def safe_lock_def next_address_def node_triple_def)
qed

lemma follow_successors_closes:
  assumes "harness_ok h"
  shows "c \<in> fst ` set h \<Longrightarrow> V \<subseteq> fst ` set h \<Longrightarrow> unvisited h V < k \<Longrightarrow> follow_successors k h c V = (W, vs) \<Longrightarrow>
    vs = [] \<and> insert c V \<subseteq> W \<and> W \<subseteq> V \<union> range (\<lambda>i. (next_address h ^^ i) c) \<and> next_address h ` (W - V) \<subseteq> W \<and>
    W \<subseteq> fst ` set h"
proof (induction k arbitrary: c V)
  case (Suc k)
  show ?case
  proof (cases "c \<in> V")
    case False
    let ?d = "next_address h c"
    have "unvisited h (insert c V) < unvisited h V" using False Suc.prems(1) by (rule unvisited_less)
    then have "unvisited h (insert c V) < k" using Suc.prems(3) by simp
    moreover have "follow_successors k h ?d (insert c V) = (W, vs)" "?d \<in> fst ` set h"
      using known_node [OF assms Suc.prems(1)] Suc.prems(4) False by auto
    ultimately have IH: "vs = []" "insert ?d (insert c V) \<subseteq> W" "W \<subseteq> insert c V \<union> range (\<lambda>i. (next_address h ^^ i) ?d)"
      "next_address h ` (W - insert c V) \<subseteq> W" "W \<subseteq> fst ` set h"
      using Suc.IH [of ?d "insert c V"] Suc.prems(1,2) by auto
    have "(next_address h ^^ i) ?d = (next_address h ^^ Suc i) c" for i by (simp only: funpow_Suc_right o_apply)
    then have "range (\<lambda>i. (next_address h ^^ i) ?d) \<subseteq> range (\<lambda>i. (next_address h ^^ i) c)" by blast
    moreover have "c \<in> range (\<lambda>i. (next_address h ^^ i) c)" by (rule range_eqI [of _ _ 0]) simp
    ultimately have "W \<subseteq> V \<union> range (\<lambda>i. (next_address h ^^ i) c)" using IH(3) by blast
    moreover have "next_address h ` (W - V) \<subseteq> W" using IH(2,4) by auto
    ultimately show ?thesis using IH by blast
  qed (use Suc.prems in auto)
qed simp

text \<open>What the loop visits from a node: all that the successors lead to.\<close>

lemma follow_successors_orbit:
  assumes "harness_ok h" "c \<in> fst ` set h"
  shows "follow_successors (length h * 2) h c {} = (range (\<lambda>i. (next_address h ^^ i) c), [])"
    and "range (\<lambda>i. (next_address h ^^ i) c) \<subseteq> fst ` set h"
proof -
  obtain W vs where f: "follow_successors (length h * 2) h c {} = (W, vs)" by (cases "follow_successors (length h * 2) h c {}")
  have "unvisited h {} \<le> length h" by (simp add: unvisited_def) (metis card_image_le card_length finite_set order.trans)
  moreover have "0 < length h" using assms(2) by (cases h) auto
  ultimately have "unvisited h {} < length h * 2" by linarith
  from follow_successors_closes [OF assms _ this f] have w: "vs = []" "c \<in> W" "W \<subseteq> range (\<lambda>i. (next_address h ^^ i) c)"
    "next_address h ` W \<subseteq> W" "W \<subseteq> fst ` set h" by auto
  have "(next_address h ^^ i) c \<in> W" for i by (induction i) (use w(2,4) in auto)
  with w(3) have "W = range (\<lambda>i. (next_address h ^^ i) c)" by blast
  with f w(1,5) show "follow_successors (length h * 2) h c {} = (range (\<lambda>i. (next_address h ^^ i) c), [])"
    and "range (\<lambda>i. (next_address h ^^ i) c) \<subseteq> fst ` set h" by simp_all
qed

text \<open>
  C26. The check of ring connectivity is exact on a network whose nodes have successors among its nodes: it reports
  nothing if and only if from every node the successors lead to every other, that is, if they form a single ring.
\<close>

theorem check_ring_connectivity_exact:
  assumes "harness_ok h"
  shows "check_ring_connectivity h = [] \<longleftrightarrow>
    (\<forall>a\<in>set (get_all_node_addresses h). \<forall>b\<in>set (get_all_node_addresses h). \<exists>i. b = (next_address h ^^ i) a)"
proof -
  let ?A = "fst ` set h" and ?orbit = "\<lambda>a. range (\<lambda>i. (next_address h ^^ i) a)"
  have d: "card ?A = length h" using assms distinct_card [of "map fst h"] by (simp add: harness_ok_def)
  have full: "card (?orbit a) = length h \<longleftrightarrow> (\<forall>b\<in>?A. \<exists>i. b = (next_address h ^^ i) a)" if "a \<in> ?A" for a
  proof -
    have sub: "?orbit a \<subseteq> ?A" by (rule follow_successors_orbit(2) [OF assms that])
    have "card (?orbit a) = card ?A \<longleftrightarrow> ?orbit a = ?A"
      using card_subset_eq [OF _ sub] by auto
    also have "\<dots> \<longleftrightarrow> ?A \<subseteq> ?orbit a" using sub by blast
    also have "\<dots> \<longleftrightarrow> (\<forall>b\<in>?A. \<exists>i. b = (next_address h ^^ i) a)" by (simp only: subset_eq image_iff UNIV_I bex_UNIV)
    finally show ?thesis by (simp add: d)
  qed
  have "check_ring_connectivity h = [] \<longleftrightarrow> (\<forall>a\<in>?A. card (?orbit a) = length h)"
    using follow_successors_orbit(1) [OF assms]
    by (auto simp: check_ring_connectivity_def get_all_node_addresses_def Let_def)
  with full show ?thesis by (simp add: get_all_node_addresses_def)
qed

theorem check_ring_connectivity_exact_witness:
  "check_ring_connectivity [(''n'', heading node_mm node_n), (''mm'', heading node_n node_mm)] = [] \<and>
   check_ring_connectivity [(''n'', node_n), (''mm'', node_mm)] \<noteq> []"
proof -
  let ?ring = "[(''n'', heading node_mm node_n), (''mm'', heading node_n node_mm)]" and ?apart = "[(''n'', node_n), (''mm'', node_mm)]"
  have "\<not> poisoned node_n M_successor" "\<not> poisoned node_mm M_successor" "successor node_n = info node_n"
    "successor node_mm = info node_mm" using new_nodes by (simp_all add: known_apart_def fresh_def lone_def)
  then have ok: "harness_ok ?ring" "harness_ok ?apart" by (simp_all add: harness_ok_def heading_def new_nodes_info)
  have next_of: "next_address ?ring ''n'' = ''mm''" "next_address ?ring ''mm'' = ''n''"
    by (simp_all add: next_address_def get_node_def heading_def new_nodes_info)
  then have "\<exists>i. b = (next_address ?ring ^^ i) a" if "a \<in> {''n'', ''mm''}" "b \<in> {''n'', ''mm''}" for a b
    using that by (cases "a = b") (auto intro: exI [of _ 0] exI [of _ 1])
  then have ring: "check_ring_connectivity ?ring = []"
    by (subst check_ring_connectivity_exact [OF ok(1)]) (simp add: get_all_node_addresses_def)
  have "(next_address ?apart ^^ i) ''n'' = ''n''" for i
    by (induction i) (use new_nodes in \<open>simp_all add: next_address_def get_node_def new_nodes_info fresh_def lone_def\<close>)
  then have "check_ring_connectivity ?apart \<noteq> []"
    by (subst check_ring_connectivity_exact [OF ok(2)]) (simp add: get_all_node_addresses_def)
  with ring show ?thesis by blast
qed

section \<open>Reachable nodes\<close>

definition linked_nodes :: "harness \<Rightarrow> (string \<times> string) set" where
  "linked_nodes h = {(a, b). b \<in> set (neighbours h a)}"

lemma visit_nodes_includes: "reachable \<union> set to_visit \<subseteq> visit_nodes h to_visit reachable"
  by (induction h to_visit reachable rule: visit_nodes.induct) auto

lemma visit_nodes_linked: "visit_nodes h to_visit reachable \<subseteq> reachable \<union> (linked_nodes h)\<^sup>* `` set to_visit"
proof (induction h to_visit reachable rule: visit_nodes.induct)
  case (2 h a to_visit reachable)
  have step: "(linked_nodes h)\<^sup>* `` set (neighbours h a) \<subseteq> (linked_nodes h)\<^sup>* `` {a}"
    by (auto simp: linked_nodes_def intro: converse_rtrancl_into_rtrancl)
  show ?case
  proof (cases "a \<in> reachable")
    case False
    have "visit_nodes h (a # to_visit) reachable \<subseteq>
        insert a reachable \<union> (linked_nodes h)\<^sup>* `` (set (neighbours h a) \<union> set to_visit)"
      using "2.IH"(2) [OF False] False by auto
    also have "\<dots> \<subseteq> reachable \<union> (linked_nodes h)\<^sup>* `` set (a # to_visit)" using step by auto
    finally show ?thesis .
  qed (use "2.IH"(1) in auto)
qed auto

lemma visit_nodes_closed:
  "(\<And>a. a \<in> reachable \<Longrightarrow> set (neighbours h a) \<subseteq> reachable \<union> set to_visit) \<Longrightarrow> a \<in> visit_nodes h to_visit reachable \<Longrightarrow>
   set (neighbours h a) \<subseteq> visit_nodes h to_visit reachable"
proof (induction h to_visit reachable arbitrary: a rule: visit_nodes.induct)
  case (2 h b to_visit reachable)
  show ?case
  proof (cases "b \<in> reachable")
    case True
    have "set (neighbours h x) \<subseteq> reachable \<union> set to_visit" if "x \<in> reachable" for x
      using "2.prems"(1) [OF that] True by auto
    with "2.IH"(1) [OF True] "2.prems"(2) True show ?thesis by simp
  next
    case False
    let ?more = "filter (\<lambda>c. c \<notin> insert b reachable) (neighbours h b) @ to_visit"
    have "set (neighbours h x) \<subseteq> insert b reachable \<union> set ?more" if "x \<in> insert b reachable" for x
      using "2.prems"(1) [of x] that by auto
    with "2.IH"(2) [OF False] "2.prems"(2) False show ?thesis by simp
  qed
qed simp

theorem find_reachable_nodes_exact: "find_reachable_nodes h start = (linked_nodes h)\<^sup>* `` {start}"
proof
  have closed: "set (neighbours h a) \<subseteq> find_reachable_nodes h start" if "a \<in> find_reachable_nodes h start" for a
    using visit_nodes_closed [of "{}" h "[start]" a] that by (simp add: find_reachable_nodes_def)
  have "b \<in> find_reachable_nodes h start" if "(start, b) \<in> (linked_nodes h)\<^sup>*" for b
    using that
  proof induction
    case base
    show ?case using visit_nodes_includes [of "{}" "[start]" h] by (simp add: find_reachable_nodes_def)
  next
    case (step b c)
    then show ?case using closed [of b] by (auto simp: linked_nodes_def)
  qed
  then show "(linked_nodes h)\<^sup>* `` {start} \<subseteq> find_reachable_nodes h start" by blast
  show "find_reachable_nodes h start \<subseteq> (linked_nodes h)\<^sup>* `` {start}"
    using visit_nodes_linked [of h "[start]" "{}"] by (simp add: find_reachable_nodes_def)
qed

section \<open>Two nodes under the checks\<close>

definition harness_of :: "node list \<Rightarrow> harness" where
  "harness_of ns = map (\<lambda>n. (ni_address (info n), n)) ns"

lemma node_addresses [simp]:
  "\<not> poisoned n M_successor \<Longrightarrow> successor_address n = Some (ni_address (successor n))"
  "\<not> poisoned n M_predecessor \<Longrightarrow> predecessor_address n = map_option ni_address (predecessor n)"
  by (simp_all add: successor_address_def get_successor_def predecessor_address_def get_predecessor_def safe_lock_def
      node_triple_def option.map_comp comp_def)

lemma harness_addresses [simp]: "get_all_node_addresses (harness_of ns) = map (\<lambda>n. ni_address (info n)) ns"
  by (simp add: get_all_node_addresses_def harness_of_def)

lemma harness_nodes [simp]:
  "get_node (harness_of []) a = None"
  "get_node (harness_of (n # ns)) a = (if a = ni_address (info n) then Some n else get_node (harness_of ns) a)"
  by (simp_all add: get_node_def harness_of_def)

definition structure_ok :: "harness \<Rightarrow> bool" where
  "structure_ok h \<longleftrightarrow> check_ring_connectivity h = [] \<and> check_successor_consistency h = [] \<and>
     check_predecessor_consistency h = [] \<and> check_fault_tolerance h = []"

lemma ring_passes:
  assumes "known_apart A B" "ring_of_two A B"
  shows "structure_ok (harness_of [A, B]) \<and> taken_for_stabilized rounds (harness_of [A, B])"
proof -
  let ?h = "harness_of [A, B]"
  have ne: "ni_address (info B) \<noteq> ni_address (info A)" using assms(1) by (auto simp: known_apart_def)
  note r = assms [unfolded known_apart_def ring_of_two_def] ne
  have "check_ring_connectivity ?h = []"
    using r by (simp add: check_ring_connectivity_def numeral_eq_Suc)
  moreover have "check_successor_consistency ?h = []" "check_predecessor_consistency ?h = []"
    using r by (simp_all add: check_successor_consistency_def check_predecessor_consistency_def map_filter_simps)
  moreover have "neighbours ?h (ni_address (info A)) = [ni_address (info B), ni_address (info B)]"
    "neighbours ?h (ni_address (info B)) = [ni_address (info A), ni_address (info A)]"
    using r by (simp_all add: neighbours_def)
  then have "find_reachable_nodes ?h (ni_address (info A)) = {ni_address (info A), ni_address (info B)}"
    using r by (simp add: find_reachable_nodes_def insert_commute)
  then have "check_fault_tolerance ?h = []"
    using r by (simp add: check_fault_tolerance_def)
  moreover have "taken_for_stabilized rounds ?h"
    using r by (simp add: taken_for_stabilized_def check_ring_consistency_def harness_of_def get_node_def get_all_node_addresses_def
        get_successor_def safe_lock_def)
  ultimately show ?thesis by (simp add: structure_ok_def)
qed

lemma ring_of_two_sym: "ring_of_two A B \<Longrightarrow> ring_of_two B A"
  by (simp add: ring_of_two_def)

text \<open>
  C25. A ring of two nodes passes the integration tests: after the second node has joined, in any order of \<open>stabilize\<close>
  rounds in which the first has a round after one of the second, the network is taken for stabilized and the
  checks of connectivity, successors, predecessors and partitions report nothing, whatever the order of the nodes
  in the harness.
\<close>

theorem two_nodes_pass_checks:
  assumes "env_ok E" "known_apart A B" "fresh A" "fresh B"
  shows "\<exists>A' B'. fold (stabilize_at F E (Suc d)) (xs @ ni_address (info B) # ys @ ni_address (info A) # zs)
      (join_at F E (Suc d) (ni_address (info A)) (ni_address (info B)) (pair A B)) = pair A' B' \<and>
    info A' = info A \<and> info B' = info B \<and>
    (\<forall>h\<in>{harness_of [A', B'], harness_of [B', A']}. structure_ok h \<and> taken_for_stabilized rounds h)"
proof -
  let ?A = "listed B (met B A)" and ?B = "met A (listed A (heading A B))"
  have "known_apart ?A ?B" using assms(2) by (simp add: known_apart_def listed_def met_def heading_def)
  moreover have "ring_of_two ?A ?B" by (simp add: ring_of_two_def listed_def met_def heading_def)
  ultimately have "\<forall>h\<in>{harness_of [?A, ?B], harness_of [?B, ?A]}. structure_ok h \<and> taken_for_stabilized rounds h"
    using ring_passes known_apart_sym ring_of_two_sym by blast
  moreover have "fold (stabilize_at F E (Suc d)) (xs @ ni_address (info B) # ys @ ni_address (info A) # zs)
      (join_at F E (Suc d) (ni_address (info A)) (ni_address (info B)) (pair A B)) = pair ?A ?B"
    using rounds_complete [OF assms, of F d xs ys zs] by (simp only: joined_pair [OF assms(1-3)] two_ring_def)
  moreover have "info ?A = info A" "info ?B = info B" by (simp_all add: listed_def met_def heading_def)
  ultimately show ?thesis by blast
qed

theorem two_nodes_pass_checks_witness:
  "\<exists>A B. fold (stabilize_at exact_ops two_env 1) [''mm'', ''n''] (join_at exact_ops two_env 1 ''n'' ''mm'' (pair node_n node_mm)) =
      pair A B \<and> structure_ok (harness_of [A, B])"
  using two_nodes_pass_checks [OF two_env_ok new_nodes, of exact_ops 0 "[]" "[]" "[]" 0]
  by (simp add: new_nodes_info) blast

text \<open>
  But two nodes that never met are taken for stabilized as well: the test for a ring of two also accepts that each
  is its own successor. Their rounds leave them apart for ever, and the checks of connectivity and of partitions
  report them.
\<close>

theorem apart_taken_for_stabilized:
  assumes "known_apart A B" "fresh A" "fresh B"
  shows "fold (stabilize_at F E d) cs (pair A B) = pair A B \<and> taken_for_stabilized rounds (harness_of [A, B]) \<and>
    check_ring_connectivity (harness_of [A, B]) \<noteq> [] \<and>
    check_fault_tolerance (harness_of [A, B]) = [violation ''Fault Tolerance'' [ni_address (info B)]]"
proof -
  let ?h = "harness_of [A, B]"
  have ne: "ni_address (info B) \<noteq> ni_address (info A)" using assms(1) by (auto simp: known_apart_def)
  note r = assms [unfolded known_apart_def fresh_def lone_def] ne
  have "stabilize_at F E d c (pair A B) = pair A B" for c
  proof -
    have "stabilize_at F E d (ni_address (info X)) (pair X Y) = pair X Y" if "known_apart X Y" "fresh X" for X Y
      unfolding stabilize_at_def
      using that by (intro run_at_pair [where r = "()"]) (simp_all add: stabilize_lone known_apart_def)
    from this [OF assms(1,2)] this [OF known_apart_sym [OF assms(1)] assms(3)] stabilize_elsewhere [of c "pair A B" F E d]
    show ?thesis by (auto simp: dom_pair pair_sym [OF assms(1)])
  qed
  then have "fold (stabilize_at F E d) cs (pair A B) = pair A B" by (induction cs) simp_all
  moreover have "taken_for_stabilized rounds ?h"
    using r by (simp add: taken_for_stabilized_def check_ring_consistency_def harness_of_def get_node_def get_all_node_addresses_def
        get_successor_def safe_lock_def)
  moreover have "check_ring_connectivity ?h \<noteq> []"
    using r by (simp add: check_ring_connectivity_def numeral_eq_Suc)
  moreover have "neighbours ?h (ni_address (info A)) = [ni_address (info A)]"
    using r by (simp add: neighbours_def)
  then have "find_reachable_nodes ?h (ni_address (info A)) = {ni_address (info A)}"
    by (simp add: find_reachable_nodes_def)
  then have "check_fault_tolerance ?h = [violation ''Fault Tolerance'' [ni_address (info B)]]"
    using r by (simp add: check_fault_tolerance_def)
  ultimately show ?thesis by blast
qed

theorem apart_taken_for_stabilized_witness:
  "taken_for_stabilized 1 (harness_of [node_n, node_mm]) \<and>
   check_fault_tolerance (harness_of [node_n, node_mm]) = [violation ''Fault Tolerance'' [''mm'']]"
  using apart_taken_for_stabilized [OF new_nodes, of exact_ops two_env 1 "[''n'', ''mm'']" 1] by (simp add: new_nodes_info)

section \<open>Simulated answers\<close>

text \<open>The messages of routing, storage and stabilization that the simulation answers like a node does.\<close>

fun tested_alike :: "'m dht_message \<Rightarrow> bool" where
  "tested_alike (FindSuccessor _) = True"
| "tested_alike (FindPredecessor _) = True"
| "tested_alike GetSuccessor = True"
| "tested_alike GetPredecessor = True"
| "tested_alike (Notify _ _ _) = True"
| "tested_alike (Store _ _) = True"
| "tested_alike (Retrieve _) = True"
| "tested_alike Ping = True"
| "tested_alike _ = False"

lemma store_each_ok: "\<exists>n' w'. store_each E net key vs n w = (Inr (), n', w')"
  by (induction vs arbitrary: n w) (auto simp: store_data_def split: prod.split)



text \<open>A network in which every answer is one of a simulated node.\<close>

definition simulated :: "(network_metrics, 'w) dht \<Rightarrow> bool" where
  "simulated net \<longleftrightarrow> (\<forall>a m n w r. fst (net a m n w) = Inr r \<longrightarrow>
     (\<exists>E net' b (w' :: 'w). fst (process_dht_message E net' m b w') = Some r))"

lemma simulated_closest:
  fixes net :: "(network_metrics, 'w) dht"
  assumes "simulated net" "net a (ClosestPrecedingNode key) n w = (r, x)"
  shows "found_closest r = None"
proof (cases r)
  case (Inr y)
  then have "fst (net a (ClosestPrecedingNode key) n w) = Inr y" using assms(2) by simp
  then obtain E net' b and w' :: 'w where "fst (process_dht_message E net' (ClosestPrecedingNode key) b w') = Some y"
    using assms(1) unfolding simulated_def by blast
  then show ?thesis using Inr by (auto simp: process_dht_message_def)
qed simp

lemma loop_away:
  assumes "simulated net" "ni_id p \<noteq> ni_id (info n)"
  shows "fst (find_predecessor_loop E net key k p s n w) = p"
  using assms(2) simulated_closest [OF assms(1)]
  by (cases k) (auto simp: find_predecessor_loop.simps [of _ _ _ _ p] next_hop_def split: prod.split option.split)

text \<open>
  In the integration tests no lookup goes further than one hop: \<open>find_predecessor\<close> ends at the node itself or at
  the finger it starts with, since the nodes there cannot be asked for a closer one.
\<close>

theorem simulated_lookup_one_hop:
  assumes "simulated net" "dht_rely (\<lambda>n n'. info n' = info n) net"
  shows "fst (find_predecessor E net key n w) \<in> {info n, closest_preceding_node E key n}"
proof -
  have loop: "fst (find_predecessor_loop E net key (Suc k) (info n) s n w) \<in> {info n, closest_preceding_node E key n}" for k s
  proof -
    let ?c = "closest_preceding_node E key n"
    obtain x n1 w1 where x: "successor_of net ?c n w = (x, n1, w1)" using prod_cases3 by blast
    have "info n1 = info n" if "ni_id ?c \<noteq> ni_id (info n)"
      using x that dht_relyD [OF assms(2)] by (auto simp: successor_of_def split: prod.splits)
    then show ?thesis
      using x loop_away [OF assms(1), of ?c n1]
      by (auto simp: find_predecessor_loop.simps [of _ _ _ "Suc k"] next_hop_def split: option.split)
  qed
  have "MAX_HOPS = Suc 9" by (simp add: MAX_HOPS_def)
  then show ?thesis using loop [of 9] by (auto simp: find_predecessor_def split: option.split)
qed

text \<open>Every address is answered by the second of the two nodes.\<close>

definition simulated_peer :: "(network_metrics, unit) dht" where
  "simulated_peer a m n w =
     (case fst (process_dht_message two_env idle_net m node_mm ()) of None \<Rightarrow> Inl ''no answer'' | Some r \<Rightarrow> Inr r, n, w)"

theorem simulated_lookup_one_hop_witness:
  "fst (find_predecessor two_env simulated_peer (id_of_nat 7) (heading node_mm node_n) ()) = info node_n"
proof -
  let ?n = "heading node_mm node_n"
  have "simulated simulated_peer"
    unfolding simulated_def simulated_peer_def by (auto split: option.splits)
  moreover have "dht_rely (\<lambda>n n'. info n' = info n) simulated_peer" by (simp add: dht_rely_def simulated_peer_def)
  ultimately have "fst (find_predecessor two_env simulated_peer (id_of_nat 7) ?n ()) \<in>
      {info ?n, closest_preceding_node two_env (id_of_nat 7) ?n}" by (rule simulated_lookup_one_hop)
  moreover have "set (finger_table ?n) \<subseteq> {info node_n}"
    by (simp add: heading_def node_n_def new_node_def Let_def set_replicate_conv_if)
  then have "closest_preceding_node two_env (id_of_nat 7) ?n = info node_n"
    using in_set_takeD by (fastforce simp: closest_preceding_node_def safe_lock_def heading_def split: option.split dest!: find_Some_D)
  ultimately show ?thesis by (simp add: heading_def)
qed

section \<open>Checks of the data\<close>

text \<open>
  The check of load balance fails on every network that holds some keys but fewer than nodes: the expected number
  per node is then rounded to none, and so is the tolerance.
\<close>

theorem few_keys_unbalanced:
  assumes "2 \<le> length h" "sum_list (map (\<lambda>(a, n). local_key_count (get_metrics n)) h) < length h"
    and "(a, n) \<in> set h" "0 < local_key_count (get_metrics n)"
  shows "violation ''Load Balance'' [a] \<in> set (check_load_balance h)"
proof -
  let ?loads = "map (\<lambda>(a, n). (a, local_key_count (get_metrics n))) h"
  have "map snd ?loads = map (\<lambda>(a, n). local_key_count (get_metrics n)) h" by (simp add: case_prod_beta)
  with assms(2) have "sum_list (map snd ?loads) div length h = 0" by (simp only: div_less)
  then show ?thesis using assms(1,3,4) by (force simp: check_load_balance_def Let_def map_filter_def)
qed

theorem few_keys_unbalanced_witness:
  "violation ''Load Balance'' [''n''] \<in>
   set (check_load_balance [(''n'', node_n\<lparr>metrics := default_metrics\<lparr>local_key_count := 1\<rparr>\<rparr>), (''mm'', node_mm)])"
proof -
  have "get_metrics (node_n\<lparr>metrics := default_metrics\<lparr>local_key_count := 1\<rparr>\<rparr>) = default_metrics\<lparr>local_key_count := 1\<rparr>"
    "get_metrics node_mm = default_metrics"
    by (simp_all add: get_metrics_def safe_lock_def node_n_def node_mm_def new_node_def Let_def)
  then show ?thesis
    by (intro few_keys_unbalanced [where n = "node_n\<lparr>metrics := default_metrics\<lparr>local_key_count := 1\<rparr>\<rparr>"])
       (simp_all add: default_metrics_def)
qed

text \<open>The check of consistency compares every answer with the one the hash map yields first, so its order decides.\<close>

definition overlapping :: retrievals where
  "overlapping a key = Inr (Some (if a = ''a'' then [[1]] else if a = ''b'' then [[1], [2]] else [[2]]))"

theorem consistency_depends_on_order:
  fixes n :: node
  defines "h \<equiv> [(''a'', n), (''b'', n), (''c'', n)]"
  shows "check_data_consistency id overlapping [(k, [1])] h = [violation ''Data Consistency'' [''c'']] \<and>
    check_data_consistency rotate1 overlapping [(k, [1])] h = []"
  by (simp add: h_def check_data_consistency_def overlapping_def get_all_node_addresses_def map_filter_simps Let_def)

end
