(* ===== verification/Collector.thy ===== *)
theory Collector
  imports Startup Metrics_View
begin

text \<open>
  The collector (\<open>collector/src\<close>): it fetches a node's metrics at intervals, keeps them in a table, and serves the
  latest rows to the metrics dialog of the client. The table is the one of the SQL statements: the time in
  seconds is the primary key, and a value that is not a number is stored as NULL. Failures of the disk are not
  modelled. \<open>main\<close> reads its configuration and starts the task that fetches.
\<close>

section \<open>The table\<close>

text \<open>A row without its key; \<open>None\<close> is NULL.\<close>

record db_row =
  db_node_churn_rate :: "load option"
  db_routing_table_health :: "load option"
  db_operation_success_rate :: "load option"
  db_operation_latency_millis :: nat
  db_message_type_ratio :: "load option"
  db_local_key_count :: nat
  db_total_network_keys_estimate :: "load option"
  db_network_size_estimate :: "load option"

type_synonym metrics_table = "nat \<rightharpoonup> db_row"

record stored_network_metrics =
  sn_timestamp :: nat
  sn_node_churn_rate :: load
  sn_routing_table_health :: load
  sn_operation_success_rate :: load
  sn_operation_latency_millis :: nat
  sn_message_type_ratio :: load
  sn_local_key_count :: nat
  sn_total_network_keys_estimate :: load
  sn_network_size_estimate :: load

definition sql_real :: "load \<Rightarrow> load option" where
  "sql_real x = (if x = Load_NaN then None else Some x)"

text \<open>An unsigned 64-bit value is bound as a signed one, which fails from \<open>2 ^ 63\<close> on.\<close>

definition sql_integer :: "nat \<Rightarrow> string + nat" where
  "sql_integer x = (if x < 2 ^ 63 then Inr x else Inl ''out of range'')"

definition as_millis :: "nat \<Rightarrow> nat" where
  "as_millis duration = duration div 10 ^ 6"

text \<open>\<open>now\<close> is the clock's time in seconds; \<open>as u64\<close> keeps the low 64 bits.\<close>

definition insert_metrics :: "nat \<Rightarrow> network_metrics \<Rightarrow> metrics_table \<Rightarrow> string + metrics_table" where
  "insert_metrics now m tbl =
     (case (sql_integer now, sql_integer (as_millis (operation_latency m) mod 2 ^ 64), sql_integer (local_key_count m)) of
        (Inr timestamp, Inr latency, Inr key_count) \<Rightarrow>
          if tbl timestamp \<noteq> None then Inl ''UNIQUE constraint failed: metrics.timestamp''
          else Inr (tbl(timestamp \<mapsto>
            \<lparr>db_node_churn_rate = sql_real (node_churn_rate m),
             db_routing_table_health = sql_real (routing_table_health m),
             db_operation_success_rate = sql_real (operation_success_rate m),
             db_operation_latency_millis = latency,
             db_message_type_ratio = sql_real (message_type_ratio m),
             db_local_key_count = key_count,
             db_total_network_keys_estimate = sql_real (total_network_keys_estimate m),
             db_network_size_estimate = sql_real (network_size_estimate m)\<rparr>))
      | _ \<Rightarrow> Inl ''out of range'')"

text \<open>A column that is NULL fails to be read as a number, and the row is left out.\<close>

definition read_row :: "nat \<Rightarrow> db_row \<Rightarrow> stored_network_metrics option" where
  "read_row timestamp r =
     Option.bind (db_node_churn_rate r) (\<lambda>churn.
     Option.bind (db_routing_table_health r) (\<lambda>health.
     Option.bind (db_operation_success_rate r) (\<lambda>success.
     Option.bind (db_message_type_ratio r) (\<lambda>ratio.
     Option.bind (db_total_network_keys_estimate r) (\<lambda>total.
     Option.bind (db_network_size_estimate r) (\<lambda>size.
       Some \<lparr>sn_timestamp = timestamp, sn_node_churn_rate = churn, sn_routing_table_health = health,
         sn_operation_success_rate = success, sn_operation_latency_millis = db_operation_latency_millis r,
         sn_message_type_ratio = ratio, sn_local_key_count = db_local_key_count r,
         sn_total_network_keys_estimate = total, sn_network_size_estimate = size\<rparr>))))))"

text \<open>\<open>ORDER BY timestamp DESC LIMIT 1000\<close>.\<close>

definition latest_keys :: "metrics_table \<Rightarrow> nat list" where
  "latest_keys tbl = take 1000 (rev (sorted_list_of_set (dom tbl)))"

definition get_latest_metrics :: "metrics_table \<Rightarrow> stored_network_metrics list" where
  "get_latest_metrics tbl = List.map_filter (\<lambda>t. Option.bind (tbl t) (read_row t)) (latest_keys tbl)"

section \<open>Fetching and serving\<close>

text \<open>What a request to the node ends with: no valid address, no connection, or a status and perhaps a body.\<close>

datatype fetched = Invalid_uri | Not_connected | Fetched nat "bytes option"

definition fetch_and_store_metrics ::
  "(bytes \<Rightarrow> network_metrics option) \<Rightarrow> nat \<Rightarrow> fetched \<Rightarrow> metrics_table \<Rightarrow> metrics_table"
where
  "fetch_and_store_metrics parse now r tbl =
     (case r of
        Fetched st (Some body) \<Rightarrow>
          if 200 \<le> st \<and> st \<le> 299 then
            (case parse body of
               None \<Rightarrow> tbl
             | Some m \<Rightarrow> (case insert_metrics now m tbl of Inl _ \<Rightarrow> tbl | Inr tbl' \<Rightarrow> tbl'))
          else tbl
      | _ \<Rightarrow> tbl)"

datatype collector_reply = No_content | Rows "stored_network_metrics list" | Collector_error string

definition metrics_api_handler ::
  "bool \<Rightarrow> string + stored_network_metrics list \<Rightarrow> nat \<times> collector_reply"
where
  "metrics_api_handler is_options rows =
     (if is_options then (200, No_content)
      else (case rows of Inr latest \<Rightarrow> (200, Rows latest) | Inl _ \<Rightarrow> (500, Collector_error ''Internal server error'')))"

text \<open>The task of \<open>main\<close>: one fetch at every tick.\<close>

definition collect :: "(bytes \<Rightarrow> network_metrics option) \<Rightarrow> (nat \<times> fetched) list \<Rightarrow> metrics_table \<Rightarrow> metrics_table" where
  "collect parse = fold (\<lambda>(now, r). fetch_and_store_metrics parse now r)"

text \<open>The configuration: an interval that is no number ends the program, every other variable has a default.\<close>

record collector_config =
  cc_bootstrap_node_api_url :: string
  cc_bind_address :: string
  cc_fetch_interval_secs :: nat
  cc_db_path :: string

definition read_collector_config :: "variables \<Rightarrow> string + collector_config" where
  "read_collector_config var =
     (case parse_unsigned 64 (unwrap_or (var ''METRICS_FETCH_INTERVAL_SECS'') ''60'') of
        None \<Rightarrow> Inl ''invalid interval''
      | Some secs \<Rightarrow>
          Inr \<lparr>cc_bootstrap_node_api_url = unwrap_or (var ''BOOTSTRAP_NODE_API_URL'') ''https://bootstrap.tace.chat'',
               cc_bind_address = unwrap_or (var ''COLLECTOR_BIND_ADDRESS'') ''0.0.0.0:8000'',
               cc_fetch_interval_secs = secs,
               cc_db_path = unwrap_or (var ''SQLITE_DB_PATH'') ''./metrics.sqlite''\<rparr>)"

text \<open>
  The fetching task. The timer is third-party code: \<open>interval\<close> gives the times of its ticks in seconds from now, of which
  the first is immediate, or panics. \<open>fetch_at\<close> is what the fetch at a tick ends with, and when; \<open>k\<close> ticks are run.
\<close>

definition interval_ok :: "(nat \<Rightarrow> (nat \<Rightarrow> nat) outcome) \<Rightarrow> bool" where
  "interval_ok interval \<longleftrightarrow> interval 0 = Panic \<and>
     (\<forall>secs>0. \<exists>tick. interval secs = Ok tick \<and> tick 0 = 0 \<and> mono tick \<and> (\<forall>i. i * secs \<le> tick i))"

definition fetch_task ::
  "(nat \<Rightarrow> (nat \<Rightarrow> nat) outcome) \<Rightarrow> (bytes \<Rightarrow> network_metrics option) \<Rightarrow> collector_config \<Rightarrow> (nat \<Rightarrow> nat \<times> fetched) \<Rightarrow>
   nat \<Rightarrow> metrics_table \<Rightarrow> metrics_table outcome"
where
  "fetch_task interval parse c fetch_at k tbl =
     (case interval (cc_fetch_interval_secs c) of
        Ok tick \<Rightarrow> Ok (collect parse (map (\<lambda>i. fetch_at (tick i)) [0..<k]) tbl)
      | _ \<Rightarrow> Panic)"

text \<open>The numbers of a row as the client reads them; an infinite one is \<open>null\<close> in JSON.\<close>

fun finite_value :: "load \<Rightarrow> rat option" where
  "finite_value (Load x) = Some x"
| "finite_value _ = None"

definition client_row :: "stored_network_metrics \<Rightarrow> metric_row option" where
  "client_row r =
     Option.bind (finite_value (sn_network_size_estimate r)) (\<lambda>size.
     Option.bind (finite_value (sn_total_network_keys_estimate r)) (\<lambda>total.
       Some \<lparr>mr_timestamp = int (sn_timestamp r), mr_network_size_estimate = size,
             mr_total_network_keys_estimate = total\<rparr>))"

section \<open>The rows served\<close>

lemma insert_metrics_keeps: "insert_metrics now m tbl = Inr tbl' \<Longrightarrow> tbl \<subseteq>\<^sub>m tbl' \<and> dom tbl' \<subseteq> insert now (dom tbl)"
  by (auto simp: insert_metrics_def sql_integer_def map_le_def split: if_splits)

lemma fetch_keeps: "tbl \<subseteq>\<^sub>m fetch_and_store_metrics parse now r tbl \<and>
    dom (fetch_and_store_metrics parse now r tbl) \<subseteq> insert now (dom tbl)"
  by (auto simp: fetch_and_store_metrics_def split: fetched.split option.split sum.split dest!: insert_metrics_keeps)

lemma collect_keeps: "tbl \<subseteq>\<^sub>m collect parse es tbl \<and> dom (collect parse es tbl) \<subseteq> fst ` set es \<union> dom tbl"
proof (induction es arbitrary: tbl)
  case (Cons e es)
  obtain now r where e: "e = (now, r)" by (cases e)
  let ?t = "fetch_and_store_metrics parse now r tbl"
  have "collect parse (e # es) tbl = collect parse es ?t" by (simp add: collect_def e)
  moreover have "tbl \<subseteq>\<^sub>m ?t" "dom ?t \<subseteq> insert now (dom tbl)" using fetch_keeps by blast+
  moreover have "?t \<subseteq>\<^sub>m collect parse es ?t" "dom (collect parse es ?t) \<subseteq> fst ` set es \<union> dom ?t"
    using Cons [of ?t] by blast+
  ultimately show ?case using map_le_trans by (simp add: e) blast
qed (simp add: collect_def)

lemma read_row_timestamp: "read_row t r = Some x \<Longrightarrow> sn_timestamp x = t"
  by (auto simp: read_row_def bind_eq_Some_conv)

lemma timestamps_map_filter:
  "map sn_timestamp (List.map_filter (\<lambda>t. Option.bind (tbl t) (read_row t)) ts) =
   filter (\<lambda>t. Option.bind (tbl t) (read_row t) \<noteq> None) ts"
proof (induction ts)
  case (Cons t ts)
  then show ?case
    by (cases "Option.bind (tbl t) (read_row t)")
       (auto simp: map_filter_simps bind_eq_Some_conv dest: read_row_timestamp)
qed (simp add: map_filter_simps)

lemma latest_keys_decreasing: "sorted_wrt (>) (latest_keys tbl)"
proof -
  have "sorted_wrt (>) (rev (sorted_list_of_set (dom tbl)))"
    using strict_sorted_list_of_set [of "dom tbl"] by (simp add: sorted_wrt_rev)
  then show ?thesis unfolding latest_keys_def by (rule sorted_wrt_take)
qed

lemma latest_timestamps: "map sn_timestamp (get_latest_metrics tbl) =
    filter (\<lambda>t. Option.bind (tbl t) (read_row t) \<noteq> None) (latest_keys tbl)"
  unfolding get_latest_metrics_def by (rule timestamps_map_filter)

lemma latest_decreasing: "sorted_wrt (\<lambda>a b. sn_timestamp b < sn_timestamp a) (get_latest_metrics tbl)"
proof -
  have "sorted_wrt (>) (map sn_timestamp (get_latest_metrics tbl))"
    unfolding latest_timestamps by (intro sorted_wrt_filter latest_keys_decreasing)
  then show ?thesis by (simp add: sorted_wrt_map)
qed

section \<open>Properties\<close>

text \<open>
  The collector's history only grows: whatever the node answers and however the fetches fail, a row once stored
  is never changed or removed, every row is of the second of one of the fetches, and there is at most one for
  each second.
\<close>

theorem collector_history:
  assumes "tbl t = Some row"
  shows "collect parse es tbl t = Some row \<and> dom (collect parse es tbl) \<subseteq> fst ` set es \<union> dom tbl"
  using collect_keeps [of tbl parse es] assms by (auto simp: map_le_def dom_def)

definition example_body :: bytes where "example_body = [1]"

definition constant_parse :: "bytes \<Rightarrow> network_metrics option" where
  "constant_parse bs = (if bs = example_body then Some default_metrics else None)"

definition example_fetches :: "(nat \<times> fetched) list" where
  "example_fetches = [(60, Fetched 200 (Some example_body)), (60, Fetched 200 (Some example_body)), (120, Not_connected),
     (180, Fetched 500 None), (240, Fetched 200 (Some [])), (300, Fetched 204 (Some example_body))]"

theorem collector_history_witness:
  "\<exists>row. collect constant_parse example_fetches Map.empty 60 = Some row"
proof -
  obtain row where row: "fetch_and_store_metrics constant_parse 60 (Fetched 200 (Some example_body)) Map.empty 60 = Some row"
    by (simp add: fetch_and_store_metrics_def constant_parse_def insert_metrics_def sql_integer_def as_millis_def
        default_metrics_def)
  have "collect constant_parse example_fetches Map.empty =
      collect constant_parse (tl example_fetches)
        (fetch_and_store_metrics constant_parse 60 (Fetched 200 (Some example_body)) Map.empty)"
    by (simp add: collect_def example_fetches_def)
  with collector_history [where tbl = "fetch_and_store_metrics constant_parse 60 (Fetched 200 (Some example_body)) Map.empty"
      and t = 60 and row = row and parse = constant_parse and es = "tl example_fetches", OF row]
  show ?thesis by auto
qed

text \<open>
  C40. What the collector serves: rows with strictly decreasing times, at most a thousand, and the newest: a row of the
  table that could have been served but was not is older than the thousand last ones. The chart that the
  client draws of them is in strictly chronological order.
\<close>

theorem latest_metrics_newest_first:
  assumes "finite (dom tbl)"
  shows "sorted_wrt (\<lambda>a b. sn_timestamp b < sn_timestamp a) (get_latest_metrics tbl) \<and>
    length (get_latest_metrics tbl) \<le> 1000 \<and>
    (\<forall>t x. Option.bind (tbl t) (read_row t) = Some x \<longrightarrow>
       x \<in> set (get_latest_metrics tbl) \<or> 1000 \<le> card {t' \<in> dom tbl. t < t'}) \<and>
    (\<forall>rows. map client_row (get_latest_metrics tbl) = map Some rows \<longrightarrow> sorted_wrt (<) (ch_labels (chart_of rows)))"
proof -
  let ?ks = "sorted_list_of_set (dom tbl)"
  have "length (map sn_timestamp (get_latest_metrics tbl)) \<le> length (latest_keys tbl)"
    unfolding latest_timestamps by (rule length_filter_le)
  then have len: "length (get_latest_metrics tbl) \<le> 1000" by (simp add: latest_keys_def)
  have all: "x \<in> set (get_latest_metrics tbl) \<or> 1000 \<le> card {t' \<in> dom tbl. t < t'}"
    if x: "Option.bind (tbl t) (read_row t) = Some x" for t x
  proof (cases "t \<in> set (latest_keys tbl)")
    case True
    then show ?thesis using x by (auto simp: get_latest_metrics_def map_filter_def intro: rev_image_eqI)
  next
    case False
    have t: "t \<in> set (rev ?ks)" using x assms by (auto simp: bind_eq_Some_conv)
    have dec: "sorted_wrt (>) (rev ?ks)" using strict_sorted_list_of_set [of "dom tbl"] by (simp add: sorted_wrt_rev)
    have split: "rev ?ks = take 1000 (rev ?ks) @ drop 1000 (rev ?ks)" by simp
    have "t \<in> set (drop 1000 (rev ?ks))" using t False split unfolding latest_keys_def by (metis Un_iff set_append)
    then have "\<forall>t'\<in>set (take 1000 (rev ?ks)). t < t'"
      using dec split by (metis sorted_wrt_append)
    moreover have "set (take 1000 (rev ?ks)) \<subseteq> dom tbl" using set_take_subset assms by fastforce
    ultimately have "set (take 1000 (rev ?ks)) \<subseteq> {t' \<in> dom tbl. t < t'}" by blast
    then have "card (set (take 1000 (rev ?ks))) \<le> card {t' \<in> dom tbl. t < t'}" using assms by (intro card_mono) auto
    moreover have "1000 \<le> length (rev ?ks)" using \<open>t \<in> set (drop 1000 (rev ?ks))\<close> by (cases "1000 \<le> length ?ks") auto
    then have "card (set (take 1000 (rev ?ks))) = 1000" using assms by (simp add: distinct_card)
    ultimately show ?thesis by simp
  qed
  have chart: "sorted_wrt (<) (ch_labels (chart_of rows))" if rows: "map client_row (get_latest_metrics tbl) = map Some rows" for rows
  proof -
    have "map mr_timestamp rows = map (int \<circ> sn_timestamp) (get_latest_metrics tbl)" if "map client_row xs = map Some rows" "xs = get_latest_metrics tbl" for xs
      using that by (auto simp: list_eq_iff_nth_eq client_row_def bind_eq_Some_conv) (metis metric_row.select_convs(1))
    then have "sorted_wrt (>) (map mr_timestamp rows)"
      using rows latest_decreasing [of tbl] by (simp add: sorted_wrt_map)
    then show ?thesis by (simp add: chart_of_def Let_def sorted_wrt_map sorted_wrt_rev)
  qed
  show ?thesis using latest_decreasing [of tbl] len all chart by blast
qed

text \<open>Three fetches, of which the second found no number for the size of the network.\<close>

definition example_table :: metrics_table where
  "example_table =
     (let row = \<lparr>db_node_churn_rate = Some (Load 0), db_routing_table_health = Some (Load 0),
            db_operation_success_rate = Some (Load 1), db_operation_latency_millis = 0,
            db_message_type_ratio = Some (Load 0), db_local_key_count = 0,
            db_total_network_keys_estimate = Some (Load 0), db_network_size_estimate = Some (Load 1)\<rparr>
      in [60 \<mapsto> row, 120 \<mapsto> row\<lparr>db_network_size_estimate := None\<rparr>, 180 \<mapsto> row])"

theorem latest_metrics_newest_first_witness:
  "map sn_timestamp (get_latest_metrics example_table) = [180, 60] \<and>
   sorted_wrt (\<lambda>a b. sn_timestamp b < sn_timestamp a) (get_latest_metrics example_table)"
proof -
  have "dom example_table = {60, 120, 180}" by (auto simp: example_table_def Let_def)
  then have "finite (dom example_table)" "latest_keys example_table = [180, 120, 60]"
    by (simp_all add: latest_keys_def)
  then show ?thesis
    using latest_metrics_newest_first [of example_table]
    by (simp add: latest_timestamps) (simp add: example_table_def Let_def read_row_def)
qed

text \<open>
  An interval of zero passes the configuration, but the fetching task then ends before its first fetch, while the
  collector goes on serving what it has.
\<close>

theorem zero_interval_never_fetches:
  assumes "interval_ok interval"
  shows "\<exists>c. read_collector_config (var(''METRICS_FETCH_INTERVAL_SECS'' \<mapsto> ''0'')) = Inr c \<and>
    fetch_task interval parse c fetch_at k tbl = Panic"
proof -
  have "js_show_nat 0 = ''0''" by code_simp
  then have "parse_unsigned 64 ''0'' = Some 0" using parse_show [of 0 64] by simp
  then show ?thesis using assms by (simp add: read_collector_config_def fetch_task_def interval_ok_def)
qed

end
