(* ===== verification/Metrics_Flow.thy ===== *)
theory Metrics_Flow
  imports Collector Lone_Node
begin

text \<open>
  The metrics on their way: from a node (\<open>metrics_handler\<close>) over the collector and its table to the chart of a
  client (\<open>fetchMetrics\<close>, \<open>renderChart\<close>).
\<close>

section \<open>From the node to the collector\<close>

text \<open>The JSON library, third-party code: metrics without infinite or undefined numbers are read back as written.\<close>

definition finite_metrics :: "network_metrics \<Rightarrow> bool" where
  "finite_metrics m \<longleftrightarrow>
     (\<forall>x\<in>{node_churn_rate m, routing_table_health m, operation_success_rate m, message_type_ratio m,
         total_network_keys_estimate m, network_size_estimate m, cpu_usage_percent m, memory_usage_percent m,
         disk_usage_percent m, request_rate_per_second m}. finite_value x \<noteq> None)"

definition metrics_json_ok :: "(network_metrics \<Rightarrow> bytes) \<Rightarrow> (bytes \<Rightarrow> network_metrics option) \<Rightarrow> bool" where
  "metrics_json_ok encode parse \<longleftrightarrow> (\<forall>m. finite_metrics m \<longrightarrow> parse (encode m) = Some m)"

text \<open>What a request for the metrics of a node ends with.\<close>

definition answered :: "(network_metrics \<Rightarrow> bytes) \<Rightarrow> network_metrics http_response \<Rightarrow> fetched" where
  "answered encode r =
     Fetched (hr_status r) (case hr_reply r of Reply_metrics m \<Rightarrow> Some (encode m) | _ \<Rightarrow> Some [])"

text \<open>Values the columns of the table take.\<close>

definition storable :: "network_metrics \<Rightarrow> bool" where
  "storable m \<longleftrightarrow> as_millis (operation_latency m) < 2 ^ 63 \<and> local_key_count m < 2 ^ 63"

lemma finite_value_Some: "finite_value x = Some r \<longleftrightarrow> x = Load r"
  by (cases x) auto

lemma fetch_inserts:
  assumes "metrics_json_ok encode parse" "\<not> poisoned n M_metrics" "finite_metrics (metrics n)" "storable (metrics n)"
    and "now < 2 ^ 63" "tbl now = None"
  shows "\<exists>row x. fetch_and_store_metrics parse now (answered encode (metrics_handler n)) tbl = tbl(now \<mapsto> row) \<and>
    read_row now row = Some x \<and> sn_timestamp x = now \<and>
    sn_network_size_estimate x = network_size_estimate (metrics n) \<and>
    sn_total_network_keys_estimate x = total_network_keys_estimate (metrics n)"
proof -
  let ?m = "metrics n"
  have "answered encode (metrics_handler n) = Fetched 200 (Some (encode ?m))"
    using assms(2) by (simp add: answered_def metrics_handler_def safe_lock_def format_response_def)
  moreover have "parse (encode ?m) = Some ?m" using assms(1,3) by (simp add: metrics_json_ok_def)
  moreover have "\<exists>a b c d e f. node_churn_rate ?m = Load a \<and> routing_table_health ?m = Load b \<and> operation_success_rate ?m = Load c \<and>
      message_type_ratio ?m = Load d \<and> total_network_keys_estimate ?m = Load e \<and> network_size_estimate ?m = Load f"
    using assms(3) by (simp add: finite_metrics_def finite_value_Some)
  moreover have "as_millis (operation_latency ?m) mod 2 ^ 64 = as_millis (operation_latency ?m)"
    using assms(4) by (simp add: storable_def)
  ultimately show ?thesis
    using assms(4-6)
    by (auto simp: fetch_and_store_metrics_def insert_metrics_def sql_integer_def storable_def sql_real_def read_row_def)
qed

section \<open>From the collector to the chart\<close>

lemma latest_keys_newest:
  assumes "finite (dom tbl)" "\<forall>t\<in>dom tbl. t < now"
  shows "latest_keys (tbl(now \<mapsto> row)) = now # take 999 (rev (sorted_list_of_set (dom tbl)))"
proof -
  let ?ks = "sorted_list_of_set (dom tbl)"
  have "sorted (?ks @ [now])" "distinct (?ks @ [now])" "set (?ks @ [now]) = insert now (dom tbl)"
    using assms by (auto simp: sorted_append intro: less_imp_le)
  then have "sorted_list_of_set (insert now (dom tbl)) = ?ks @ [now]"
    by (metis sorted_list_of_set.idem_if_sorted_distinct)
  then show ?thesis by (simp add: latest_keys_def)
qed

lemma latest_metrics_newest:
  assumes "finite (dom tbl)" "\<forall>t\<in>dom tbl. t < now" "read_row now row = Some x"
  shows "\<exists>xs. get_latest_metrics (tbl(now \<mapsto> row)) = x # xs \<and> set xs \<subseteq> set (get_latest_metrics tbl)"
proof -
  let ?ks = "take 999 (rev (sorted_list_of_set (dom tbl)))"
  let ?read = "\<lambda>tbl t. Option.bind (tbl t) (read_row t)"
  have ks: "set ?ks \<subseteq> dom tbl" "set ?ks \<subseteq> set (latest_keys tbl)"
    using assms(1) set_take_subset [of 999 "rev (sorted_list_of_set (dom tbl))"]
      set_take_subset_set_take [of 999 1000 "rev (sorted_list_of_set (dom tbl))"] by (simp_all add: latest_keys_def)
  have "List.map_filter (?read (tbl(now \<mapsto> row))) ?ks = List.map_filter (?read tbl) ?ks"
    using ks(1) assms(2) unfolding map_filter_def by (intro arg_cong2 [where f = map] filter_cong map_cong) auto
  then have "get_latest_metrics (tbl(now \<mapsto> row)) = x # List.map_filter (?read tbl) ?ks"
    using assms by (simp add: get_latest_metrics_def latest_keys_newest map_filter_simps)
  moreover have "set (List.map_filter (?read tbl) ?ks) \<subseteq> set (get_latest_metrics tbl)"
    using ks(2) by (auto simp: get_latest_metrics_def map_filter_def)
  ultimately show ?thesis by blast
qed

text \<open>The page after the rows have arrived.\<close>

definition page_shows :: "app \<Rightarrow> chart_data \<Rightarrow> bool" where
  "page_shows s c \<longleftrightarrow> (\<exists>h. metricsChart s = Some h \<and> live_charts s h = Some c)"

lemma arrived_shows: "rows \<noteq> [] \<Longrightarrow> page_shows (metrics_arrive (Metrics_response 200 (Some (Some rows))) s) (chart_of rows)"
  by (auto simp: page_shows_def metrics_arrive_def renderChart_def new_chart_def)


text \<open>An encoding of metrics, with rational numbers as a sign, a numerator and a denominator.\<close>

definition enc_rat :: "rat \<Rightarrow> bytes" where
  "enc_rat r = (let (a, b) = quotient_of r
     in enc_fields [if a < 0 then [1] else [], replicate (nat \<bar>a\<bar>) 0, replicate (nat b) 0])"

definition dec_rat :: "bytes \<Rightarrow> rat" where
  "dec_rat bs = (case dec_fields [] bs of
     [s, a, b] \<Rightarrow> (if s = [] then 1 else - 1) * of_nat (length a) / of_nat (length b)
   | _ \<Rightarrow> 0)"

lemma dec_enc_rat [simp]: "dec_rat (enc_rat r) = r"
proof -
  obtain a b where q: "quotient_of r = (a, b)" by (cases "quotient_of r")
  have "0 < b" by (rule quotient_of_denom_pos [OF q])
  then have "(of_nat (nat b) :: rat) = of_int b" by simp
  moreover have "(if a < 0 then - 1 else 1) * (of_nat (nat \<bar>a\<bar>) :: rat) = of_int a" by simp
  ultimately show ?thesis using quotient_of_div [OF q] q by (auto simp: enc_rat_def dec_rat_def)
qed

fun enc_load :: "load \<Rightarrow> bytes" where
  "enc_load (Load r) = enc_rat r"
| "enc_load _ = []"

definition toy_encode :: "network_metrics \<Rightarrow> bytes" where
  "toy_encode m = enc_fields
     [enc_load (node_churn_rate m), enc_load (routing_table_health m), enc_load (operation_success_rate m),
      replicate (operation_latency m) 0, enc_load (message_type_ratio m), replicate (local_key_count m) 0,
      enc_load (total_network_keys_estimate m), enc_load (network_size_estimate m), enc_load (cpu_usage_percent m),
      enc_load (memory_usage_percent m), enc_load (disk_usage_percent m), replicate (unat (nm_active_connections m)) 0,
      enc_load (request_rate_per_second m)]"

definition toy_parse :: "bytes \<Rightarrow> network_metrics option" where
  "toy_parse bs = (case dec_fields [] bs of
     [a, b, c, d, e, f, g, h, i, j, k, l, m] \<Rightarrow> Some
       \<lparr>node_churn_rate = Load (dec_rat a), routing_table_health = Load (dec_rat b), operation_success_rate = Load (dec_rat c),
        operation_latency = length d, message_type_ratio = Load (dec_rat e), local_key_count = length f,
        total_network_keys_estimate = Load (dec_rat g), network_size_estimate = Load (dec_rat h),
        cpu_usage_percent = Load (dec_rat i), memory_usage_percent = Load (dec_rat j), disk_usage_percent = Load (dec_rat k),
        nm_active_connections = of_nat (length l), request_rate_per_second = Load (dec_rat m)\<rparr>
   | _ \<Rightarrow> None)"

lemma toy_metrics_json_ok: "metrics_json_ok toy_encode toy_parse"
  by (auto simp: metrics_json_ok_def finite_metrics_def finite_value_Some toy_encode_def toy_parse_def)


end
