(* ===== verification/Locks.thy ===== *)
theory Locks
  imports Chord_State
begin

text \<open>
  The mutexes of a node under concurrency (\<open>node/src/node.rs\<close>): which locks an operation takes while it holds
  others, threads that run such operations interleaved, and when they can block each other for ever. A thread
  blocks on a mutex that is held, also by itself.
\<close>

section \<open>The locks an operation takes\<close>

datatype lock_op = Acquire mutex | Release mutex

text \<open>The scope of \<open>notify\<close> that updates the predecessor, and the successor inside it.\<close>

definition notify_locks :: "lock_op list" where
  "notify_locks = [Acquire M_predecessor, Acquire M_successor, Release M_successor, Release M_predecessor]"

text \<open>The metrics stay locked while fingers, data and successor are looked at in turn.\<close>

definition update_local_metrics_locks :: "lock_op list" where
  "update_local_metrics_locks =
     [Acquire M_metrics, Acquire M_finger_table, Release M_finger_table, Acquire M_data, Release M_data,
      Acquire M_successor, Release M_successor, Release M_metrics]"

text \<open>The guards of \<open>debug_ring_state\<close> are dropped at its end, in reverse order.\<close>

definition debug_ring_state_locks :: "lock_op list" where
  "debug_ring_state_locks = [Acquire M_successor, Acquire M_predecessor, Release M_predecessor, Release M_successor]"

text \<open>Every other operation has one mutex at a time.\<close>

definition single_lock :: "mutex \<Rightarrow> lock_op list" where
  "single_lock m = [Acquire m, Release m]"

section \<open>Threads\<close>

text \<open>What each thread has still to do, and who holds a mutex.\<close>

record threads =
  todo :: "nat \<Rightarrow> lock_op list"
  holder :: "mutex \<Rightarrow> nat option"

inductive lock_step :: "threads \<Rightarrow> threads \<Rightarrow> bool" where
  acquires: "todo s t = Acquire m # p \<Longrightarrow> holder s m = None \<Longrightarrow>
     lock_step s (s\<lparr>todo := (todo s)(t := p), holder := (holder s)(m := Some t)\<rparr>)"
| releases: "todo s t = Release m # p \<Longrightarrow>
     lock_step s (s\<lparr>todo := (todo s)(t := p), holder := (holder s)(m := None)\<rparr>)"

definition spawned :: "(nat \<Rightarrow> lock_op list) \<Rightarrow> threads" where
  "spawned ps = \<lparr>todo = ps, holder = (\<lambda>_. None)\<rparr>"

definition deadlocked :: "threads \<Rightarrow> bool" where
  "deadlocked s \<longleftrightarrow> (\<exists>t. todo s t \<noteq> []) \<and> (\<nexists>s'. lock_step s s')"

section \<open>An order of the mutexes\<close>

fun rank :: "mutex \<Rightarrow> nat" where
  "rank M_metrics = 0"
| "rank M_predecessor = 1"
| "rank _ = 2"

text \<open>A program that, holding some mutexes, takes further ones in the order and gives all back.\<close>

fun ordered :: "mutex set \<Rightarrow> lock_op list \<Rightarrow> bool" where
  "ordered H [] \<longleftrightarrow> H = {}"
| "ordered H (Acquire m # p) \<longleftrightarrow> (\<forall>h\<in>H. rank h < rank m) \<and> ordered (insert m H) p"
| "ordered H (Release m # p) \<longleftrightarrow> m \<in> H \<and> ordered (H - {m}) p"

lemma ordered_append: "ordered H p \<Longrightarrow> ordered {} q \<Longrightarrow> ordered H (p @ q)"
  by (induction H p rule: ordered.induct) auto

lemma operations_ordered:
  "ordered {} notify_locks" "ordered {} update_local_metrics_locks" "ordered {} (single_lock m)"
  by (simp_all add: notify_locks_def update_local_metrics_locks_def single_lock_def)

definition held :: "threads \<Rightarrow> nat \<Rightarrow> mutex set" where
  "held s t = {m. holder s m = Some t}"

definition all_ordered :: "threads \<Rightarrow> bool" where
  "all_ordered s \<longleftrightarrow> (\<forall>t. ordered (held s t) (todo s t))"

lemma lock_step_ordered: "lock_step s s' \<Longrightarrow> all_ordered s \<Longrightarrow> all_ordered s'"
proof (induction rule: lock_step.induct)
  case (acquires s t m p)
  have "held (s\<lparr>todo := (todo s)(t := p), holder := (holder s)(m := Some t)\<rparr>) u =
      (if u = t then insert m (held s t) else held s u)" for u
    using acquires.hyps(2) by (auto simp: held_def)
  moreover have inv: "ordered (held s u) (todo s u)" for u using acquires.prems by (simp add: all_ordered_def)
  moreover have "ordered (held s t) (Acquire m # p)" using inv [of t] unfolding acquires.hyps(1) .
  ultimately show ?case unfolding all_ordered_def by simp
next
  case (releases s t m p)
  have inv: "ordered (held s u) (todo s u)" for u using releases.prems by (simp add: all_ordered_def)
  have rel: "ordered (held s t) (Release m # p)" using inv [of t] unfolding releases.hyps(1) .
  then have m: "holder s m = Some t" by (simp add: held_def)
  have "held (s\<lparr>todo := (todo s)(t := p), holder := (holder s)(m := None)\<rparr>) u =
      (if u = t then held s t - {m} else held s u)" for u
    using m by (auto simp: held_def)
  with inv rel show ?case unfolding all_ordered_def by simp
qed

lemma ordered_progress:
  assumes "all_ordered s"
  shows "\<not> deadlocked s"
proof
  assume dead: "deadlocked s"
  then obtain t0 where t0: "todo s t0 \<noteq> []" by (auto simp: deadlocked_def)
  have waits: "\<exists>m p. todo s t = Acquire m # p \<and> holder s m \<noteq> None" if "todo s t \<noteq> []" for t
  proof (cases "todo s t")
    case (Cons a p)
    have "\<not> lock_step s s'" for s' using dead by (auto simp: deadlocked_def)
    with Cons acquires [of s t _ p] releases [of s t _ p] show ?thesis by (cases a) blast+
  qed (use that in simp)
  define wanted where "wanted t = (case todo s t of Acquire m # _ \<Rightarrow> rank m | _ \<Rightarrow> 0)" for t
  have next_one: "\<exists>u. todo s u \<noteq> [] \<and> wanted t < wanted u" if "todo s t \<noteq> []" for t
  proof -
    have "\<exists>m p u. todo s t = Acquire m # p \<and> holder s m = Some u" using waits [OF that] by auto
    then obtain m p u where t: "todo s t = Acquire m # p" "holder s m = Some u" by blast
    then have u: "m \<in> held s u" "ordered (held s u) (todo s u)" using assms by (simp_all add: held_def all_ordered_def)
    then have "todo s u \<noteq> []" by auto
    then obtain m' p' where "todo s u = Acquire m' # p'" using waits by blast
    with u t have "wanted t < wanted u" by (simp add: wanted_def)
    with \<open>todo s u \<noteq> []\<close> show ?thesis by blast
  qed
  have "\<exists>t. todo s t \<noteq> [] \<and> k \<le> wanted t" for k
  proof (induction k)
    case (Suc k)
    then obtain t where "todo s t \<noteq> []" "k \<le> wanted t" by blast
    with next_one [of t] show ?case by (meson Suc_le_eq le_less_trans)
  qed (use t0 in blast)
  from this [of 3] obtain t where "3 \<le> wanted t" by blast
  moreover have "rank m \<le> 2" for m by (cases m) simp_all
  then have "wanted t \<le> 2" by (simp add: wanted_def split: list.split lock_op.split)
  ultimately show False by simp
qed

section \<open>Properties\<close>

text \<open>
  C30. However many threads serve \<open>notify\<close>, update the metrics and run operations that take one mutex at a time, one
  after the other and interleaved in any way, they never block each other for ever: as long as one has something
  left to do, one can take a step.
\<close>

theorem operations_never_deadlock:
  assumes "\<And>t. set (calls t) \<subseteq> {notify_locks, update_local_metrics_locks} \<union> range single_lock"
    and "lock_step\<^sup>*\<^sup>* (spawned (\<lambda>t. concat (calls t))) s"
  shows "\<not> deadlocked s"
proof -
  have "ordered {} (concat cs)" if "set cs \<subseteq> {notify_locks, update_local_metrics_locks} \<union> range single_lock" for cs
    using that by (induction cs) (auto intro: ordered_append operations_ordered)
  then have "all_ordered (spawned (\<lambda>t. concat (calls t)))"
    using assms(1) by (simp add: all_ordered_def spawned_def held_def)
  with assms(2) have "all_ordered s"
    by (induction rule: rtranclp_induct) (auto intro: lock_step_ordered)
  then show ?thesis by (rule ordered_progress)
qed

text \<open>One thread in \<open>notify\<close> with the predecessor, another waiting for it.\<close>

definition two_notifies :: "nat \<Rightarrow> lock_op list list" where
  "two_notifies t = (if t < 2 then [notify_locks, single_lock M_data] else [])"

theorem operations_never_deadlock_witness:
  "\<not> deadlocked (spawned (\<lambda>t. concat (two_notifies t)))"
  by (rule operations_never_deadlock [OF _ rtranclp.rtrancl_refl]) (auto simp: two_notifies_def split: if_splits)

text \<open>
  \<open>debug_ring_state\<close>, which the maintenance task runs when debug messages are logged, takes the successor first and
  the predecessor then, in the opposite order: run while a \<open>notify\<close> is served, the two can come to hold one
  mutex each and wait for the other's, and neither ever goes on.
\<close>

theorem debug_ring_state_deadlocks:
  "\<exists>s. lock_step\<^sup>*\<^sup>* (spawned ((\<lambda>_. [])(0 := notify_locks, 1 := debug_ring_state_locks))) s \<and>
     deadlocked s \<and> todo s 0 \<noteq> [] \<and> todo s 1 \<noteq> []"
proof -
  define s0 where "s0 = spawned ((\<lambda>_. [])(0 := notify_locks, 1 := debug_ring_state_locks))"
  define s1 where "s1 = s0\<lparr>todo := (todo s0)(0 := tl notify_locks), holder := (holder s0)(M_predecessor := Some 0)\<rparr>"
  define s2 where "s2 = s1\<lparr>todo := (todo s1)(1 := tl debug_ring_state_locks), holder := (holder s1)(M_successor := Some 1)\<rparr>"
  have "lock_step s0 s1" unfolding s1_def
    by (rule acquires) (simp_all add: s0_def spawned_def notify_locks_def)
  moreover have "lock_step s1 s2" unfolding s2_def
    by (rule acquires) (simp_all add: s1_def s0_def spawned_def debug_ring_state_locks_def)
  ultimately have reach: "lock_step\<^sup>*\<^sup>* s0 s2" by (meson rtranclp.rtrancl_refl rtranclp.rtrancl_into_rtrancl)
  have s2: "todo s2 = (\<lambda>_. [])(0 := tl notify_locks, 1 := tl debug_ring_state_locks)"
    "holder s2 = (\<lambda>_. None)(M_predecessor := Some 0, M_successor := Some 1)"
    by (auto simp: s2_def s1_def s0_def spawned_def)
  have "\<not> lock_step s2 s'" for s'
  proof
    assume "lock_step s2 s'"
    then show False
      by cases (auto simp: s2 notify_locks_def debug_ring_state_locks_def split: if_splits)
  qed
  then have "deadlocked s2" by (auto simp: deadlocked_def s2 notify_locks_def)
  with reach show ?thesis unfolding s0_def
    by (intro exI [of _ s2]) (simp add: s2 notify_locks_def debug_ring_state_locks_def)
qed

end
