(* ===== verification/Spec2Isabelle.thy ===== *)
theory Spec2Isabelle
  imports Key_Color Lifecycle End_To_End Recovery Network_Client Process Harness Metrics_Flow Locks
begin

text \<open>
  tace.chat is an end-to-end encrypted chat. A browser client (\<open>webclient/public/main.js\<close>, an Alpine component)
  encrypts messages with a WebAssembly module (\<open>webclient/src/lib.rs\<close> over \<open>lib/src/keys.rs\<close>) and talks over HTTP
  to a node. The nodes (\<open>node/src\<close>) form a Chord ring over TCP: a message is stored under the digest of its
  receiver's key at the node responsible for it and at replicas, and the receiver polls for it, proving its
  identity by signing a challenge. A collector (\<open>collector/src\<close>) keeps the metrics of a node for the metrics dialog
  of the client.

  \<^bold>\<open>The theories.\<close> Every definition follows one function, loop or type of the source, named after it.

  \<^item> \<open>Prelude\<close>: collections of facts and lemmas on lists and options. \<open>Js_Values\<close>: strings, numbers, dates and typed
    arrays of JavaScript.
  \<^item> The client, \<open>main.js\<close>: \<open>Hex_Codec\<close> (hexToUint8Array), \<open>Key_Color\<close> (getPublicKeyColor), \<open>Client_State\<close> (the
    component's fields, and what survives a page load), \<open>Api_Request\<close> (apiRequest with its retries, fetchNewNode),
    \<open>Contacts\<close>, \<open>Messaging\<close> (sendMessage, decryptMessage), \<open>Polling\<close> (pollMessages), \<open>Metrics_View\<close> (the metrics
    dialog and its chart), \<open>Evolution\<close> (what every handler keeps) and \<open>Lifecycle\<close> (init, the terms, the polling
    timer, and all handlers as one transition relation).
  \<^item> The cryptography: \<open>Keys\<close> (keys.rs) and \<open>Wasm\<close> (the exported functions).
  \<^item> A node, \<open>node.rs\<close>: \<open>Node_Id\<close> (arithmetic on the circle of identifiers, lib.rs), \<open>Chord_State\<close> (the node, the
    messages, the environment), \<open>Routing\<close> (lookups), \<open>Node_Storage\<close> (storing and replicas), \<open>Node_Ring\<close> (join,
    stabilize, notify, fix_fingers, check_predecessor), \<open>Ring_Protocol\<close> and \<open>Recovery\<close> (what these do to the ring
    and which messages they send), \<open>Node_Metrics\<close> (gossip and local estimates), \<open>Load_Balance\<close>, \<open>Node_Server\<close> (one
    connection, every message, the maintenance task), \<open>Locks\<close> (mutexes taken under others).
  \<^item> Around a node: \<open>Slots\<close> and \<open>Network_Client\<close> (network_client.rs: the limit of connections and the retries),
    \<open>Node_Api\<close> (api.rs), \<open>Startup\<close> (the configuration of main.rs, the library's constructors and wrappers of lib.rs,
    shutdown), \<open>Collector\<close> (collector/src).
  \<^item> Composition: \<open>Lone_Node\<close> (a node alone, as a mailbox service), \<open>End_To_End\<close> (two clients and a node),
    \<open>Cluster\<close> (any number of nodes calling each other), \<open>Two_Nodes\<close>, \<open>Process\<close> (the tasks of main.rs, interleaved),
    \<open>Metrics_Flow\<close> (from a node over the collector to the chart of a client).
  \<^item> The integration tests, \<open>tests/src/integration\<close>: \<open>Harness\<close> (the answers of simulated nodes, the checks of invariants).

  \<^bold>\<open>State, effects and errors.\<close> A handler is a function of the state it runs in. JavaScript and the tasks of a node
  give up control at every await: the network is an argument that receives the state and returns it as the other
  handlers or tasks have left it, together with the answer. What a caller relies on is stated as a relation kept by
  the network (\<open>net_rely\<close> at the client, \<open>dht_rely\<close> and \<open>dht_along\<close> at a node). Exceptions and panics are values of
  sum types (\<open>outcome\<close>, \<open>string + 'a\<close>), a poisoned mutex is part of the node's state. Floating-point values are
  \<open>load\<close>s, rationals with infinities and not-a-number; rounding arithmetic is an argument. The 32-bit counters and the
  colour hash use words; identifiers are twenty bytes.

  \<^bold>\<open>The interfaces.\<close> \<open>call_relation\<close>, \<open>write_relation\<close>, \<open>upkeep_relation\<close> and \<open>service_relation\<close> (with \<open>node_relation\<close>,
  \<open>storage_relation\<close> and \<open>ring_relation\<close> for relations on the node alone) say what an operation may do to a node;
  every operation keeps every relation that these elementary changes keep. A relation on the node alone gives one
  on the node and the world (\<open>sublocale\<close>). They are interpreted on the growth of
  the data, on well-formedness, on the pointers of the ring, on the shutdown signal, and on whole clusters. \<open>slot_counter\<close> is the contract of
  a limit on connections, interpreted on the limiter of the network client and on the counter of the server. At the
  client \<open>await_relation\<close> is what holds across every request and \<open>async_handler\<close> what a handler does to the
  component, interpreted on the handlers in \<open>Messaging\<close>, \<open>Polling\<close>, \<open>Evolution\<close> and \<open>Lifecycle\<close>; \<open>sealed_text\<close> is the
  contract of the encryption, interpreted in \<open>Wasm\<close>, and \<open>ring_interval\<close> that of the arcs, in \<open>Node_Id\<close>.

  \<^bold>\<open>What is shown.\<close> The client loses nothing and stays well-formed in every interleaving of its handlers; a message sent
  reaches the page of its receiver; polls are idempotent; nothing starts before the terms are accepted. Keys decrypt
  what they encrypted. A lookup in a ring that answers truthfully finds the responsible node; a node keeps its
  data under every operation, and so do the nodes of a cluster, of whose network nothing is assumed; two nodes form
  a ring under every fair schedule and share their messages; a node alone refines a mailbox service; a challenge
  is accepted once; every message has an answer of its type; connections per host are bounded; the load
  check never migrates; operations never deadlock, but for one; a signal ends the process in a bounded number of
  steps; the metrics of a node reach the chart of a client. The checks of the integration tests are shown to mean
  what they say, and a ring of two to pass them. Where the code departs from what its comments
  or its purpose say, the departure is a property of its own: a lookup for a node's own identifier overshoots, the
  transfer to a new predecessor and the recovery after a failed one concern the wrong keys, a message is filed
  under the contact selected later, of two messages within a second one is dropped, slots are lost, a latency
  poisons the metrics, a node whose server cannot bind lingers, the simulated nodes of the tests answer less
  than real ones.

  \<^bold>\<open>Bounds.\<close> Loops of the source are structural recursions where it bounds them: retries (three, and the
  argument of apiRequest), ten hops of a lookup, two further successors, ten random keys of a connect. Ten
  hops are enough for eleven nodes (\<open>find_successor_correct\<close>). The wait of the shutdown may run on and is a
  partial function; it is shown to end. The search of the nodes reachable in a test terminates by the nodes not
  yet visited, and the walk along the successors takes at most twice as many steps as there are nodes, as in the
  code; one step more than the nodes is enough. The depth of nested calls in \<open>cluster_net\<close> is bounded, as by the
  timeouts of the code: the properties of clusters hold at every depth; one level is enough for two nodes to
  stabilize, two for storing with replication.

  \<^bold>\<open>Parameters.\<close> Third-party code is a parameter with its documented behaviour as named hypotheses: the
  cryptographic crates (\<open>crypto_ok\<close>), big integers (\<open>bignum_ok\<close>), the iteration order of hash maps and SHA-1
  (\<open>env_ok\<close>), JSON and bincode (\<open>codecs_ok\<close>, \<open>json_ok\<close>, \<open>metrics_json_ok\<close>), floating-point rounding (\<open>float_ok\<close>), sockets and
  timers (\<open>transport_ok\<close>, \<open>interval_ok\<close>). Each has an instance in the closed examples.

  \<^bold>\<open>Not modelled.\<close> The page, its styles and the drawing of charts; vendored scripts (Alpine, Chart.js); logging, and of
  sockets and signals more than that they fail or deliver; of the integration tests the channels and timers of the
  simulation, the scenarios and the texts of violations; deployment files; failures of the collector's disk. A migration of keys is modelled, but as it never happens it is no step of its own. Between
  two clusters' steps a message is neither lost nor duplicated in \<open>Cluster\<close>; the single-node theories allow any answer.
\<close>

end
